(* ===== verification/Prelude.thy ===== *)
theory Prelude
  imports Complex_Main "HOL-Library.AList" "HOL-Library.Char_ord"
    "HOL-Library.List_Lexorder"
begin

text \<open>
  What every component shares: Python values as the JSON and TOML readers of the standard
  library deliver them, the few string and integer operations of the standard library the
  program uses, sums as results of code that may raise, and the lemma collections.

  Characters are code points below 256; a Python string with other characters is outside
  the model.  Times (\<open>time.monotonic()\<close> and the intervals of the configuration, floats in
  the source) are exact rationals: rounding is not modelled.
\<close>

named_theorems store_laws \<open>reading a file store after a write, a removal or a rename\<close>
named_theorems ledger_defs \<open>definitions of the ledger's admission arithmetic\<close>
named_theorems frame \<open>fields an operation leaves alone\<close>

type_synonym pid = int
type_synonym mib = int
type_synonym time = rat

datatype errno = EPERM | ESRCH | EACCES | ENOENT | ENOEXEC | EISDIR | OtherErrno int

section \<open>Values read from JSON and TOML\<close>

datatype pyfloat = Finite rat | PlusInf | MinusInf | NaN

datatype pyval =
    PNone
  | PBool bool
  | PInt int
  | PFloat pyfloat
  | PStr string
  | PDate string
  | PList "pyval list"
  | PDict "(string \<times> pyval) list"

type_synonym pydict = "(string \<times> pyval) list"

text \<open>\<open>d.get(k)\<close> and \<open>d.get(k, default)\<close> of a dictionary.\<close>

definition dict_get :: "string \<Rightarrow> pydict \<Rightarrow> pyval" where
  "dict_get k d = (case map_of d k of None \<Rightarrow> PNone | Some v \<Rightarrow> v)"

definition dict_get_or :: "string \<Rightarrow> pyval \<Rightarrow> pydict \<Rightarrow> pyval" where
  "dict_get_or k dflt d = (case map_of d k of None \<Rightarrow> dflt | Some v \<Rightarrow> v)"

lemma dict_get_Nil [simp]: "dict_get k [] = PNone"
  by (simp add: dict_get_def)

lemma dict_get_Cons [simp]:
  "dict_get k ((k', v) # d) = (if k = k' then v else dict_get k d)"
  by (simp add: dict_get_def)

lemma dict_get_or_Nil [simp]: "dict_get_or k dflt [] = dflt"
  by (simp add: dict_get_or_def)

lemma dict_get_or_Cons [simp]:
  "dict_get_or k dflt ((k', v) # d) = (if k = k' then v else dict_get_or k dflt d)"
  by (simp add: dict_get_or_def)

text \<open>Python's truth value of a value.\<close>

fun truthy :: "pyval \<Rightarrow> bool" where
  "truthy PNone = False"
| "truthy (PBool b) = b"
| "truthy (PInt i) = (i \<noteq> 0)"
| "truthy (PFloat x) = (x \<noteq> Finite 0)"
| "truthy (PStr s) = (s \<noteq> [])"
| "truthy (PDate s) = True"
| "truthy (PList xs) = (xs \<noteq> [])"
| "truthy (PDict d) = (d \<noteq> [])"

text \<open>\<open>isinstance(v, int)\<close> is true of booleans; \<open>is_plain_int\<close> is
  \<open>isinstance(v, int) and not isinstance(v, bool)\<close>, the test the program makes.\<close>

fun is_int :: "pyval \<Rightarrow> bool" where
  "is_int (PInt _) = True"
| "is_int (PBool _) = True"
| "is_int _ = False"

fun is_bool :: "pyval \<Rightarrow> bool" where
  "is_bool (PBool _) = True"
| "is_bool _ = False"

fun is_str :: "pyval \<Rightarrow> bool" where
  "is_str (PStr _) = True"
| "is_str _ = False"

fun int_value :: "pyval \<Rightarrow> int" where
  "int_value (PInt i) = i"
| "int_value (PBool b) = (if b then 1 else 0)"
| "int_value _ = 0"

definition of_int_opt :: "int option \<Rightarrow> pyval" where
  "of_int_opt x = (case x of None \<Rightarrow> PNone | Some i \<Rightarrow> PInt i)"

definition of_str_opt :: "string option \<Rightarrow> pyval" where
  "of_str_opt x = (case x of None \<Rightarrow> PNone | Some s \<Rightarrow> PStr s)"

lemma of_int_opt_simps [simp]:
  "of_int_opt None = PNone" "of_int_opt (Some i) = PInt i"
  by (simp_all add: of_int_opt_def)

lemma of_str_opt_simps [simp]:
  "of_str_opt None = PNone" "of_str_opt (Some s) = PStr s"
  by (simp_all add: of_str_opt_def)

section \<open>Code that may raise\<close>

definition bind_result :: "'e + 'a \<Rightarrow> ('a \<Rightarrow> 'e + 'b) \<Rightarrow> 'e + 'b" where
  "bind_result r f = (case r of Inl e \<Rightarrow> Inl e | Inr a \<Rightarrow> f a)"

lemma bind_result_simps [simp]:
  "bind_result (Inl e) f = Inl e" "bind_result (Inr a) f = f a"
  by (simp_all add: bind_result_def)

text \<open>\<open>may_raise e\<close> turns an expression that raises (\<open>None\<close>) into the error it is reported as.\<close>

definition may_raise :: "'e \<Rightarrow> 'a option \<Rightarrow> 'e + 'a" where
  "may_raise e x = (case x of None \<Rightarrow> Inl e | Some a \<Rightarrow> Inr a)"

definition check :: "'e \<Rightarrow> bool \<Rightarrow> 'e + unit" where
  "check e ok = (if ok then Inr () else Inl e)"

lemma bind_result_Inr: "bind_result r f = Inr b \<longleftrightarrow> (\<exists>a. r = Inr a \<and> f a = Inr b)"
  by (cases r) auto

lemma may_raise_Inr: "may_raise e x = Inr a \<longleftrightarrow> x = Some a"
  by (auto simp: may_raise_def split: option.splits)

lemma check_Inr: "check e ok = Inr u \<longleftrightarrow> ok"
  by (simp add: check_def)

lemmas result_Inr = bind_result_Inr may_raise_Inr check_Inr

section \<open>Characters and strings\<close>

definition code_pt :: "char \<Rightarrow> nat" where
  "code_pt c = of_char c"

definition is_digit :: "char \<Rightarrow> bool" where
  "is_digit c = (48 \<le> code_pt c \<and> code_pt c \<le> 57)"

definition is_alnum :: "char \<Rightarrow> bool" where
  "is_alnum c = (is_digit c \<or> (65 \<le> code_pt c \<and> code_pt c \<le> 90)
                 \<or> (97 \<le> code_pt c \<and> code_pt c \<le> 122))"

definition is_space :: "char \<Rightarrow> bool" where
  "is_space c = ((9 \<le> code_pt c \<and> code_pt c \<le> 13) \<or> (28 \<le> code_pt c \<and> code_pt c \<le> 32)
                 \<or> code_pt c = 133 \<or> code_pt c = 160)"

definition lower_char :: "char \<Rightarrow> char" where
  "lower_char c = (if (65 \<le> code_pt c \<and> code_pt c \<le> 90)
      \<or> (192 \<le> code_pt c \<and> code_pt c \<le> 222 \<and> code_pt c \<noteq> 215)
    then char_of (code_pt c + 32) else c)"

definition lower :: "string \<Rightarrow> string" where
  "lower s = map lower_char s"

definition strip :: "string \<Rightarrow> string" where
  "strip s = rev (dropWhile is_space (rev (dropWhile is_space s)))"

definition starts_with :: "string \<Rightarrow> string \<Rightarrow> bool" where
  "starts_with s p = (take (length p) s = p)"

definition ends_with :: "string \<Rightarrow> string \<Rightarrow> bool" where
  "ends_with s p = starts_with (rev s) (rev p)"

lemma starts_with_iff: "starts_with s p \<longleftrightarrow> (\<exists>r. s = p @ r)"
  by (auto simp: starts_with_def) (metis append_take_drop_id)

lemma ends_with_iff: "ends_with s p \<longleftrightarrow> (\<exists>r. s = r @ p)"
  by (metis ends_with_def rev_append rev_rev_ident starts_with_iff)

text \<open>\<open>pat in s\<close>.\<close>

fun contains :: "string \<Rightarrow> string \<Rightarrow> bool" where
  "contains pat [] = (pat = [])"
| "contains pat (c # cs) = (starts_with (c # cs) pat \<or> contains pat cs)"

text \<open>\<open>s.split(sep)\<close> for a one-character separator: always at least one piece.\<close>

fun split_on :: "char \<Rightarrow> string \<Rightarrow> string list" where
  "split_on c [] = [[]]"
| "split_on c (x # xs) =
     (if x = c then [] # split_on c xs
      else (case split_on c xs of [] \<Rightarrow> [[x]] | p # ps \<Rightarrow> (x # p) # ps))"

fun join :: "string \<Rightarrow> string list \<Rightarrow> string" where
  "join sep [] = []"
| "join sep [p] = p"
| "join sep (p # q # ps) = p @ sep @ join sep (q # ps)"

lemma split_on_not_Nil [simp]: "split_on c s \<noteq> []"
  by (induction s) (auto split: list.splits)

lemma split_on_append: "split_on c (p @ c # r) = split_on c p @ split_on c r"
  by (induction p) (auto split: list.splits simp: Cons_eq_append_conv)

text \<open>\<open>s.replace(pat, "")\<close> for a pattern that is not empty.\<close>

function erase :: "string \<Rightarrow> string \<Rightarrow> string" where
  "erase pat [] = []"
| "erase pat (c # cs) = (if pat \<noteq> [] \<and> starts_with (c # cs) pat
     then erase pat (drop (length pat) (c # cs)) else c # erase pat cs)"
  by pat_completeness auto
termination
  by (relation "measure (\<lambda>(pat, s). length s)") auto

text \<open>\<open>s.rstrip(c)\<close>.\<close>

definition rstrip_char :: "char \<Rightarrow> string \<Rightarrow> string" where
  "rstrip_char c s = rev (dropWhile (\<lambda>x. x = c) (rev s))"

text \<open>\<open>s.split()\<close>: pieces between runs of white space, none of them empty.\<close>

definition split_ws :: "string \<Rightarrow> string list" where
  "split_ws s = filter (\<lambda>p. p \<noteq> [])
     (split_on CHR '' '' (map (\<lambda>c. if is_space c then CHR '' '' else c) s))"

text \<open>\<open>s.splitlines()\<close> for text whose only line break is the newline.\<close>

definition splitlines :: "string \<Rightarrow> string list" where
  "splitlines s =
     (let ps = split_on (CHR 0x0A) s
      in if last ps = [] then butlast ps else ps)"

text \<open>\<open>s.isdigit()\<close>.\<close>

definition all_digits :: "string \<Rightarrow> bool" where
  "all_digits s = (s \<noteq> [] \<and> list_all is_digit s)"

text \<open>\<open>int(s)\<close> of a string: white space around it, a sign, and digits in which single
  underscores may stand; \<open>None\<close> is the ValueError.\<close>

fun read_digits :: "int \<Rightarrow> string \<Rightarrow> int option" where
  "read_digits acc [] = Some acc"
| "read_digits acc (c # cs) =
     (if is_digit c then read_digits (10 * acc + int (code_pt c - 48)) cs
      else if c = CHR ''_'' then
        (case cs of [] \<Rightarrow> None
         | d # ds \<Rightarrow> if is_digit d then read_digits (10 * acc + int (code_pt d - 48)) ds
                    else None)
      else None)"

definition read_nat :: "string \<Rightarrow> int option" where
  "read_nat s = (case s of [] \<Rightarrow> None
     | c # cs \<Rightarrow> if is_digit c then read_digits 0 s else None)"

definition int_of_string :: "string \<Rightarrow> int option" where
  "int_of_string s =
     (case strip s of [] \<Rightarrow> None
      | c # cs \<Rightarrow> if c = CHR ''-'' then map_option uminus (read_nat cs)
                 else if c = CHR ''+'' then read_nat cs
                 else read_nat (c # cs))"

text \<open>\<open>int(v)\<close>: \<open>None\<close> is the TypeError, ValueError or OverflowError it raises.\<close>

definition truncate_rat :: "rat \<Rightarrow> int" where
  "truncate_rat r = (if 0 \<le> r then floor r else ceiling r)"

fun py_int :: "pyval \<Rightarrow> int option" where
  "py_int (PInt i) = Some i"
| "py_int (PBool b) = Some (if b then 1 else 0)"
| "py_int (PFloat (Finite r)) = Some (truncate_rat r)"
| "py_int (PStr s) = int_of_string s"
| "py_int _ = None"

text \<open>\<open>str(i)\<close> of an integer.\<close>

fun show_nat :: "nat \<Rightarrow> string" where
  "show_nat n = (if n < 10 then [char_of (48 + n)] else show_nat (n div 10) @ [char_of (48 + n mod 10)])"

declare show_nat.simps [simp del]

definition show_int :: "int \<Rightarrow> string" where
  "show_int i = (if i < 0 then CHR ''-'' # show_nat (nat (- i)) else show_nat (nat i))"

text \<open>\<open>float(v)\<close>: decimal notation with an optional exponent, or one of the names of the
  values that are not finite; \<open>None\<close> is the exception.\<close>

definition read_mantissa :: "string \<Rightarrow> rat option" where
  "read_mantissa s = (case split_on CHR ''.'' s of
      [i] \<Rightarrow> map_option of_int (read_nat i)
    | [i, f] \<Rightarrow> if i = [] \<and> f = [] then None
        else Option.bind (if i = [] then Some 0 else read_nat i) (\<lambda>iv.
             Option.bind (if f = [] then Some 0 else read_nat f) (\<lambda>fv.
               Some (of_int iv + of_int fv / 10 ^ length (filter is_digit f))))
    | _ \<Rightarrow> None)"

definition read_exponent :: "string \<Rightarrow> int option" where
  "read_exponent s = (case s of [] \<Rightarrow> None
     | c # cs \<Rightarrow> if c = CHR ''-'' then map_option uminus (read_nat cs)
                else if c = CHR ''+'' then read_nat cs else read_nat s)"

definition scale_ten :: "rat \<Rightarrow> int \<Rightarrow> rat" where
  "scale_ten r e = (if 0 \<le> e then r * 10 ^ nat e else r / 10 ^ nat (- e))"

definition read_unsigned_float :: "string \<Rightarrow> pyfloat option" where
  "read_unsigned_float s =
    (if s \<in> {''inf'', ''infinity''} then Some PlusInf
     else if s = ''nan'' then Some NaN
     else (case split_on CHR ''e'' s of
        [m] \<Rightarrow> map_option Finite (read_mantissa m)
      | [m, e] \<Rightarrow> Option.bind (read_mantissa m) (\<lambda>r.
                  Option.bind (read_exponent e) (\<lambda>k. Some (Finite (scale_ten r k))))
      | _ \<Rightarrow> None))"

definition negate_float :: "pyfloat \<Rightarrow> pyfloat" where
  "negate_float x = (case x of Finite r \<Rightarrow> Finite (- r)
     | PlusInf \<Rightarrow> MinusInf | MinusInf \<Rightarrow> PlusInf | NaN \<Rightarrow> NaN)"

definition float_of_string :: "string \<Rightarrow> pyfloat option" where
  "float_of_string s = (case lower (strip s) of [] \<Rightarrow> None
     | c # cs \<Rightarrow> if c = CHR ''-'' then map_option negate_float (read_unsigned_float cs)
                else if c = CHR ''+'' then read_unsigned_float cs
                else read_unsigned_float (c # cs))"

fun py_float :: "pyval \<Rightarrow> pyfloat option" where
  "py_float (PInt i) = Some (Finite (of_int i))"
| "py_float (PBool b) = Some (Finite (if b then 1 else 0))"
| "py_float (PFloat x) = Some x"
| "py_float (PStr s) = float_of_string s"
| "py_float _ = None"

text \<open>Comparing an exact time with a float, and the arithmetic the intervals need.\<close>

definition time_ge :: "time \<Rightarrow> pyfloat \<Rightarrow> bool" where
  "time_ge t x = (case x of Finite r \<Rightarrow> r \<le> t | PlusInf \<Rightarrow> False | MinusInf \<Rightarrow> True | NaN \<Rightarrow> False)"

definition time_lt :: "time \<Rightarrow> pyfloat \<Rightarrow> bool" where
  "time_lt t x = (case x of Finite r \<Rightarrow> t < r | PlusInf \<Rightarrow> True | MinusInf \<Rightarrow> False | NaN \<Rightarrow> False)"

definition time_le :: "time \<Rightarrow> pyfloat \<Rightarrow> bool" where
  "time_le t x = (case x of Finite r \<Rightarrow> t \<le> r | PlusInf \<Rightarrow> True | MinusInf \<Rightarrow> False | NaN \<Rightarrow> False)"

fun add_float :: "pyfloat \<Rightarrow> pyfloat \<Rightarrow> pyfloat" where
  "add_float (Finite r) (Finite s) = Finite (r + s)"
| "add_float (Finite r) y = y"
| "add_float x (Finite s) = x"
| "add_float x y = (if x = y then x else NaN)"

definition twice :: "pyfloat \<Rightarrow> pyfloat" where
  "twice x = add_float x x"

end
