(* ===== verification/Store.thy ===== *)
theory Store
  imports Prelude
begin

text \<open>
  The part of the file system the program uses as its data base: regular files named by
  their path components, with whatever a reader makes of their content.  Directories are
  the names files have in common; a directory that does not exist reads as an empty one,
  as \<open>glob\<close> behind an \<open>is_dir\<close> test does.  \<open>rename\<close> is atomic, which is the only
  property of the file system the queue and the ledger publish through.
\<close>

type_synonym path = "string list"
type_synonym 'c files = "(path \<times> 'c) list"

definition read_file :: "'c files \<Rightarrow> path \<Rightarrow> 'c option" where
  "read_file fs p = map_of fs p"

definition exists_file :: "'c files \<Rightarrow> path \<Rightarrow> bool" where
  "exists_file fs p = (read_file fs p \<noteq> None)"

definition put_file :: "path \<Rightarrow> 'c \<Rightarrow> 'c files \<Rightarrow> 'c files" where
  "put_file p c fs = AList.update p c fs"

definition remove_file :: "path \<Rightarrow> 'c files \<Rightarrow> 'c files" where
  "remove_file p fs = AList.delete p fs"

text \<open>\<open>os.rename\<close>: \<open>None\<close> is FileNotFoundError; an existing target is replaced.\<close>

definition rename_file :: "path \<Rightarrow> path \<Rightarrow> 'c files \<Rightarrow> 'c files option" where
  "rename_file src dst fs = (case map_of fs src of None \<Rightarrow> None
     | Some c \<Rightarrow> Some (AList.update dst c (AList.delete src fs)))"

text \<open>\<open>sorted(d.glob("*" + suffix))\<close>, as names within the directory.\<close>

definition glob_names :: "path \<Rightarrow> string \<Rightarrow> 'c files \<Rightarrow> string list" where
  "glob_names d suffix fs =
     sort (remdups (map last (filter (\<lambda>p. p \<noteq> [] \<and> butlast p = d \<and> ends_with (last p) suffix)
                                     (map fst fs))))"

text \<open>\<open>sorted(d.glob("*" + suffix))\<close> where the matches are directories holding files.\<close>

definition glob_dirs :: "path \<Rightarrow> string \<Rightarrow> 'c files \<Rightarrow> string list" where
  "glob_dirs d suffix fs =
     sort (remdups (map (\<lambda>p. p ! length d)
       (filter (\<lambda>p. length p = length d + 2 \<and> take (length d) p = d
                    \<and> ends_with (p ! length d) suffix) (map fst fs))))"

section \<open>The interface the queue and the ledger rely on\<close>

locale file_store =
  fixes rd :: "'s \<Rightarrow> path \<Rightarrow> 'c option"
    and put :: "path \<Rightarrow> 'c \<Rightarrow> 's \<Rightarrow> 's"
    and del :: "path \<Rightarrow> 's \<Rightarrow> 's"
    and mv :: "path \<Rightarrow> path \<Rightarrow> 's \<Rightarrow> 's option"
    and ls :: "path \<Rightarrow> string \<Rightarrow> 's \<Rightarrow> string list"
  assumes rd_put: "rd (put p c s) q = (if q = p then Some c else rd s q)"
    and rd_del: "rd (del p s) q = (if q = p then None else rd s q)"
    and mv_None: "mv p q s = None \<longleftrightarrow> rd s p = None"
    and rd_mv: "mv p q s = Some s' \<Longrightarrow>
          rd s' r = (if r = q then rd s p else if r = p then None else rd s r)"
    and set_ls: "set (ls d suf s) = {n. rd s (d @ [n]) \<noteq> None \<and> ends_with n suf}"
    and sorted_ls: "sorted (ls d suf s)"
    and distinct_ls: "distinct (ls d suf s)"
begin

text \<open>Publishing through a temporary file: write beside, then rename over.\<close>

lemma publish_succeeds: "mv tmp p (put tmp c s) \<noteq> None"
  by (simp add: mv_None rd_put)

lemma rd_publish:
  assumes "mv tmp p (put tmp c s) = Some s'"
  shows "rd s' q = (if q = p then Some c else if q = tmp then None else rd s q)"
  using rd_mv [OF assms, of q] by (auto simp: rd_put)

text \<open>Two listings of the same entries are the same list.\<close>

lemma ls_cong:
  assumes "\<And>n. ends_with n suf \<Longrightarrow> (rd s (d @ [n]) \<noteq> None) = (rd s' (d @ [n]) \<noteq> None)"
  shows "ls d suf s = ls d suf s'"
proof -
  have "set (ls d suf s) = set (ls d suf s')"
    using assms by (auto simp: set_ls)
  then show ?thesis
    by (meson sorted_distinct_set_unique sorted_ls distinct_ls)
qed

lemma ls_hidden:
  assumes "\<not> ends_with n suf"
  shows "ls d suf (put (e @ [n]) c s) = ls d suf s"
  by (rule ls_cong) (use assms in \<open>auto simp: rd_put\<close>)

text \<open>Half-way through a publication a listing is the old one, afterwards the new one.\<close>

lemma publish_invisible:
  assumes "\<not> ends_with n suf"
  shows "ls d suf (put (e @ [n]) c s) = ls d suf s
       \<and> (q \<noteq> e @ [n] \<longrightarrow> rd (put (e @ [n]) c s) q = rd s q)"
  using assms by (simp add: ls_hidden rd_put)

end

lemma read_put [store_laws]:
  "read_file (put_file p c fs) q = (if q = p then Some c else read_file fs q)"
  by (simp add: read_file_def put_file_def update_conv)

lemma read_remove [store_laws]:
  "read_file (remove_file p fs) q = (if q = p then None else read_file fs q)"
  by (simp add: read_file_def remove_file_def delete_conv)

lemma rename_None [store_laws]: "rename_file p q fs = None \<longleftrightarrow> read_file fs p = None"
  by (simp add: rename_file_def read_file_def split: option.splits)

lemma read_rename [store_laws]:
  "rename_file p q fs = Some fs' \<Longrightarrow>
     read_file fs' r = (if r = q then read_file fs p else if r = p then None else read_file fs r)"
  by (auto simp: rename_file_def read_file_def update_conv delete_conv split: option.splits)

lemma set_glob_names [store_laws]:
  "set (glob_names d suf fs) = {n. read_file fs (d @ [n]) \<noteq> None \<and> ends_with n suf}"
proof -
  have key: "(\<exists>p\<in>fst ` set fs. p \<noteq> [] \<and> butlast p = d \<and> ends_with (last p) suf \<and> n = last p)
     \<longleftrightarrow> d @ [n] \<in> fst ` set fs \<and> ends_with n suf" for n
    by (metis append_butlast_last_id last_snoc butlast_snoc snoc_eq_iff_butlast)
  have "n \<in> set (glob_names d suf fs) \<longleftrightarrow> read_file fs (d @ [n]) \<noteq> None \<and> ends_with n suf" for n
    using key [of n] by (auto simp: glob_names_def read_file_def map_of_eq_None_iff)
  then show ?thesis by blast
qed

lemma glob_names_sorted [simp]: "sorted (glob_names d suf fs)"
  by (simp add: glob_names_def)

lemma glob_names_distinct [simp]: "distinct (glob_names d suf fs)"
  by (simp add: glob_names_def)

interpretation fs: file_store read_file put_file remove_file rename_file glob_names
  by unfold_locales (auto simp: store_laws)

text \<open>The publication both the queue and the ledger write through: \<open>_write\<close> and
  \<open>write_record\<close> put the text in \<open><name>.part\<close> and rename it over \<open><name>\<close>.\<close>

definition part_of :: "path \<Rightarrow> path" where
  "part_of p = butlast p @ [last p @ ''.part'']"

definition publish :: "path \<Rightarrow> 'c \<Rightarrow> 'c files \<Rightarrow> 'c files" where
  "publish p c fs = (case rename_file (part_of p) p (put_file (part_of p) c fs) of
     None \<Rightarrow> fs | Some fs' \<Rightarrow> fs')"

lemma part_of_neq [simp]: "p \<noteq> [] \<Longrightarrow> part_of p \<noteq> p"
  by (metis append_butlast_last_id append_self_conv last_snoc list.discI part_of_def same_append_eq)

lemma read_publish [store_laws]:
  "read_file (publish p c fs) q =
     (if q = p then Some c else if q = part_of p then None else read_file fs q)"
proof -
  obtain fs' where mv: "rename_file (part_of p) p (put_file (part_of p) c fs) = Some fs'"
    using fs.publish_succeeds [of "part_of p" p c fs] by auto
  then show ?thesis
    by (simp add: publish_def fs.rd_publish [OF mv])
qed

lemma ends_with_snoc_char: "ends_with (s @ [c]) (t @ [d]) \<longleftrightarrow> c = d \<and> ends_with s t"
  by (auto simp: ends_with_def starts_with_def)

lemma part_not_json [simp]: "\<not> ends_with (n @ ''.part'') ''.json''"
  using ends_with_snoc_char [of "n @ ''.par''" "CHR ''t''" "''.jso''" "CHR ''n''"] by simp

lemma json_ends [simp]: "ends_with (n @ ''.json'') ''.json''"
  by (simp add: ends_with_def starts_with_def)

end
