(* ===== verification/Procs.thy ===== *)
theory Procs
  imports Prelude
begin

text \<open>
  \<open>src/gpuqueue/procs.py\<close>: process liveness and process trees, over what the operating
  system answers.  A \<open>snapshot\<close> collects the answers: signal 0 sent to a pid, the output
  of \<open>ps\<close> for a parent, the text under \<open>/proc\<close>, the output of each \<open>nvidia-smi\<close> query, and
  the depth to which Python lets \<open>descendants\<close> recurse.  The operations are parameters of
  the model: nothing is assumed about them here.
\<close>

record snapshot =
  kill_zero :: "pid \<Rightarrow> errno option"
  ps_children :: "pid \<Rightarrow> string option"
  cgroup_text :: "pid \<Rightarrow> string + string"
  stat_text :: "pid \<Rightarrow> bool + string"
  proc_entries :: "string list option"
  smi_uuid :: "string option"
  smi_name :: "string option"
  smi_total :: "string option"
  smi_apps :: "string option"
  own_pid :: pid
  own_ppid :: pid
  frames :: nat

text \<open>
  \<open>kill_zero\<close> is the errno of \<open>os.kill(pid, 0)\<close>, \<open>None\<close> for success; \<open>ps_children\<close> is
  \<open>None\<close> where \<open>subprocess.run\<close> raised, as the \<open>smi_\<close> fields are; the left of
  \<open>cgroup_text\<close> is the strerror of the failed read; the left of \<open>stat_text\<close> tells whether
  the file was not there (\<open>True\<close>) or not readable (\<open>False\<close>).
\<close>

definition pid_alive :: "snapshot \<Rightarrow> pid \<Rightarrow> bool" where
  "pid_alive os p = (if p \<le> 0 then False
     else (case kill_zero os p of None \<Rightarrow> True | Some e \<Rightarrow> e = EPERM))"

definition kid_pids :: "snapshot \<Rightarrow> pid \<Rightarrow> pid list" where
  "kid_pids os p = (case ps_children os p of None \<Rightarrow> []
     | Some out \<Rightarrow> List.map_filter (\<lambda>l. if all_digits (strip l) then int_of_string l else None)
                     (split_ws out))"

text \<open>
  \<open>descendants\<close> recurses once per level of the tree.  When the interpreter's frames run out
  the RecursionError is raised inside \<open>subprocess.run\<close>, the deepest call, where the bare
  \<open>except Exception\<close> turns it into the empty set: \<open>frames\<close> is fuel the program itself has.
\<close>

fun descendants_n :: "nat \<Rightarrow> snapshot \<Rightarrow> pid \<Rightarrow> pid set" where
  "descendants_n 0 os p = {}"
| "descendants_n (Suc n) os p =
     set (kid_pids os p) \<union> (\<Union>k\<in>set (kid_pids os p). descendants_n n os k)"

definition descendants :: "snapshot \<Rightarrow> pid \<Rightarrow> pid set" where
  "descendants os p = descendants_n (frames os) os p"

definition child_rel :: "snapshot \<Rightarrow> (pid \<times> pid) set" where
  "child_rel os = {(p, k). k \<in> set (kid_pids os p)}"

lemma descendants_n_levels:
  "descendants_n n os p = {q. \<exists>k. 0 < k \<and> k \<le> n \<and> (p, q) \<in> child_rel os ^^ k}"
proof (induction n arbitrary: p)
  case 0
  then show ?case by simp
next
  case (Suc n)
  have "(\<exists>k. 0 < k \<and> k \<le> Suc n \<and> (p, q) \<in> child_rel os ^^ k) \<longleftrightarrow>
      (p, q) \<in> child_rel os \<or>
      (\<exists>m. (p, m) \<in> child_rel os \<and> (\<exists>k. 0 < k \<and> k \<le> n \<and> (m, q) \<in> child_rel os ^^ k))"
    (is "?L = ?R") for q
  proof
    assume ?L
    then obtain k where k: "0 < k" "k \<le> Suc n" "(p, q) \<in> child_rel os ^^ k" by blast
    then obtain k' where "k = Suc k'" by (cases k) auto
    with k(3) obtain m where "(p, m) \<in> child_rel os" "(m, q) \<in> child_rel os ^^ k'"
      by (metis relpow_Suc_E2)
    show ?R
    proof (cases k')
      case 0
      with k \<open>k = Suc k'\<close> show ?thesis by simp
    next
      case (Suc j)
      then have "0 < k'" "k' \<le> n" using k(2) \<open>k = Suc k'\<close> by auto
      with \<open>(p, m) \<in> child_rel os\<close> \<open>(m, q) \<in> child_rel os ^^ k'\<close> show ?thesis by blast
    qed
  next
    assume ?R
    then show ?L
    proof
      assume "(p, q) \<in> child_rel os"
      then show ?L by (intro exI [of _ 1]) simp
    next
      assume "\<exists>m. (p, m) \<in> child_rel os \<and> (\<exists>k. 0 < k \<and> k \<le> n \<and> (m, q) \<in> child_rel os ^^ k)"
      then obtain m k where "(p, m) \<in> child_rel os" "0 < k" "k \<le> n" "(m, q) \<in> child_rel os ^^ k"
        by blast
      then show ?L
        using relpow_Suc_I2 [of p m "child_rel os" q k] by (intro exI [of _ "Suc k"]) (simp del: relpow.simps)
    qed
  qed
  then show ?case by (auto simp: Suc.IH) (auto simp: child_rel_def)
qed

lemma descendants_sound: "q \<in> descendants os p \<Longrightarrow> (p, q) \<in> (child_rel os)\<^sup>+"
  by (auto simp: descendants_def descendants_n_levels trancl_power)

lemma descendants_child: "0 < frames os \<Longrightarrow> set (kid_pids os p) \<subseteq> descendants os p"
  by (cases "frames os") (auto simp: descendants_def)

text \<open>\<open>descendants\<close> returns every process under a pid, transitively, whenever the tree is
  no deeper than the recursion the interpreter allows, and never a process outside it.\<close>

lemma descendants_complete:
  assumes "\<And>q k. (p, q) \<in> child_rel os ^^ k \<Longrightarrow> k \<le> frames os"
  shows "descendants os p = {q. (p, q) \<in> (child_rel os)\<^sup>+}"
  using assms by (auto simp: descendants_def descendants_n_levels trancl_power)

definition quiet_box :: snapshot where
  "quiet_box = \<lparr>kill_zero = (\<lambda>p. if p \<in> {10, 11, 12} then None else Some ESRCH),
     ps_children = (\<lambda>p. if p = 10 then Some '' 11 '' else if p = 11 then Some ''12'' else Some []),
     cgroup_text = (\<lambda>p. Inl ''No such file or directory''),
     stat_text = (\<lambda>p. Inl True), proc_entries = Some [''10'', ''11'', ''12'', ''self''],
     smi_uuid = Some ''GPU-AB-1'', smi_name = Some ''A100'', smi_total = Some ''8192 MiB'',
     smi_apps = Some [], own_pid = 10, own_ppid = 1, frames = 900\<rparr>"

lemma quiet_box_kids: "kid_pids quiet_box p = (if p = 10 then [11] else if p = 11 then [12] else [])"
proof -
  have "kid_pids quiet_box 10 = [11]" "kid_pids quiet_box 11 = [12]"
    by code_simp+
  moreover have "kid_pids quiet_box p = []" if "p \<noteq> 10" "p \<noteq> 11"
    using that by (simp add: kid_pids_def quiet_box_def split_ws_def List.map_filter_def)
  ultimately show ?thesis by auto
qed

lemma quiet_box_child: "child_rel quiet_box = {(10, 11), (11, 12)}"
  by (auto simp: child_rel_def quiet_box_kids split: if_splits)

lemma quiet_box_depth: "(10, q) \<in> child_rel quiet_box ^^ k \<Longrightarrow> k \<le> 2"
proof (rule ccontr)
  assume "(10, q) \<in> child_rel quiet_box ^^ k" and "\<not> k \<le> 2"
  then obtain j where "(10, q) \<in> child_rel quiet_box ^^ Suc (Suc (Suc j))"
    by (metis add_2_eq_Suc less_imp_Suc_add linorder_not_le)
  then show False
    unfolding quiet_box_child by (auto elim!: relpow_Suc_E2)
qed

lemma descendants_complete_witness: "descendants quiet_box 10 = {q. (10, q) \<in> (child_rel quiet_box)\<^sup>+}"
proof (rule descendants_complete)
  fix q k
  assume "(10, q) \<in> child_rel quiet_box ^^ k"
  then have "k \<le> 2" by (rule quiet_box_depth)
  then show "k \<le> frames quiet_box" by (simp add: quiet_box_def)
qed

end
