(* ===== verification/Cgroups.thy ===== *)
theory Cgroups
  imports Procs
begin

text \<open>
  \<open>src/gpuqueue/cgroups.py\<close>: which cgroup a process is in, which scopes a claim may name,
  and when a process is inside one.
\<close>

text \<open>The first line of \<open>/proc/<pid>/cgroup\<close> that starts with \<open>0::\<close>, without it.\<close>

definition cgroup_of :: "snapshot \<Rightarrow> pid \<Rightarrow> string option" where
  "cgroup_of os p = (case cgroup_text os p of
      Inl _ \<Rightarrow> None
    | Inr text \<Rightarrow>
        (case find (\<lambda>l. starts_with l ''0::'') (splitlines text) of
           None \<Rightarrow> None
         | Some l \<Rightarrow> (let s = strip (drop 3 l) in if s = [] then None else Some s)))"

definition read_error :: "snapshot \<Rightarrow> pid \<Rightarrow> string option" where
  "read_error os p = (case cgroup_text os p of Inl e \<Rightarrow> Some e | Inr _ \<Rightarrow> None)"

definition NAMED_SCOPES :: "(string \<times> string) list" where
  "NAMED_SCOPES = [(''/'', ''the whole box''), (''/init.scope'', ''pid 1's own scope''),
     (''/system.slice'', ''every system service on this box''),
     (''/user.slice'', ''every logged-in user's session'')]"

text \<open>\<open>^(session-[^/]+\.scope|user-[^/]+\.slice)$\<close>, with \<open>$\<close> also before a final newline.\<close>

definition between :: "string \<Rightarrow> string \<Rightarrow> string \<Rightarrow> bool" where
  "between pre suf s = (starts_with s pre \<and> ends_with s suf
     \<and> length pre + length suf < length s
     \<and> CHR ''/'' \<notin> set (take (length s - length pre - length suf) (drop (length pre) s)))"

definition session_name :: "string \<Rightarrow> bool" where
  "session_name s =
     (let m = (\<lambda>s. between ''session-'' ''.scope'' s \<or> between ''user-'' ''.slice'' s)
      in m s \<or> (s \<noteq> [] \<and> last s = CHR 0x0A \<and> m (butlast s)))"

datatype refusal = NotAbsolute string | TooBroad string string | LoginSession string

definition scope_parts :: "string \<Rightarrow> string list" where
  "scope_parts scope = filter (\<lambda>c. c \<noteq> []) (split_on CHR ''/'' scope)"

definition refuse_reason :: "string \<Rightarrow> refusal option" where
  "refuse_reason scope =
    (if scope = [] \<or> \<not> starts_with scope ''/'' then Some (NotAbsolute scope)
     else if length (scope_parts scope) < 2
       then Some (TooBroad scope (case map_of NAMED_SCOPES scope of
                    Some what \<Rightarrow> what | None \<Rightarrow> ''a top-level slice''))
     else if session_name (last (scope_parts scope)) then Some (LoginSession scope)
     else None)"

definition in_scope :: "snapshot \<Rightarrow> pid \<Rightarrow> string \<Rightarrow> bool" where
  "in_scope os p scope =
    (if scope = [] \<or> refuse_reason scope \<noteq> None then False
     else (case cgroup_of os p of
         None \<Rightarrow> False
       | Some cg \<Rightarrow> cg = scope \<or> starts_with cg (rstrip_char CHR ''/'' scope @ ''/'')))"

definition scope_process_count :: "snapshot \<Rightarrow> string \<Rightarrow> nat option" where
  "scope_process_count os scope = (case proc_entries os of
      None \<Rightarrow> None
    | Some names \<Rightarrow> Some (length (filter (\<lambda>name. all_digits name \<and>
         (case int_of_string name of None \<Rightarrow> False | Some p \<Rightarrow> in_scope os p scope)) names)))"

section \<open>Scopes contain processes by path components\<close>

lemma scope_parts_append:
  "scope_parts (p @ CHR ''/'' # r) = scope_parts p @ scope_parts r"
  by (simp add: scope_parts_def split_on_append)

lemma scope_parts_slash [simp]: "scope_parts [] = []" "scope_parts (CHR ''/'' # r) = scope_parts r"
  by (simp_all add: scope_parts_def)

lemma scope_parts_snoc_slash: "scope_parts (p @ ''/'') = scope_parts p"
  using scope_parts_append [of p "[]"] by simp

lemma scope_parts_slashes: "list_all (\<lambda>x. x = CHR ''/'') ss \<Longrightarrow> scope_parts (p @ ss) = scope_parts p"
proof (induction ss arbitrary: p)
  case (Cons s ss)
  then have "scope_parts (p @ s # ss) = scope_parts p @ scope_parts ss"
    by (simp add: scope_parts_append)
  moreover have "scope_parts ([] @ ss) = []"
    using Cons.IH [of "[]"] Cons.prems by simp
  ultimately show ?case by simp
qed simp

lemma rstrip_decomp: "\<exists>ss. list_all (\<lambda>x. x = c) ss \<and> s = rstrip_char c s @ ss"
proof -
  have "rev s = takeWhile (\<lambda>x. x = c) (rev s) @ dropWhile (\<lambda>x. x = c) (rev s)"
    by simp
  then have "s = rstrip_char c s @ rev (takeWhile (\<lambda>x. x = c) (rev s))"
    unfolding rstrip_char_def by (metis rev_append rev_rev_ident)
  moreover have "list_all (\<lambda>x. x = c) (rev (takeWhile (\<lambda>x. x = c) (rev s)))"
    by (auto simp: list_all_iff dest: set_takeWhileD)
  ultimately show ?thesis by blast
qed

lemma scope_parts_rstrip: "scope_parts (rstrip_char CHR ''/'' scope) = scope_parts scope"
  using rstrip_decomp [of "CHR ''/''" scope] scope_parts_slashes by metis

lemma in_scope_cgroup:
  assumes "in_scope os p scope"
  obtains cg rest where "cgroup_of os p = Some cg" "refuse_reason scope = None"
    "scope_parts cg = scope_parts scope @ rest"
proof -
  obtain cg where cg: "cgroup_of os p = Some cg" "refuse_reason scope = None"
      "cg = scope \<or> starts_with cg (rstrip_char CHR ''/'' scope @ ''/'')"
    using assms by (auto simp: in_scope_def split: if_splits option.splits)
  from cg(3) show ?thesis
  proof
    assume "cg = scope"
    then show ?thesis using that [of cg "[]"] cg by simp
  next
    assume "starts_with cg (rstrip_char CHR ''/'' scope @ ''/'')"
    then obtain r where "cg = rstrip_char CHR ''/'' scope @ CHR ''/'' # r"
      by (auto simp: starts_with_iff)
    then have "scope_parts cg = scope_parts scope @ scope_parts r"
      by (simp add: scope_parts_append scope_parts_rstrip)
    then show ?thesis using that cg by blast
  qed
qed

text \<open>A process counts as inside a scope only if the scope is one a claim may name and its
  path components are a prefix of the components of the process's own cgroup: \<open>/a/bc\<close> is
  never inside \<open>/a/b\<close>, and no scope reaches a process less than two components deep.\<close>

lemma in_scope_component_prefix:
  assumes "in_scope os p scope"
  shows "\<exists>cg rest. cgroup_of os p = Some cg \<and> scope_parts cg = scope_parts scope @ rest
       \<and> 2 \<le> length (scope_parts scope) \<and> \<not> session_name (last (scope_parts scope))"
proof -
  obtain cg rest where cg: "cgroup_of os p = Some cg" "refuse_reason scope = None"
      "scope_parts cg = scope_parts scope @ rest"
    using assms by (rule in_scope_cgroup)
  from cg(2) have "2 \<le> length (scope_parts scope)" "\<not> session_name (last (scope_parts scope))"
    by (auto simp: refuse_reason_def split: if_splits)
  with cg show ?thesis by blast
qed

definition docker_box :: snapshot where
  "docker_box = quiet_box\<lparr>cgroup_text :=
     (\<lambda>p. if p = 11 then Inr ''0::/system.slice/docker-1.scope/init'' else Inl ''gone'')\<rparr>"

lemma docker_box_in_scope: "in_scope docker_box 11 ''/system.slice/docker-1.scope''"
  by code_simp

lemma in_scope_component_prefix_witness:
  "\<exists>cg rest. cgroup_of docker_box 11 = Some cg
     \<and> scope_parts cg = scope_parts ''/system.slice/docker-1.scope'' @ rest"
  using in_scope_component_prefix [OF docker_box_in_scope] by blast

end
