(* ===== verification/Gpuid.thy ===== *)
theory Gpuid
  imports Procs
begin

text \<open>
  \<open>src/gpuqueue/gpuid.py\<close>: the card's identity from what \<open>nvidia-smi\<close> prints, the name of
  its lock, and its total memory.  An index counts from 0; the negative index that
  \<open>--gpu-index -1\<close> would pass (the last card) is outside the model.
\<close>

datatype gpuid_error = EmptyUuid string | NoKey

definition gpu_prefixed :: "string \<Rightarrow> bool" where
  "gpu_prefixed s = (lower (take 4 s) \<in> {''gpu-'', ''mig-''})"

definition drop_gpu_prefix :: "string \<Rightarrow> string" where
  "drop_gpu_prefix s = (if gpu_prefixed s then drop 4 s else s)"

definition normalize_gpu_uuid :: "string \<Rightarrow> gpuid_error + string" where
  "normalize_gpu_uuid raw =
    (let s = lower (strip (drop_gpu_prefix (strip raw)))
     in if s = [] then Inl (EmptyUuid raw) else Inr s)"

definition smi_line :: "string option \<Rightarrow> nat \<Rightarrow> string option" where
  "smi_line out index = (case out of None \<Rightarrow> None
     | Some text \<Rightarrow> (let ls = filter (\<lambda>l. l \<noteq> []) (map strip (splitlines text))
                    in if index < length ls then Some (ls ! index) else None))"

definition gpu_uuid_from_nvidia_smi :: "snapshot \<Rightarrow> nat \<Rightarrow> string option" where
  "gpu_uuid_from_nvidia_smi os index = smi_line (smi_uuid os) index"

definition gpu_name_index_fallback :: "snapshot \<Rightarrow> nat \<Rightarrow> string option" where
  "gpu_name_index_fallback os index =
     map_option (\<lambda>l. l @ ''-'' @ show_nat index) (smi_line (smi_name os) index)"

fun first_source :: "string option list \<Rightarrow> gpuid_error + string" where
  "first_source [] = Inl NoKey"
| "first_source (None # rest) = first_source rest"
| "first_source (Some raw # rest) = (if raw = [] then first_source rest else normalize_gpu_uuid raw)"

definition gpu_key :: "snapshot \<Rightarrow> nat \<Rightarrow> gpuid_error + string" where
  "gpu_key os index =
     first_source [gpu_uuid_from_nvidia_smi os index, gpu_name_index_fallback os index]"

definition cuda_visible_value :: "snapshot \<Rightarrow> nat \<Rightarrow> string option" where
  "cuda_visible_value os index = (case gpu_uuid_from_nvidia_smi os index of
      None \<Rightarrow> None | Some raw \<Rightarrow> if strip raw \<noteq> [] then Some (strip raw) else None)"

text \<open>\<open>re.sub("[^A-Za-z0-9._-]+", "-", key)\<close>: a run of other characters becomes one dash.\<close>

definition key_char :: "char \<Rightarrow> bool" where
  "key_char c = (is_alnum c \<or> c \<in> set ''._-'')"

fun sub_unsafe :: "bool \<Rightarrow> string \<Rightarrow> string" where
  "sub_unsafe in_run [] = []"
| "sub_unsafe in_run (c # cs) =
     (if key_char c then c # sub_unsafe False cs
      else if in_run then sub_unsafe True cs else CHR ''-'' # sub_unsafe True cs)"

definition lock_filename :: "string \<Rightarrow> string" where
  "lock_filename key = sub_unsafe False key @ ''.lock''"

definition total_vram_mb :: "snapshot \<Rightarrow> nat \<Rightarrow> int option" where
  "total_vram_mb os index = (case smi_line (smi_total os) index of
      None \<Rightarrow> None
    | Some l \<Rightarrow> (let digits = strip (erase ''MiB'' l)
                in if all_digits digits then int_of_string digits else None))"

section \<open>One card, one lock file\<close>

lemma dropWhile_strip: "strip s = s \<Longrightarrow> dropWhile is_space s = s"
proof -
  assume s: "strip s = s"
  have "length (strip s) \<le> length (dropWhile is_space s)"
    unfolding strip_def by (metis length_dropWhile_le length_rev)
  moreover have "s = takeWhile is_space s @ dropWhile is_space s" by simp
  ultimately show ?thesis
    using s length_dropWhile_le [of is_space s]
    by (metis append_eq_append_conv append_self_conv2 le_antisym)
qed

lemma strip_last: "strip s = s \<Longrightarrow> dropWhile is_space (rev s) = rev s"
  using dropWhile_strip [of s] unfolding strip_def by (metis rev_rev_ident)

lemma strip_prepend:
  assumes "strip h = h" and "h \<noteq> []" and "\<not> is_space c"
  shows "strip ((c # p) @ h) = (c # p) @ h"
proof -
  have "dropWhile is_space (rev h @ rev (c # p)) = rev h @ rev (c # p)"
  proof (cases "rev h")
    case Nil
    then show ?thesis using assms(2) by simp
  next
    case (Cons x xs)
    with strip_last [OF assms(1)] have "\<not> is_space x"
      by (metis dropWhile_eq_Cons_conv)
    with Cons show ?thesis by simp
  qed
  then show ?thesis
    using assms(3) by (simp add: strip_def)
qed

lemma lower_prefixes:
  "lower ''GPU-'' = ''gpu-''" "lower ''gpu-'' = ''gpu-''" "lower ''Gpu-'' = ''gpu-''"
  "lower ''MIG-'' = ''mig-''" "lower ''mig-'' = ''mig-''"
  by code_simp+

text \<open>Every participant that names the same card by its bare identifier or with the
  \<open>GPU-\<close> or \<open>MIG-\<close> prefix, in any of these spellings, derives the same key, hence the same
  lock file.\<close>

lemma spellings_share_a_lock:
  assumes "strip h = h" and "h \<noteq> []" and "\<not> gpu_prefixed h"
    and "pre \<in> {''GPU-'', ''gpu-'', ''Gpu-'', ''MIG-'', ''mig-''}"
  shows "normalize_gpu_uuid (pre @ h) = Inr (lower h) \<and> normalize_gpu_uuid h = Inr (lower h)
       \<and> map_sum id lock_filename (normalize_gpu_uuid (pre @ h))
           = map_sum id lock_filename (normalize_gpu_uuid h)"
proof -
  have "pre = hd pre # tl pre" "\<not> is_space (hd pre)"
    using assms(4) by (auto simp: is_space_def code_pt_def)
  then have "strip (pre @ h) = pre @ h"
    using strip_prepend [OF assms(1,2), of "hd pre" "tl pre"] by metis
  moreover have "drop_gpu_prefix (pre @ h) = h"
    using assms(4) lower_prefixes by (auto simp: drop_gpu_prefix_def gpu_prefixed_def)
  ultimately have "normalize_gpu_uuid (pre @ h) = Inr (lower h)"
    using assms(1,2) by (simp add: normalize_gpu_uuid_def lower_def)
  moreover have "normalize_gpu_uuid h = Inr (lower h)"
    using assms by (simp add: normalize_gpu_uuid_def drop_gpu_prefix_def lower_def)
  ultimately show ?thesis by simp
qed

lemma spellings_share_a_lock_witness:
  "normalize_gpu_uuid (''GPU-'' @ ''1b2c'') = Inr (lower ''1b2c'')"
proof -
  have "strip ''1b2c'' = ''1b2c''" "\<not> gpu_prefixed ''1b2c''" by code_simp+
  then show ?thesis using spellings_share_a_lock [of "''1b2c''" "''GPU-''"] by simp
qed

lemma sub_unsafe_chars: "c \<in> set (sub_unsafe r key) \<Longrightarrow> key_char c"
  by (induction r key rule: sub_unsafe.induct)
    (auto simp: key_char_def split: if_splits)

lemma lock_filename_component: "CHR ''/'' \<notin> set (lock_filename key)"
proof -
  have "\<not> key_char (CHR ''/'')"
    by (simp add: key_char_def is_alnum_def is_digit_def code_pt_def)
  then have "CHR ''/'' \<notin> set (sub_unsafe False key)"
    using sub_unsafe_chars by blast
  then show ?thesis by (simp add: lock_filename_def)
qed

lemma sub_unsafe_safe: "list_all key_char key \<Longrightarrow> sub_unsafe r key = key"
  by (induction key arbitrary: r) auto

lemma lock_filename_ends [simp]: "ends_with (lock_filename key) ''.lock''"
  by (simp add: lock_filename_def ends_with_iff)

end
