(* ===== verification/Ledger.thy ===== *)
theory Ledger
  imports Store Cgroups Gpuid
begin

text \<open>
  \<open>src/gpuqueue/ledger.py\<close>: the claim ledger.  One file per holder under
  \<open><key>.lock.d/\<close>, a legacy file \<open><key>.lock.json\<close> read as an exclusive holder, and the
  admission rule \<open>fits\<close> that \<open>acquire\<close> applies under the mutex.  A record's file holds a
  JSON value (\<open>JsonDoc\<close>) or something that does not parse; \<open>owner\<close>, \<open>cmd\<close>,
  \<open>started_at\<close>, \<open>key\<close> and \<open>scope_cgroup\<close> are read without a check and stay Python values.
  The text of \<open>busy_message\<close> is not modelled: a refusal is its exception class.
\<close>

record ledger_record =
  lr_path :: path
  lr_pid :: int
  lr_usage_pid :: "int option"
  lr_vram_mb :: "mib option"
  lr_owner :: pyval
  lr_cmd :: "pyval list"
  lr_started_at :: pyval
  lr_key :: pyval
  lr_scope_pid :: "int option"
  lr_scope_cgroup :: pyval

datatype claim_file = JsonDoc pyval | NotJson

type_synonym claims = "claim_file files"

definition record_dict :: "ledger_record \<Rightarrow> pydict" where
  "record_dict r =
    [(''pid'', PInt (lr_pid r)), (''usage_pid'', of_int_opt (lr_usage_pid r)),
     (''vram_mb'', of_int_opt (lr_vram_mb r)), (''owner'', lr_owner r),
     (''cmd'', PList (lr_cmd r)), (''started_at'', lr_started_at r), (''key'', lr_key r),
     (''scope_pid'', of_int_opt (lr_scope_pid r)), (''scope_cgroup'', lr_scope_cgroup r)]"

definition mutex_path :: "string \<Rightarrow> path \<Rightarrow> path" where
  "mutex_path key d = d @ [lock_filename key]"

definition ledger_dir :: "string \<Rightarrow> path \<Rightarrow> path" where
  "ledger_dir key d = d @ [lock_filename key @ ''.d'']"

definition legacy_path :: "string \<Rightarrow> path \<Rightarrow> path" where
  "legacy_path key d = d @ [lock_filename key @ ''.json'']"

section \<open>Reading records\<close>

text \<open>\<open>int(d[k]) if d.get(k) is not None else None\<close>; the outer \<open>None\<close> is an exception.\<close>

definition opt_int :: "string \<Rightarrow> pydict \<Rightarrow> int option option" where
  "opt_int k d = (if dict_get k d = PNone then Some None
     else map_option Some (py_int (dict_get k d)))"

text \<open>\<open>list(v or [])\<close>; \<open>None\<close> is the TypeError of a value that cannot be iterated.\<close>

definition list_or_empty :: "pyval \<Rightarrow> pyval list option" where
  "list_or_empty v = (if \<not> truthy v then Some [] else (case v of
       PList xs \<Rightarrow> Some xs | PStr s \<Rightarrow> Some (map (\<lambda>c. PStr [c]) s)
     | PDict d \<Rightarrow> Some (map (\<lambda>kv. PStr (fst kv)) d) | _ \<Rightarrow> None))"

definition load :: "path \<Rightarrow> claims \<Rightarrow> ledger_record option" where
  "load p fs = (case read_file fs p of
      Some (JsonDoc (PDict d)) \<Rightarrow>
        Option.bind (Option.bind (map_of d ''pid'') py_int) (\<lambda>pid.
        Option.bind (opt_int ''usage_pid'' d) (\<lambda>usage_pid.
        Option.bind (opt_int ''vram_mb'' d) (\<lambda>vram_mb.
        Option.bind (list_or_empty (dict_get ''cmd'' d)) (\<lambda>cmd.
        Option.bind (opt_int ''scope_pid'' d) (\<lambda>scope_pid.
          Some \<lparr>lr_path = p, lr_pid = pid, lr_usage_pid = usage_pid, lr_vram_mb = vram_mb,
                lr_owner = dict_get_or ''owner'' (PStr ''?'') d, lr_cmd = cmd,
                lr_started_at = dict_get_or ''started_at'' (PStr []) d,
                lr_key = dict_get_or ''key'' (PStr []) d,
                lr_scope_pid = scope_pid, lr_scope_cgroup = dict_get ''scope_cgroup'' d\<rparr>)))))
    | _ \<Rightarrow> None)"

definition load_legacy :: "path \<Rightarrow> claims \<Rightarrow> ledger_record option" where
  "load_legacy p fs = map_option (\<lambda>r. r\<lparr>lr_vram_mb := None,
       lr_usage_pid := (case lr_usage_pid r of None \<Rightarrow> Some (lr_pid r) | Some u \<Rightarrow> Some u)\<rparr>) (load p fs)"

definition records_in :: "path \<Rightarrow> claims \<Rightarrow> ledger_record list" where
  "records_in ldir fs =
     List.map_filter (\<lambda>n. load (ldir @ [n]) fs) (glob_names ldir ''.json'' fs)"

definition records_for :: "string \<Rightarrow> path \<Rightarrow> claims \<Rightarrow> ledger_record list" where
  "records_for key d fs = records_in (ledger_dir key d) fs
     @ (case load_legacy (legacy_path key d) fs of None \<Rightarrow> [] | Some r \<Rightarrow> [r])"

definition all_records :: "path \<Rightarrow> claims \<Rightarrow> ledger_record list" where
  "all_records d fs =
     concat (map (\<lambda>n. records_in (d @ [n]) fs) (glob_dirs d ''.lock.d'' fs))
     @ List.map_filter (\<lambda>n. load_legacy (d @ [n]) fs) (glob_names d ''.lock.json'' fs)"

definition live_records :: "snapshot \<Rightarrow> ledger_record list \<Rightarrow> ledger_record list" where
  "live_records os rs = filter (\<lambda>r. pid_alive os (lr_pid r)) rs"

section \<open>Writing records\<close>

definition write_record :: "ledger_record \<Rightarrow> claims \<Rightarrow> claims" where
  "write_record r fs = publish (lr_path r) (JsonDoc (PDict (record_dict r))) fs"

definition set_usage_pid :: "ledger_record \<Rightarrow> int option \<Rightarrow> claims \<Rightarrow> ledger_record \<times> claims" where
  "set_usage_pid r p fs = (let r' = r\<lparr>lr_usage_pid := p\<rparr> in (r', write_record r' fs))"

definition remove_record :: "ledger_record \<Rightarrow> claims \<Rightarrow> claims" where
  "remove_record r fs = remove_file (lr_path r) fs"

definition scope_is_live :: "snapshot \<Rightarrow> ledger_record \<Rightarrow> bool" where
  "scope_is_live os r = (case lr_scope_pid r of
      None \<Rightarrow> False
    | Some p \<Rightarrow> if lr_scope_cgroup r = PNone then False
        else if \<not> pid_alive os p then False
        else of_str_opt (cgroup_of os p) = lr_scope_cgroup r)"

section \<open>Admission\<close>

definition exceeds_capacity :: "pyval \<Rightarrow> mib option \<Rightarrow> bool" where
  "exceeds_capacity want usable =
    (if \<not> is_int want \<or> is_bool want then False
     else (case usable of None \<Rightarrow> False | Some u \<Rightarrow> int_value want > u))"

definition declared :: "ledger_record list \<Rightarrow> mib" where
  "declared rs = sum_list (map (\<lambda>r. case lr_vram_mb r of None \<Rightarrow> 0 | Some v \<Rightarrow> v) rs)"

definition at_limit :: "ledger_record list \<Rightarrow> int option \<Rightarrow> bool" where
  "at_limit rs max_holders = (case max_holders of None \<Rightarrow> False | Some m \<Rightarrow> int (length rs) \<ge> m)"

definition some_exclusive :: "ledger_record list \<Rightarrow> bool" where
  "some_exclusive rs = list_ex (\<lambda>r. lr_vram_mb r = None) rs"

definition fits :: "ledger_record list \<Rightarrow> mib option \<Rightarrow> mib option \<Rightarrow> int option \<Rightarrow> bool" where
  "fits rs want usable max_holders =
    (if at_limit rs max_holders then False
     else if some_exclusive rs then False
     else (case (want, usable) of
         (Some w, Some u) \<Rightarrow> if w > u then False else declared rs + w \<le> u
       | _ \<Rightarrow> rs = []))"

definition free_mb :: "ledger_record list \<Rightarrow> mib option \<Rightarrow> mib" where
  "free_mb rs usable = (case usable of None \<Rightarrow> 0
     | Some u \<Rightarrow> if some_exclusive rs then 0 else max 0 (u - declared rs))"

definition card_is_closed :: "ledger_record list \<Rightarrow> mib option \<Rightarrow> int option \<Rightarrow> bool" where
  "card_is_closed rs usable max_holders =
    (if at_limit rs max_holders then True
     else if rs = [] then False
     else if usable = None \<or> some_exclusive rs then True
     else free_mb rs usable \<le> 0)"

lemmas admission_defs [ledger_defs] =
  fits_def free_mb_def card_is_closed_def at_limit_def some_exclusive_def exceeds_capacity_def

section \<open>The mutex\<close>

text \<open>
  One try is what \<open>flock\<close> answered and what the clock read when it had refused.  \<open>None\<close>:
  the tries listed do not decide.
\<close>

datatype flock_answer = Granted | WouldBlock | FlockError errno

datatype mutex_result = Locked | TimedOut | MutexRaised errno

definition MUTEX_WAIT_S :: time where
  "MUTEX_WAIT_S = 10"

definition MUTEX_POLL_S :: time where
  "MUTEX_POLL_S = 1 / 20"

fun take_mutex :: "time \<Rightarrow> (flock_answer \<times> time) list \<Rightarrow> mutex_result option" where
  "take_mutex deadline [] = None"
| "take_mutex deadline ((Granted, now) # tries) = Some Locked"
| "take_mutex deadline ((FlockError e, now) # tries) = Some (MutexRaised e)"
| "take_mutex deadline ((WouldBlock, now) # tries) =
     (if now \<ge> deadline then Some TimedOut else take_mutex deadline tries)"

datatype claim_refusal = Busy | CardClosed | MutexTimeout | CannotEverFit | OSRaised errno

text \<open>
  \<open>acquire\<close>: \<open>token\<close> is \<open>secrets.token_hex(3)\<close>, \<open>now\<close> is \<open>utcnow_iso()\<close>, \<open>m\<close> the outcome of
  \<open>_take_mutex\<close>; the caller's pid is the snapshot's own.
\<close>

definition acquire :: "snapshot \<Rightarrow> mutex_result \<Rightarrow> string \<Rightarrow> string \<Rightarrow> string \<Rightarrow> mib option \<Rightarrow> pyval
    \<Rightarrow> pyval list \<Rightarrow> path \<Rightarrow> mib option \<Rightarrow> int option \<Rightarrow> int option \<Rightarrow> int option \<Rightarrow> pyval
    \<Rightarrow> claims \<Rightarrow> (claim_refusal + ledger_record) \<times> claims" where
  "acquire os m token now key vram_mb owner cmd d usable usage_pid max_holders scope_pid scope_cgroup fs =
    (case m of TimedOut \<Rightarrow> (Inl MutexTimeout, fs)
     | MutexRaised e \<Rightarrow> (Inl (OSRaised e), fs)
     | Locked \<Rightarrow>
       (let live = live_records os (records_for key d fs) in
        if \<not> fits live vram_mb usable max_holders
        then (Inl (if card_is_closed live usable max_holders then CardClosed else Busy), fs)
        else (let r = \<lparr>lr_path = ledger_dir key d @
                          [show_int (own_pid os) @ ''.'' @ token @ ''.json''],
                       lr_pid = own_pid os, lr_usage_pid = usage_pid, lr_vram_mb = vram_mb,
                       lr_owner = owner, lr_cmd = cmd, lr_started_at = PStr now,
                       lr_key = PStr key, lr_scope_pid = scope_pid,
                       lr_scope_cgroup = scope_cgroup\<rparr>
              in (Inr r, write_record r fs))))"

section \<open>Who owns a CUDA process\<close>

record app =
  app_pid :: pid
  app_used_mb :: "mib option"
  app_name :: string

fun scope_string :: "pyval \<Rightarrow> string" where
  "scope_string (PStr s) = s"
| "scope_string _ = []"

text \<open>Dictionaries in Python's order: a repeated key keeps its place and takes the new value.\<close>

definition trees_of :: "snapshot \<Rightarrow> ledger_record list \<Rightarrow> (path \<times> pid set) list" where
  "trees_of os rs = fold (\<lambda>r d. case lr_usage_pid r of None \<Rightarrow> d
     | Some u \<Rightarrow> AList.update (lr_path r) (insert u (descendants os u)) d) rs []"

definition scopes_of :: "snapshot \<Rightarrow> ledger_record list \<Rightarrow> (path \<times> string) list" where
  "scopes_of os rs = fold (\<lambda>r d. if scope_is_live os r
     then AList.update (lr_path r) (scope_string (lr_scope_cgroup r)) d else d) rs []"

definition owner_of :: "snapshot \<Rightarrow> pid \<Rightarrow> (path \<times> pid set) list \<Rightarrow> (path \<times> string) list \<Rightarrow> path option" where
  "owner_of os p trees scopes =
    (case find (\<lambda>(k, tree). p \<in> tree) trees of Some (k, _) \<Rightarrow> Some k
     | None \<Rightarrow> (case find (\<lambda>(k, scope). in_scope os p scope) scopes of Some (k, _) \<Rightarrow> Some k
               | None \<Rightarrow> None))"

definition charge :: "path \<Rightarrow> app \<Rightarrow> (path \<times> app list) list \<Rightarrow> (path \<times> app list) list" where
  "charge k a owned = AList.update k ((case map_of owned k of None \<Rightarrow> [] | Some l \<Rightarrow> l) @ [a]) owned"

definition attribute :: "snapshot \<Rightarrow> app list \<Rightarrow> ledger_record list
    \<Rightarrow> (path \<times> app list) list \<times> app list" where
  "attribute os apps rs =
    (let trees = trees_of os rs; scopes = scopes_of os rs in
     fold (\<lambda>a (owned, unledgered).
       (case owner_of os (app_pid a) trees scopes of
          None \<Rightarrow> (owned, unledgered @ [a])
        | Some k \<Rightarrow> (charge k a owned, unledgered))) apps ([], []))"

definition used_mb :: "app list \<Rightarrow> mib" where
  "used_mb apps = sum_list (map (\<lambda>a. case app_used_mb a of None \<Rightarrow> 0 | Some v \<Rightarrow> v) apps)"

end
