(* ===== verification/Config.thy ===== *)
theory Config
  imports Ledger
begin

text \<open>
  \<open>src/gpuqueue/config.py\<close>: the runner's configuration and the readers a participant
  without one uses.  \<open>tomllib\<close> is the standard library's: a configuration file is absent,
  not TOML, or a table.
\<close>

datatype config_file = NoFile | NotToml | Toml pydict

datatype config_error = ConfigNotFound | RootRequired | TooFewSlots | TooFewJobs | NegativeReserve
  | ReserveSwallowsCard int int | CheckoutRequired string | RemoteRequired string
  | ResultsGoTogether string | AutofixRepoRequired | NotOwnerName pyval | NotABool string
  | OtherException

text \<open>\<open>OtherException\<close> is what \<open>int\<close>, \<open>float\<close>, \<open>Path\<close>, \<open>tomllib\<close> or a method that is not
  there raises.\<close>

definition DEFAULT_RESERVE_MB :: mib where
  "DEFAULT_RESERVE_MB = 512"

definition DEFAULT_MAX_HOLDERS :: int where
  "DEFAULT_MAX_HOLDERS = 2"

text \<open>\<open>Path(v)\<close> and its parts; only a string makes a path.\<close>

definition path_parts :: "string \<Rightarrow> path" where
  "path_parts s = (if starts_with s ''/'' then [''/''] else [])
     @ filter (\<lambda>c. c \<noteq> [] \<and> c \<noteq> ''.'') (split_on CHR ''/'' s)"

text \<open>\<open>str(path)\<close>.\<close>

definition path_text :: "path \<Rightarrow> string" where
  "path_text p = (case p of [] \<Rightarrow> ''.''
     | c # cs \<Rightarrow> if c = ''/'' then CHR ''/'' # join ''/'' cs else join ''/'' p)"

fun as_path :: "pyval \<Rightarrow> path option" where
  "as_path (PStr s) = Some (path_parts s)"
| "as_path _ = None"

text \<open>\<open>Path(v) if v else None\<close>.\<close>

definition optional_path :: "pyval \<Rightarrow> path option option" where
  "optional_path v = (if truthy v then map_option Some (as_path v) else Some None)"

text \<open>\<open>data.get(k) or {}\<close>, used with \<open>.get\<close> and \<open>.items\<close> afterwards.\<close>

definition table :: "string \<Rightarrow> pydict \<Rightarrow> pydict option" where
  "table k d = (if truthy (dict_get k d)
     then (case dict_get k d of PDict t \<Rightarrow> Some t | _ \<Rightarrow> None) else Some [])"

record project_config =
  pc_name :: string
  pc_remote :: pyval
  pc_checkout :: path
  pc_venv :: "path option"
  pc_commit_artifacts :: bool
  pc_push :: bool
  pc_results_remote :: pyval
  pc_results_checkout :: "path option"
  pc_results_branch :: pyval

record autofix_config =
  ac_enabled :: bool
  ac_repo :: pyval
  ac_token_env :: pyval
  ac_max_dispatches_per_day :: int
  ac_closed_lookback_days :: int
  ac_state_file :: path
  ac_report_cooldown_s :: pyfloat

record runner_config =
  rc_queue_root :: path
  rc_cpu_slots :: int
  rc_gpu_vram_mb :: "mib option"
  rc_gpu_vram_reserve_mb :: mib
  rc_gpu_max_jobs :: int
  rc_enforce_vram :: bool
  rc_poll_interval_s :: pyfloat
  rc_claim_dir :: "path option"
  rc_kill_orphan_cuda :: bool
  rc_orphan_cuda_interval_s :: pyfloat
  rc_projects :: "(string \<times> project_config) list"
  rc_autofix :: autofix_config

section \<open>The readers\<close>

definition TRUE_WORDS :: "string list" where
  "TRUE_WORDS = [''true'', ''yes'', ''on'', ''1'']"

definition FALSE_WORDS :: "string list" where
  "FALSE_WORDS = [''false'', ''no'', ''off'', ''0'']"

definition as_bool :: "pyval \<Rightarrow> string \<Rightarrow> bool \<Rightarrow> config_error + bool" where
  "as_bool v key dflt = (case v of
      PNone \<Rightarrow> Inr dflt
    | PBool b \<Rightarrow> Inr b
    | PInt i \<Rightarrow> if i = 0 \<or> i = 1 then Inr (i \<noteq> 0) else Inl (NotABool key)
    | PStr s \<Rightarrow> (let w = lower (strip s) in
        if w \<in> set TRUE_WORDS then Inr True
        else if w \<in> set FALSE_WORDS then Inr False else Inl (NotABool key))
    | _ \<Rightarrow> Inl (NotABool key))"

definition vram_policy :: "config_file \<Rightarrow> mib option \<times> mib" where
  "vram_policy c = (case c of Toml data \<Rightarrow>
       (case Option.bind (table ''queue'' data) (\<lambda>q.
          Option.bind (opt_int ''gpu_vram_mb'' q) (\<lambda>card_mb.
          Option.bind (py_int (dict_get_or ''gpu_vram_reserve_mb'' (PInt DEFAULT_RESERVE_MB) q)) (\<lambda>reserve.
            Some (card_mb, reserve)))) of
          None \<Rightarrow> (None, DEFAULT_RESERVE_MB)
        | Some (card_mb, reserve) \<Rightarrow>
            if reserve < 0 \<or> (case card_mb of None \<Rightarrow> False | Some t \<Rightarrow> reserve \<ge> t)
            then (card_mb, DEFAULT_RESERVE_MB) else (card_mb, reserve))
     | _ \<Rightarrow> (None, DEFAULT_RESERVE_MB))"

definition max_holders :: "config_file \<Rightarrow> int" where
  "max_holders c = (case c of Toml data \<Rightarrow>
       (case Option.bind (table ''queue'' data) (\<lambda>q.
          py_int (dict_get_or ''gpu_max_jobs'' (PInt DEFAULT_MAX_HOLDERS) q)) of
          None \<Rightarrow> DEFAULT_MAX_HOLDERS
        | Some n \<Rightarrow> if n \<ge> 1 then n else DEFAULT_MAX_HOLDERS)
     | _ \<Rightarrow> DEFAULT_MAX_HOLDERS)"

text \<open>\<open>Path(value)\<close> is outside the \<open>try\<close>: the outer \<open>None\<close> is its TypeError.\<close>

definition claim_dir_setting :: "config_file \<Rightarrow> path option option" where
  "claim_dir_setting c = (case c of Toml data \<Rightarrow>
       (case table ''queue'' data of None \<Rightarrow> Some None
        | Some q \<Rightarrow> optional_path (dict_get ''claim_dir'' q))
     | _ \<Rightarrow> Some None)"

section \<open>Loading the whole configuration\<close>

definition load_project :: "string \<Rightarrow> pyval \<Rightarrow> config_error + project_config" where
  "load_project name v = (case v of PDict p \<Rightarrow>
      bind_result (check (CheckoutRequired name) (truthy (dict_get ''checkout'' p))) (\<lambda>_.
      bind_result (check (RemoteRequired name) (truthy (dict_get ''remote'' p))) (\<lambda>_.
      let r_remote = dict_get ''results_remote'' p; r_checkout = dict_get ''results_checkout'' p in
      bind_result (check (ResultsGoTogether name) (truthy r_remote = truthy r_checkout)) (\<lambda>_.
      bind_result (may_raise OtherException (as_path (dict_get ''checkout'' p))) (\<lambda>checkout.
      bind_result (may_raise OtherException (optional_path (dict_get ''venv'' p))) (\<lambda>venv.
      bind_result (may_raise OtherException (optional_path r_checkout)) (\<lambda>results_checkout.
        Inr \<lparr>pc_name = name, pc_remote = dict_get ''remote'' p, pc_checkout = checkout, pc_venv = venv,
             pc_commit_artifacts = truthy (dict_get ''commit_artifacts'' p),
             pc_push = truthy (dict_get ''push'' p), pc_results_remote = r_remote,
             pc_results_checkout = results_checkout,
             pc_results_branch = dict_get_or ''results_branch'' (PStr ''main'') p\<rparr>))))))
    | _ \<Rightarrow> Inl OtherException)"

fun load_projects :: "pydict \<Rightarrow> config_error + (string \<times> project_config) list" where
  "load_projects [] = Inr []"
| "load_projects ((name, v) # ps) =
     bind_result (load_project name v) (\<lambda>p.
     bind_result (load_projects ps) (\<lambda>rest. Inr ((name, p) # rest)))"

text \<open>\<open>repo.count("/") != 1 or repo.startswith(("http", "git@"))\<close>: a list has \<open>count\<close> but not
  \<open>startswith\<close>, anything else that is not a string has neither.\<close>

definition owner_name :: "pyval \<Rightarrow> config_error + unit" where
  "owner_name repo = (case repo of
      PStr s \<Rightarrow> check (NotOwnerName repo)
        (length (filter (\<lambda>c. c = CHR ''/'') s) = 1
         \<and> \<not> starts_with s ''http'' \<and> \<not> starts_with s ''git@'')
    | PList xs \<Rightarrow> if length (filter (\<lambda>v. v = PStr ''/'') xs) \<noteq> 1 then Inl (NotOwnerName repo)
        else Inl OtherException
    | _ \<Rightarrow> Inl OtherException)"

definition load_autofix :: "pyval \<Rightarrow> pydict \<Rightarrow> config_error + autofix_config" where
  "load_autofix root_dir a =
    (let repo = dict_get ''repo'' a; enabled = truthy (dict_get ''enabled'' a) in
     bind_result (check AutofixRepoRequired (\<not> enabled \<or> truthy repo)) (\<lambda>_.
     bind_result (if truthy repo then owner_name repo else Inr ()) (\<lambda>_.
     bind_result (may_raise OtherException
       (py_int (dict_get_or ''max_dispatches_per_day'' (PInt 3) a))) (\<lambda>max_dispatches.
     bind_result (may_raise OtherException
       (py_int (dict_get_or ''closed_lookback_days'' (PInt 30) a))) (\<lambda>lookback.
     bind_result (may_raise OtherException
       (if truthy (dict_get ''state_file'' a) then as_path (dict_get ''state_file'' a)
        else map_option (\<lambda>r. r @ [''autofix.json'']) (as_path root_dir))) (\<lambda>state_file.
     bind_result (may_raise OtherException
       (py_float (dict_get_or ''report_cooldown_s'' (PFloat (Finite 900)) a))) (\<lambda>cooldown.
       Inr \<lparr>ac_enabled = enabled, ac_repo = repo,
            ac_token_env = dict_get_or ''token_env'' (PStr ''GPUQ_GITHUB_TOKEN'') a,
            ac_max_dispatches_per_day = max_dispatches, ac_closed_lookback_days = lookback,
            ac_state_file = state_file, ac_report_cooldown_s = cooldown\<rparr>)))))))"

definition load_config :: "config_file \<Rightarrow> config_error + runner_config" where
  "load_config c = (case c of NoFile \<Rightarrow> Inl ConfigNotFound | NotToml \<Rightarrow> Inl OtherException
   | Toml data \<Rightarrow>
      bind_result (may_raise OtherException (table ''queue'' data)) (\<lambda>q.
      let root_dir = dict_get ''root'' q in
      bind_result (check RootRequired (truthy root_dir)) (\<lambda>_.
      bind_result (may_raise OtherException (py_int (dict_get_or ''cpu_slots'' (PInt 4) q))) (\<lambda>cpu_slots.
      bind_result (check TooFewSlots (cpu_slots \<ge> 1)) (\<lambda>_.
      bind_result (may_raise OtherException (opt_int ''gpu_vram_mb'' q)) (\<lambda>card_mb.
      bind_result (may_raise OtherException
        (py_int (dict_get_or ''gpu_vram_reserve_mb'' (PInt DEFAULT_RESERVE_MB) q))) (\<lambda>reserve.
      bind_result (may_raise OtherException
        (py_int (dict_get_or ''gpu_max_jobs'' (PInt DEFAULT_MAX_HOLDERS) q))) (\<lambda>max_jobs.
      bind_result (check TooFewJobs (max_jobs \<ge> 1)) (\<lambda>_.
      bind_result (check NegativeReserve (reserve \<ge> 0)) (\<lambda>_.
      bind_result (case card_mb of None \<Rightarrow> Inr ()
        | Some t \<Rightarrow> check (ReserveSwallowsCard reserve t) (reserve < t)) (\<lambda>_.
      bind_result (may_raise OtherException (table ''project'' data)) (\<lambda>ps.
      bind_result (load_projects ps) (\<lambda>projects.
      bind_result (may_raise OtherException (table ''autofix'' data)) (\<lambda>a.
      bind_result (load_autofix root_dir a) (\<lambda>autofix.
      bind_result (may_raise OtherException (as_path root_dir)) (\<lambda>queue_root.
      bind_result (as_bool (dict_get ''enforce_vram'' q) ''[queue].enforce_vram'' True) (\<lambda>enforce.
      bind_result (may_raise OtherException
        (py_float (dict_get_or ''poll_interval_s'' (PFloat (Finite 2)) q))) (\<lambda>poll.
      bind_result (may_raise OtherException (optional_path (dict_get ''claim_dir'' q))) (\<lambda>claim_dir.
      bind_result (as_bool (dict_get ''kill_orphan_cuda'' q) ''[queue].kill_orphan_cuda'' True) (\<lambda>kill_orphan.
      bind_result (may_raise OtherException
        (py_float (dict_get_or ''orphan_cuda_interval_s'' (PFloat (Finite 60)) q))) (\<lambda>interval.
        Inr \<lparr>rc_queue_root = queue_root, rc_cpu_slots = cpu_slots, rc_gpu_vram_mb = card_mb,
             rc_gpu_vram_reserve_mb = reserve, rc_gpu_max_jobs = max_jobs, rc_enforce_vram = enforce,
             rc_poll_interval_s = poll, rc_claim_dir = claim_dir, rc_kill_orphan_cuda = kill_orphan,
             rc_orphan_cuda_interval_s = interval, rc_projects = projects,
             rc_autofix = autofix\<rparr>)))))))))))))))))))))"

section \<open>What a loaded configuration guarantees\<close>

text \<open>What a project of the configuration has from its table in the file.\<close>

definition project_of :: "string \<times> pyval \<Rightarrow> string \<times> project_config \<Rightarrow> bool" where
  "project_of = (\<lambda>(n, v) (m, p). m = n \<and> pc_name p = n \<and> (\<exists>d. v = PDict d
     \<and> truthy (dict_get ''checkout'' d) \<and> as_path (dict_get ''checkout'' d) = Some (pc_checkout p)
     \<and> truthy (dict_get ''remote'' d) \<and> pc_remote p = dict_get ''remote'' d
     \<and> pc_results_remote p = dict_get ''results_remote'' d
     \<and> (truthy (pc_results_remote p) \<longleftrightarrow> pc_results_checkout p \<noteq> None)))"

lemma load_project_sound:
  "load_project name v = Inr p \<Longrightarrow> project_of (name, v) (name, p)"
  by (auto simp: project_of_def load_project_def Let_def result_Inr optional_path_def split: pyval.splits if_splits)

lemma load_projects_sound: "load_projects ps = Inr projects \<Longrightarrow> list_all2 project_of ps projects"
proof (induction ps arbitrary: projects)
  case (Cons kv ps)
  obtain n v where "kv = (n, v)" by (cases kv)
  with Cons.prems obtain p rest where
    p: "load_project n v = Inr p" "load_projects ps = Inr rest" "projects = (n, p) # rest"
    by (auto simp: result_Inr)
  with Cons.IH [OF p(2)] load_project_sound [OF p(1)] show ?case by (simp add: \<open>kv = (n, v)\<close>)
qed simp

text \<open>A filing target: owner/name, not the address of a repository.\<close>

definition filing_target :: "pyval \<Rightarrow> bool" where
  "filing_target repo = (case repo of
      PStr s \<Rightarrow> length (filter (\<lambda>c. c = CHR ''/'') s) = 1 \<and> \<not> starts_with s ''http'' \<and> \<not> starts_with s ''git@''
    | _ \<Rightarrow> False)"

lemma load_autofix_sound:
  assumes "load_autofix root_dir a = Inr af"
  shows "ac_enabled af \<longrightarrow> truthy (ac_repo af)"
    and "truthy (ac_repo af) \<longrightarrow> filing_target (ac_repo af)"
  using assms
  by (auto simp: load_autofix_def Let_def result_Inr owner_name_def filing_target_def split: if_splits pyval.splits)

text \<open>What the checks on the queue table and the autofix table come to.\<close>

definition well_configured :: "runner_config \<Rightarrow> bool" where
  "well_configured cfg \<longleftrightarrow> rc_cpu_slots cfg \<ge> 1 \<and> rc_gpu_max_jobs cfg \<ge> 1
     \<and> rc_gpu_vram_reserve_mb cfg \<ge> 0
     \<and> (case rc_gpu_vram_mb cfg of None \<Rightarrow> True | Some t \<Rightarrow> rc_gpu_vram_reserve_mb cfg < t)
     \<and> (ac_enabled (rc_autofix cfg) \<longrightarrow> truthy (ac_repo (rc_autofix cfg)))
     \<and> (truthy (ac_repo (rc_autofix cfg)) \<longrightarrow> filing_target (ac_repo (rc_autofix cfg)))"

lemma load_config_parts:
  assumes "load_config c = Inr cfg"
  obtains data q ps a root_dir where "c = Toml data" "table ''queue'' data = Some q"
    "rc_cpu_slots cfg \<ge> 1" "rc_gpu_max_jobs cfg \<ge> 1" "rc_gpu_vram_reserve_mb cfg \<ge> 0"
    "opt_int ''gpu_vram_mb'' q = Some (rc_gpu_vram_mb cfg)"
    "py_int (dict_get_or ''gpu_vram_reserve_mb'' (PInt DEFAULT_RESERVE_MB) q) = Some (rc_gpu_vram_reserve_mb cfg)"
    "py_int (dict_get_or ''gpu_max_jobs'' (PInt DEFAULT_MAX_HOLDERS) q) = Some (rc_gpu_max_jobs cfg)"
    "case rc_gpu_vram_mb cfg of None \<Rightarrow> True | Some t \<Rightarrow> rc_gpu_vram_reserve_mb cfg < t"
    "optional_path (dict_get ''claim_dir'' q) = Some (rc_claim_dir cfg)"
    "truthy (dict_get ''root'' q)" "as_path (dict_get ''root'' q) = Some (rc_queue_root cfg)"
    "table ''project'' data = Some ps"
    "load_projects ps = Inr (rc_projects cfg)" "load_autofix root_dir a = Inr (rc_autofix cfg)"
proof (cases c)
  case (Toml data)
  note eq = assms [unfolded load_config_def Toml config_file.case Let_def result_Inr sum.inject]
  from eq show thesis
    apply (elim exE conjE)
    apply hypsubst
    apply (rule that [OF Toml], assumption)
              apply (simp_all add: check_def split: option.splits if_splits)
    done
qed (use assms in \<open>simp_all add: load_config_def\<close>)

text \<open>C35: a configuration that loads is a TOML file whose queue table has a root, which is where
  the queue is; it has at least one CPU slot and one GPU job and a reserve that is not negative and
  smaller than a declared card; its projects are those of the file, in order, each with the
  checkout and the remote its table has (neither is empty), and with a results remote and a
  results checkout together or not at all; and a filing target, which must be there when filing is
  on, has exactly one slash and is not the address of a repository (\<open>http\<close>, \<open>git@\<close>).\<close>

theorem load_config_well_configured:
  assumes "load_config c = Inr cfg"
  shows "well_configured cfg \<and> (\<exists>data q ps. c = Toml data \<and> table ''queue'' data = Some q
     \<and> truthy (dict_get ''root'' q) \<and> as_path (dict_get ''root'' q) = Some (rc_queue_root cfg)
     \<and> table ''project'' data = Some ps \<and> list_all2 project_of ps (rc_projects cfg))"
  using assms
proof (rule load_config_parts)
  fix data q ps a rt
  assume toml: "c = Toml data" "table ''queue'' data = Some q" "truthy (dict_get ''root'' q)"
    "as_path (dict_get ''root'' q) = Some (rc_queue_root cfg)" "table ''project'' data = Some ps"
    and projects: "load_projects ps = Inr (rc_projects cfg)"
    and autofix: "load_autofix rt a = Inr (rc_autofix cfg)"
    and nums: "rc_cpu_slots cfg \<ge> 1" "rc_gpu_max_jobs cfg \<ge> 1" "rc_gpu_vram_reserve_mb cfg \<ge> 0"
    "case rc_gpu_vram_mb cfg of None \<Rightarrow> True | Some t \<Rightarrow> rc_gpu_vram_reserve_mb cfg < t"
  have "well_configured cfg"
    using nums load_autofix_sound [OF autofix] by (simp add: well_configured_def)
  with toml load_projects_sound [OF projects] show ?thesis by blast
qed

text \<open>Where the runner's configuration loads, a hand-run claim that reads the same file
  through \<open>vram_policy\<close>, \<open>max_holders\<close> and \<open>claim_dir_setting\<close> gets the runner's card size,
  reserve, job limit and claim directory: the participants of a card admit against the same
  numbers.\<close>

lemma participants_agree:
  assumes "load_config c = Inr cfg"
  shows "vram_policy c = (rc_gpu_vram_mb cfg, rc_gpu_vram_reserve_mb cfg)
     \<and> max_holders c = rc_gpu_max_jobs cfg \<and> claim_dir_setting c = Some (rc_claim_dir cfg)"
  using assms
proof (rule load_config_parts)
  fix data q ps a rt
  assume "c = Toml data" "table ''queue'' data = Some q" "rc_gpu_max_jobs cfg \<ge> 1"
    "rc_gpu_vram_reserve_mb cfg \<ge> 0" "opt_int ''gpu_vram_mb'' q = Some (rc_gpu_vram_mb cfg)"
    "py_int (dict_get_or ''gpu_vram_reserve_mb'' (PInt DEFAULT_RESERVE_MB) q) = Some (rc_gpu_vram_reserve_mb cfg)"
    "py_int (dict_get_or ''gpu_max_jobs'' (PInt DEFAULT_MAX_HOLDERS) q) = Some (rc_gpu_max_jobs cfg)"
    "case rc_gpu_vram_mb cfg of None \<Rightarrow> True | Some t \<Rightarrow> rc_gpu_vram_reserve_mb cfg < t"
    "optional_path (dict_get ''claim_dir'' q) = Some (rc_claim_dir cfg)"
  then show ?thesis
    by (auto simp: vram_policy_def max_holders_def claim_dir_setting_def split: option.splits)
qed

definition example_config :: config_file where
  "example_config = Toml [(''queue'', PDict [(''root'', PStr ''/workspace/queue''),
      (''gpu_vram_mb'', PInt 8192), (''gpu_max_jobs'', PStr '' 3 ''), (''enforce_vram'', PStr ''Off''),
      (''claim_dir'', PStr ''/workspace/lock/gpu'')]),
    (''project'', PDict [(''wgan'', PDict [(''checkout'', PStr ''/workspace/wgan''),
      (''remote'', PStr ''git@host:wgan.git'')])])]"

definition example_cfg :: runner_config where
  "example_cfg = \<lparr>rc_queue_root = [''/'', ''workspace'', ''queue''], rc_cpu_slots = 4,
     rc_gpu_vram_mb = Some 8192, rc_gpu_vram_reserve_mb = 512, rc_gpu_max_jobs = 3,
     rc_enforce_vram = False, rc_poll_interval_s = Finite 2,
     rc_claim_dir = Some [''/'', ''workspace'', ''lock'', ''gpu''], rc_kill_orphan_cuda = True,
     rc_orphan_cuda_interval_s = Finite 60,
     rc_projects = [(''wgan'', \<lparr>pc_name = ''wgan'', pc_remote = PStr ''git@host:wgan.git'',
        pc_checkout = [''/'', ''workspace'', ''wgan''], pc_venv = None, pc_commit_artifacts = False,
        pc_push = False, pc_results_remote = PNone, pc_results_checkout = None,
        pc_results_branch = PStr ''main''\<rparr>)],
     rc_autofix = \<lparr>ac_enabled = False, ac_repo = PNone, ac_token_env = PStr ''GPUQ_GITHUB_TOKEN'',
        ac_max_dispatches_per_day = 3, ac_closed_lookback_days = 30,
        ac_state_file = [''/'', ''workspace'', ''queue'', ''autofix.json''],
        ac_report_cooldown_s = Finite 900\<rparr>\<rparr>"

lemma example_config_loads: "load_config example_config = Inr example_cfg"
  by code_simp

lemma load_config_well_configured_witness: "well_configured example_cfg"
  using load_config_well_configured [OF example_config_loads] by blast

lemma participants_agree_witness:
  "vram_policy example_config = (Some 8192, 512) \<and> max_holders example_config = 3"
  using participants_agree [OF example_config_loads] by (simp add: example_cfg_def)

text \<open>The readers used without a daemon never hand out a job limit below one or a negative
  reserve, whatever the file says; but \<open>claim_dir_setting\<close> raises on a file whose
  \<open>claim_dir\<close> is set and not a string, where it is documented to answer \<open>None\<close>.\<close>

lemma policy_readers_defensive:
  "1 \<le> max_holders c \<and> 0 \<le> snd (vram_policy c)
   \<and> claim_dir_setting (Toml [(''queue'', PDict [(''claim_dir'', PInt 5)])]) = None"
proof -
  have "claim_dir_setting (Toml [(''queue'', PDict [(''claim_dir'', PInt 5)])]) = None" by code_simp
  then show ?thesis
    by (auto simp: max_holders_def vram_policy_def DEFAULT_MAX_HOLDERS_def DEFAULT_RESERVE_MB_def
        split: config_file.splits option.splits)
qed

end
