(* ===== verification/LedgerShares.thy ===== *)
theory LedgerShares
  imports Ledger "HOL-Library.Multiset"
begin

text \<open>
  What the claim ledger promises about a card: the interface a card's accounting rests on
  (\<open>share_ledger\<close>, interpreted on the ledger's files), the capacity invariant over every
  participant's steps, the relation between \<open>fits\<close> and \<open>card_is_closed\<close>, what \<open>acquire\<close>
  publishes, and the bound on the wait for the mutex.
\<close>

section \<open>The files of one card as a multiset of records\<close>

lemma load_path: "load p fs = Some r \<Longrightarrow> lr_path r = p"
  by (auto simp: load_def bind_eq_Some_conv split: option.splits claim_file.splits pyval.splits)

lemma load_legacy_path: "load_legacy p fs = Some r \<Longrightarrow> lr_path r = p"
  by (auto simp: load_legacy_def dest: load_path)

lemma load_cong: "read_file fs p = read_file fs' p \<Longrightarrow> load p fs = load p fs'"
  by (simp add: load_def)

lemma load_legacy_cong: "read_file fs p = read_file fs' p \<Longrightarrow> load_legacy p fs = load_legacy p fs'"
  by (simp add: load_legacy_def load_cong [of fs p fs'])

lemma load_gone: "read_file fs p = None \<Longrightarrow> load p fs = None"
  by (simp add: load_def)

lemma opt_int_of_int_opt: "dict_get k d = of_int_opt x \<Longrightarrow> opt_int k d = Some x"
  by (cases x) (auto simp: opt_int_def)

lemma list_or_empty_PList [simp]: "list_or_empty (PList xs) = Some xs"
  by (cases xs) (auto simp: list_or_empty_def)

lemma load_record_dict:
  assumes "read_file fs p = Some (JsonDoc (PDict (record_dict r)))"
  shows "load p fs = Some (r\<lparr>lr_path := p\<rparr>)"
proof -
  have ints: "opt_int ''usage_pid'' (record_dict r) = Some (lr_usage_pid r)"
    "opt_int ''vram_mb'' (record_dict r) = Some (lr_vram_mb r)"
    "opt_int ''scope_pid'' (record_dict r) = Some (lr_scope_pid r)"
    by (rule opt_int_of_int_opt, simp add: record_dict_def)+
  have rest: "map_of (record_dict r) ''pid'' = Some (PInt (lr_pid r))"
    "dict_get ''cmd'' (record_dict r) = PList (lr_cmd r)"
    "dict_get_or ''owner'' (PStr ''?'') (record_dict r) = lr_owner r"
    "dict_get_or ''started_at'' (PStr []) (record_dict r) = lr_started_at r"
    "dict_get_or ''key'' (PStr []) (record_dict r) = lr_key r"
    "dict_get ''scope_cgroup'' (record_dict r) = lr_scope_cgroup r"
    by (simp_all add: record_dict_def)
  show ?thesis
    using assms by (simp add: load_def ints rest)
qed

lemma load_written: "load (lr_path r) (write_record r fs) = Some r"
  using load_record_dict [of "write_record r fs" "lr_path r" r]
  by (simp add: write_record_def store_laws)

definition records_at :: "path \<Rightarrow> claims \<Rightarrow> string \<Rightarrow> ledger_record multiset" where
  "records_at ldir fs n = (case load (ldir @ [n]) fs of None \<Rightarrow> {#} | Some r \<Rightarrow> {#r#})"

lemma mset_map_filter:
  "mset (List.map_filter f xs) = (\<Sum>x\<leftarrow>xs. case f x of None \<Rightarrow> {#} | Some r \<Rightarrow> {#r#})"
  by (induction xs) (auto simp: List.map_filter_def split: option.splits)

lemma mset_records_in:
  assumes "finite N" and "set (glob_names ldir ''.json'' fs) \<subseteq> N"
    and "\<And>n. n \<in> N \<Longrightarrow> ends_with n ''.json''"
  shows "mset (records_in ldir fs) = sum (records_at ldir fs) N"
proof -
  have "mset (records_in ldir fs) = sum (records_at ldir fs) (set (glob_names ldir ''.json'' fs))"
    unfolding records_in_def mset_map_filter records_at_def
    by (rule sum_list_distinct_conv_sum_set) simp
  also have "\<dots> = sum (records_at ldir fs) N"
  proof (rule sum.mono_neutral_left [OF assms(1,2)], rule ballI)
    fix n
    assume "n \<in> N - set (glob_names ldir ''.json'' fs)"
    then have "read_file fs (ldir @ [n]) = None"
      using assms(3) by (auto simp: store_laws)
    then show "records_at ldir fs n = {#}" by (simp add: records_at_def load_gone)
  qed
  finally show ?thesis .
qed

text \<open>Changing the file of one name exchanges that name's records.\<close>

lemma records_in_change:
  assumes same: "\<And>m. ends_with m ''.json'' \<Longrightarrow> m \<noteq> n \<Longrightarrow>
      read_file fs' (ldir @ [m]) = read_file fs (ldir @ [m])"
    and n: "ends_with n ''.json''"
  shows "mset (records_in ldir fs') + records_at ldir fs n
       = mset (records_in ldir fs) + records_at ldir fs' n"
proof -
  let ?N = "insert n (set (glob_names ldir ''.json'' fs) \<union> set (glob_names ldir ''.json'' fs'))"
  have ends: "\<And>m. m \<in> ?N \<Longrightarrow> ends_with m ''.json''"
    using n by (auto simp: store_laws)
  have "mset (records_in ldir g) = sum (records_at ldir g) ?N"
    if "set (glob_names ldir ''.json'' g) \<subseteq> ?N" for g
    using that ends by (intro mset_records_in) auto
  moreover have "sum (records_at ldir g) ?N = records_at ldir g n + sum (records_at ldir g) (?N - {n})" for g
    by (rule sum.remove) auto
  ultimately have a: "mset (records_in ldir g) = records_at ldir g n + sum (records_at ldir g) (?N - {n})"
    if "set (glob_names ldir ''.json'' g) \<subseteq> ?N" for g
    using that by simp
  have "records_at ldir fs' m = records_at ldir fs m" if "m \<in> ?N - {n}" for m
    using load_cong [OF same, of m] that ends [of m] by (simp add: records_at_def)
  then have "sum (records_at ldir fs') (?N - {n}) = sum (records_at ldir fs) (?N - {n})"
    by (rule sum.cong [OF refl])
  moreover have "set (glob_names ldir ''.json'' fs) \<subseteq> ?N" "set (glob_names ldir ''.json'' fs') \<subseteq> ?N"
    by auto
  ultimately show ?thesis using a [of fs] a [of fs'] by (simp only: ac_simps)
qed

section \<open>The interface\<close>

text \<open>
  A share ledger shows its holders, takes one more record under a fresh name, drops one and
  exchanges one for another of the same name.  Everything about capacity follows from that.
\<close>

definition demands :: "ledger_record multiset \<Rightarrow> mib" where
  "demands M = (\<Sum>r\<in>#M. case lr_vram_mb r of None \<Rightarrow> 0 | Some v \<Rightarrow> v)"

definition one_exclusive :: "ledger_record multiset \<Rightarrow> bool" where
  "one_exclusive M = (\<exists>r\<in>#M. lr_vram_mb r = None)"

definition positive_shares :: "ledger_record multiset \<Rightarrow> bool" where
  "positive_shares M = (\<forall>r\<in>#M. \<forall>v. lr_vram_mb r = Some v \<longrightarrow> 0 < v)"

definition in_budget :: "mib option \<Rightarrow> int option \<Rightarrow> ledger_record multiset \<Rightarrow> bool" where
  "in_budget usable max_holders M \<longleftrightarrow>
     (\<forall>m. max_holders = Some m \<and> M \<noteq> {#} \<longrightarrow> int (size M) \<le> m)
   \<and> (one_exclusive M \<or> usable = None \<longrightarrow> size M \<le> 1)
   \<and> (\<forall>u. usable = Some u \<and> \<not> one_exclusive M \<and> M \<noteq> {#} \<longrightarrow> demands M \<le> u)"

lemma demands_simps [simp]:
  "demands {#} = 0"
  "demands (add_mset r M) = (case lr_vram_mb r of None \<Rightarrow> 0 | Some v \<Rightarrow> v) + demands M"
  by (simp_all add: demands_def)

lemma one_exclusive_simps [simp]:
  "\<not> one_exclusive {#}"
  "one_exclusive (add_mset r M) \<longleftrightarrow> lr_vram_mb r = None \<or> one_exclusive M"
  by (auto simp: one_exclusive_def)

lemma positive_shares_simps [simp]:
  "positive_shares {#}"
  "positive_shares (add_mset r M) \<longleftrightarrow> (\<forall>v. lr_vram_mb r = Some v \<longrightarrow> 0 < v) \<and> positive_shares M"
  by (auto simp: positive_shares_def)

lemma demands_nonneg: "positive_shares M \<Longrightarrow> 0 \<le> demands M"
  by (induction M) (auto split: option.splits)

lemma demands_mset: "demands (mset rs) = declared rs"
  by (induction rs) (auto simp: declared_def)

lemma one_exclusive_mset: "one_exclusive (mset rs) = some_exclusive rs"
  by (auto simp: one_exclusive_def some_exclusive_def list_ex_iff)

lemma in_budget_subset:
  assumes "in_budget usable mh (M + K)" and "positive_shares K"
  shows "in_budget usable mh M"
proof -
  have d: "demands M \<le> demands (M + K)"
    using demands_nonneg [OF assms(2)] by (simp add: demands_def)
  have n: "size M \<le> size (M + K)" by simp
  have "int (size M) \<le> m" if "mh = Some m" "M \<noteq> {#}" for m
    using assms(1) that n by (force simp: in_budget_def)
  moreover have "size M \<le> 1" if "one_exclusive M \<or> usable = None"
    using assms(1) that n by (auto simp: in_budget_def one_exclusive_def)
  moreover have "demands M \<le> u" if "usable = Some u" "\<not> one_exclusive M" "M \<noteq> {#}" for u
  proof (cases "one_exclusive K")
    case True
    then have "size (M + K) \<le> 1" "K \<noteq> {#}"
      using assms(1) by (auto simp: in_budget_def one_exclusive_def)
    then have "M = {#}" by (cases K; cases M) auto
    with that(3) show ?thesis by simp
  next
    case False
    then have "demands (M + K) \<le> u"
      using assms(1) that by (auto simp: in_budget_def one_exclusive_def)
    with d show ?thesis by simp
  qed
  ultimately show ?thesis by (auto simp: in_budget_def)
qed

text \<open>A participant may size the card smaller and allow fewer holders, never the other way.\<close>

definition within_policy :: "mib option \<Rightarrow> int option \<Rightarrow> mib option \<Rightarrow> int option \<Rightarrow> bool" where
  "within_policy usable mh usable' mh' \<longleftrightarrow>
     (case (usable, usable') of (Some u, Some u') \<Rightarrow> u' \<le> u | (None, None) \<Rightarrow> True | _ \<Rightarrow> False)
   \<and> (case mh of None \<Rightarrow> True | Some m \<Rightarrow> (case mh' of None \<Rightarrow> False | Some m' \<Rightarrow> m' \<le> m))"

lemma fits_within:
  "fits rs want usable' mh' \<Longrightarrow> within_policy usable mh usable' mh' \<Longrightarrow> fits rs want usable mh"
  by (auto simp: fits_def within_policy_def at_limit_def split: option.splits if_splits)

lemma in_budget_add:
  assumes "fits rs (lr_vram_mb r) usable mh" and "mset rs = M + K" and "positive_shares (mset rs)"
  shows "in_budget usable mh (add_mset r M)"
proof -
  have K: "positive_shares K" using assms(2,3) by (auto simp: positive_shares_def)
  have size: "size M \<le> length rs" using arg_cong [OF assms(2), of size] by simp
  have "declared rs = demands (M + K)" using assms(2) by (metis demands_mset)
  then have le: "demands M \<le> declared rs"
    using demands_nonneg [OF K] by (simp add: demands_def)
  have ex: "one_exclusive M \<Longrightarrow> some_exclusive rs"
    using assms(2) by (auto simp: one_exclusive_mset [symmetric] one_exclusive_def)
  have "rs = [] \<Longrightarrow> M = {#}" using size by simp
  with assms(1) size le ex show ?thesis
    by (force simp: fits_def in_budget_def at_limit_def split: option.splits if_splits)
qed

text \<open>A state of the ledger is seen with the live processes \<open>A\<close> and the names \<open>R\<close> of the records
  whose process is another one by now, one that was given the pid again.\<close>

locale share_ledger =
  fixes holders :: "'s \<Rightarrow> ledger_record multiset"
    and put :: "ledger_record \<Rightarrow> 's \<Rightarrow> 's"
    and drop_one :: "ledger_record \<Rightarrow> 's \<Rightarrow> 's"
    and fresh :: "ledger_record \<Rightarrow> 's \<Rightarrow> bool"
  assumes holders_add: "fresh r s \<Longrightarrow> holders (put r s) = add_mset r (holders s)"
    and holders_drop: "r \<in># holders s \<Longrightarrow> holders (drop_one r s) = holders s - {#r#}"
    and holders_change: "r \<in># holders s \<Longrightarrow> lr_path r' = lr_path r \<Longrightarrow> fresh r' (drop_one r s) \<Longrightarrow>
          holders (put r' s) = add_mset r' (holders s - {#r#})"
    and fresh_name: "fresh r s \<Longrightarrow> r' \<in># holders s \<Longrightarrow> lr_path r' \<noteq> lr_path r"
begin

definition live :: "pid set \<Rightarrow> 's \<Rightarrow> ledger_record multiset" where
  "live A s = filter_mset (\<lambda>r. lr_pid r \<in> A) (holders s)"

definition owned :: "pid set \<Rightarrow> path set \<Rightarrow> 's \<Rightarrow> ledger_record multiset" where
  "owned A R s = filter_mset (\<lambda>r. lr_pid r \<in> A \<and> lr_path r \<notin> R) (holders s)"

definition accounted :: "mib option \<Rightarrow> int option \<Rightarrow> pid set \<Rightarrow> path set \<Rightarrow> 's \<Rightarrow> bool" where
  "accounted usable mh A R s \<longleftrightarrow> positive_shares (holders s) \<and> in_budget usable mh (owned A R s)"

lemma accounted_empty: "holders s = {#} \<Longrightarrow> accounted usable mh A R s"
  by (simp add: accounted_def owned_def in_budget_def)

lemma live_split: "live A s = owned A R s + filter_mset (\<lambda>r. lr_pid r \<in> A \<and> lr_path r \<in> R) (holders s)"
  unfolding live_def owned_def by (induction "holders s") (auto simp: multiset_eq_iff)

lemma positive_diff: "positive_shares M \<Longrightarrow> positive_shares (M - K)"
  by (auto simp: positive_shares_def dest: in_diffD)

lemma positive_filter: "positive_shares M \<Longrightarrow> positive_shares (filter_mset P M)"
  by (auto simp: positive_shares_def)

lemma accounted_add:
  assumes "accounted usable mh A R s" and "fresh r s" and "\<And>v. lr_vram_mb r = Some v \<Longrightarrow> 0 < v"
    and "mset rs = live A s" and "fits rs (lr_vram_mb r) usable mh"
  shows "accounted usable mh A (R - {lr_path r}) (put r s)"
proof -
  have h: "holders (put r s) = add_mset r (holders s)"
    by (rule holders_add) fact
  have same: "owned A (R - {lr_path r}) s = owned A R s"
    unfolding owned_def by (rule filter_mset_cong [OF refl]) (use fresh_name [OF assms(2)] in auto)
  have "positive_shares (mset rs)"
    using assms(1,4) by (simp add: accounted_def live_def positive_filter)
  then have new: "in_budget usable mh (add_mset r (owned A R s))"
    using in_budget_add [OF assms(5)] assms(4) live_split [of A s R] by metis
  have "in_budget usable mh (owned A (R - {lr_path r}) (put r s))"
    using new assms(1) same by (auto simp: owned_def h accounted_def)
  with h assms(1,3) show ?thesis by (auto simp: accounted_def)
qed

lemma accounted_sub:
  assumes "accounted usable mh A R s" "positive_shares (holders s')" "owned A R s = owned A' R' s' + K"
  shows "accounted usable mh A' R' s'"
proof -
  have "positive_shares (owned A R s)"
    using assms(1) by (simp add: accounted_def owned_def positive_filter)
  then have "positive_shares K" using assms(3) by (auto simp: positive_shares_def)
  then show ?thesis using assms in_budget_subset [of usable mh "owned A' R' s'" K] by (simp add: accounted_def)
qed

lemma accounted_drop:
  assumes "accounted usable mh A R s" and "r \<in># holders s"
  shows "accounted usable mh A R (drop_one r s)"
proof (rule accounted_sub [OF assms(1)])
  have h: "holders (drop_one r s) = holders s - {#r#}"
    by (rule holders_drop) fact
  then show "positive_shares (holders (drop_one r s))"
    using assms(1) by (simp add: accounted_def positive_diff)
  show "owned A R s = owned A R (drop_one r s) + filter_mset (\<lambda>r. lr_pid r \<in> A \<and> lr_path r \<notin> R) {#r#}"
    unfolding owned_def h filter_union_mset [symmetric] using assms(2) by simp
qed

lemma accounted_change:
  assumes "accounted usable mh A R s" and "r \<in># holders s" and "fresh r' (drop_one r s)"
    and same: "lr_path r' = lr_path r" "lr_vram_mb r' = lr_vram_mb r" "lr_pid r' = lr_pid r"
  shows "accounted usable mh A R (put r' s)"
proof -
  have h: "holders (put r' s) = add_mset r' (holders s - {#r#})"
    by (rule holders_change) (use assms in auto)
  obtain K where K: "holders s = add_mset r K"
    using assms(2) by (metis insert_DiffM)
  show ?thesis
    using assms(1) same unfolding accounted_def owned_def h K
    by (auto simp: in_budget_def)
qed

lemma accounted_exit:
  assumes "accounted usable mh A R s"
  shows "accounted usable mh (A - {p}) R s"
proof (rule accounted_sub [OF assms])
  show "positive_shares (holders s)" using assms by (simp add: accounted_def)
  show "owned A R s = owned (A - {p}) R s
      + filter_mset (\<lambda>r. lr_pid r = p \<and> lr_pid r \<in> A \<and> lr_path r \<notin> R) (holders s)"
    unfolding owned_def by (auto simp: multiset_eq_iff)
qed

text \<open>A process that starts makes nobody an owner: the records with its pid are somebody else's.\<close>

lemma accounted_spawn:
  assumes "accounted usable mh A R s"
  shows "accounted usable mh (insert p A) (R \<union> lr_path ` {r. r \<in># holders s \<and> lr_pid r = p}) s"
    (is "accounted _ _ _ ?R _")
proof (rule accounted_sub [OF assms])
  show "positive_shares (holders s)" using assms by (simp add: accounted_def)
  show "owned A R s = owned (insert p A) ?R s
      + filter_mset (\<lambda>r. lr_pid r \<in> A \<and> lr_path r \<notin> R \<and> lr_path r \<in> ?R) (holders s)"
    unfolding owned_def by (auto simp: multiset_eq_iff count_eq_zero_iff)
qed

end

end
