(* ===== verification/CardCapacity.thy ===== *)
theory CardCapacity
  imports LedgerShares
begin

text \<open>
  The ledger's files satisfy the share ledger's contract, and what follows for a card under
  every interleaving of the participants' steps; \<open>fits\<close> against \<open>card_is_closed\<close>; what a
  successful \<open>acquire\<close> publishes; the mutex wait.
\<close>

section \<open>The files of a card are a share ledger\<close>

definition card_holders :: "string \<Rightarrow> path \<Rightarrow> claims \<Rightarrow> ledger_record multiset" where
  "card_holders key d fs = mset (records_for key d fs)"

definition fresh_record :: "string \<Rightarrow> path \<Rightarrow> ledger_record \<Rightarrow> claims \<Rightarrow> bool" where
  "fresh_record key d r fs \<longleftrightarrow> lr_path r \<noteq> [] \<and> butlast (lr_path r) = ledger_dir key d
     \<and> ends_with (last (lr_path r)) ''.json'' \<and> \<not> exists_file fs (lr_path r)"

lemma legacy_not_in_ledger [simp]:
  "legacy_path key d \<noteq> ledger_dir key d @ [n]" "ledger_dir key d @ [n] \<noteq> legacy_path key d"
  "legacy_path key d \<noteq> part_of (ledger_dir key d @ [n])"
  by (auto simp: legacy_path_def ledger_dir_def part_of_def)

lemma part_of_snoc [simp]: "part_of (p @ [n]) = p @ [n @ ''.part'']"
  by (simp add: part_of_def)

lemma not_part [simp]: "ends_with m ''.json'' \<Longrightarrow> m \<noteq> n @ ''.part''"
  using part_not_json by metis

lemma set_map_filter_iff: "r \<in> set (List.map_filter f xs) \<longleftrightarrow> (\<exists>x\<in>set xs. f x = Some r)"
  by (force simp: List.map_filter_def)

lemma records_in_member:
  assumes "r \<in> set (records_in ldir fs)"
  obtains n where "lr_path r = ldir @ [n]" "ends_with n ''.json''" "load (ldir @ [n]) fs = Some r"
  using assms by (auto simp: records_in_def set_map_filter_iff store_laws dest: load_path intro: that)

lemma card_holders_split:
  "card_holders key d fs = mset (records_in (ledger_dir key d) fs)
     + (case load_legacy (legacy_path key d) fs of None \<Rightarrow> {#} | Some r \<Rightarrow> {#r#})"
  by (simp add: card_holders_def records_for_def split: option.splits)

lemma write_in_ledger:
  assumes p: "lr_path r = ledger_dir key d @ [n]" and n: "ends_with n ''.json''"
  shows "card_holders key d (write_record r fs) + records_at (ledger_dir key d) fs n
       = add_mset r (card_holders key d fs)"
proof -
  have "mset (records_in (ledger_dir key d) (write_record r fs)) + records_at (ledger_dir key d) fs n
      = mset (records_in (ledger_dir key d) fs) + records_at (ledger_dir key d) (write_record r fs) n"
    by (rule records_in_change [OF _ n]) (use p in \<open>auto simp: write_record_def store_laws\<close>)
  moreover have "records_at (ledger_dir key d) (write_record r fs) n = {#r#}"
    using load_written [of r fs] p by (simp add: records_at_def)
  moreover have "load_legacy (legacy_path key d) (write_record r fs) = load_legacy (legacy_path key d) fs"
    by (rule load_legacy_cong) (use p in \<open>simp add: write_record_def store_laws\<close>)
  ultimately show ?thesis
    by (simp add: card_holders_split)
qed

lemma card_holders_add:
  assumes "fresh_record key d r fs"
  shows "card_holders key d (write_record r fs) = add_mset r (card_holders key d fs)"
proof -
  obtain n where n: "lr_path r = ledger_dir key d @ [n]" "ends_with n ''.json''"
    using assms by (metis append_butlast_last_id fresh_record_def)
  moreover have "records_at (ledger_dir key d) fs n = {#}"
    using assms n by (simp add: records_at_def fresh_record_def exists_file_def load_gone)
  ultimately show ?thesis using write_in_ledger [OF n, of fs] by simp
qed

lemma card_holders_drop:
  assumes "r \<in># card_holders key d fs"
  shows "card_holders key d (remove_record r fs) = card_holders key d fs - {#r#}"
proof -
  let ?L = "ledger_dir key d" and ?fs = "remove_record r fs"
  consider "r \<in> set (records_in ?L fs)" | "load_legacy (legacy_path key d) fs = Some r"
    using assms by (auto simp: card_holders_def records_for_def split: option.splits)
  then show ?thesis
  proof cases
    case 1
    then obtain n where n: "lr_path r = ?L @ [n]" "ends_with n ''.json''" "load (?L @ [n]) fs = Some r"
      by (rule records_in_member)
    have "mset (records_in ?L ?fs) + records_at ?L fs n = mset (records_in ?L fs) + records_at ?L ?fs n"
      by (rule records_in_change [OF _ n(2)]) (use n in \<open>auto simp: remove_record_def store_laws\<close>)
    moreover have "records_at ?L fs n = {#r#}" "records_at ?L ?fs n = {#}"
      using n by (simp_all add: records_at_def load_gone remove_record_def store_laws)
    moreover have "load_legacy (legacy_path key d) ?fs = load_legacy (legacy_path key d) fs"
      by (rule load_legacy_cong) (use n in \<open>simp add: remove_record_def store_laws\<close>)
    ultimately show ?thesis
      by (simp add: card_holders_split) (metis add_mset_remove_trivial union_mset_add_mset_left)
  next
    case 2
    then have p: "lr_path r = legacy_path key d" by (rule load_legacy_path)
    then have "load_legacy (legacy_path key d) ?fs = None"
      by (simp add: load_legacy_def load_gone remove_record_def store_laws)
    moreover have "mset (records_in ?L ?fs) + records_at ?L fs m = mset (records_in ?L fs) + records_at ?L ?fs m"
      if "ends_with m ''.json''" for m
      by (rule records_in_change [OF _ that]) (use p in \<open>auto simp: remove_record_def store_laws\<close>)
    moreover have "records_at ?L ?fs m = records_at ?L fs m" for m
      using p load_cong [of ?fs "?L @ [m]" fs]
      by (simp add: records_at_def remove_record_def store_laws)
    moreover have "ends_with ''.json'' ''.json''" by (simp add: ends_with_iff)
    ultimately show ?thesis using 2 by (simp add: card_holders_split)
  qed
qed

lemma card_holders_change:
  assumes "r \<in># card_holders key d fs" and "lr_path r' = lr_path r"
    and "fresh_record key d r' (remove_record r fs)"
  shows "card_holders key d (write_record r' fs) = add_mset r' (card_holders key d fs - {#r#})"
proof -
  obtain n where n: "lr_path r' = ledger_dir key d @ [n]" "ends_with n ''.json''"
    using assms(3) by (metis append_butlast_last_id fresh_record_def)
  have "r \<in> set (records_in (ledger_dir key d) fs)"
    using assms(1,2) n legacy_not_in_ledger(1) [of key d n] load_legacy_path [of "legacy_path key d" fs r]
    by (auto simp: card_holders_def records_for_def split: option.splits)
  then have "records_at (ledger_dir key d) fs n = {#r#}"
    using n assms(2) by (auto simp: records_at_def elim!: records_in_member)
  then have "add_mset r (card_holders key d (write_record r' fs)) = add_mset r' (card_holders key d fs)"
    using write_in_ledger [OF n, of fs] by simp
  then show ?thesis
    by (metis add_mset_remove_trivial add_mset_commute assms(1) insert_DiffM)
qed

lemma card_holders_name:
  assumes "fresh_record key d r fs" and "r' \<in># card_holders key d fs"
  shows "lr_path r' \<noteq> lr_path r"
proof -
  have r: "butlast (lr_path r) = ledger_dir key d" "lr_path r \<noteq> []" "\<not> exists_file fs (lr_path r)"
    using assms(1) by (simp_all add: fresh_record_def)
  from assms(2) consider "r' \<in> set (records_in (ledger_dir key d) fs)" | "load_legacy (legacy_path key d) fs = Some r'"
    by (auto simp: card_holders_def records_for_def split: option.splits)
  then show ?thesis
  proof cases
    case 1
    then obtain n where "lr_path r' = ledger_dir key d @ [n]" "load (ledger_dir key d @ [n]) fs = Some r'"
      by (rule records_in_member)
    then have "exists_file fs (lr_path r')"
      using load_gone [of fs "lr_path r'"] by (auto simp: exists_file_def)
    with r(3) show ?thesis by auto
  next
    case 2
    then have "lr_path r' = legacy_path key d" by (rule load_legacy_path)
    moreover have "lr_path r = ledger_dir key d @ [last (lr_path r)]"
      using r by (metis append_butlast_last_id)
    ultimately show ?thesis by (metis legacy_not_in_ledger(1))
  qed
qed

interpretation cl: share_ledger "card_holders key d" write_record remove_record "fresh_record key d"
  for key d
  by unfold_locales (fact card_holders_add card_holders_drop card_holders_change card_holders_name)+

section \<open>Every participant's steps\<close>

text \<open>
  A state is the set of live processes, the paths of the records whose pid the kernel has given to
  another process since, and the files.  Participants take and refuse shares under the mutex,
  each with its own idea of the card that is within the policy; they name the process they charge,
  and drop records (their own, or a sweep a dead one's); processes end and start, a new one with
  any pid that is free.
\<close>

definition agrees :: "snapshot \<Rightarrow> pid set \<Rightarrow> bool" where
  "agrees os A \<longleftrightarrow> (\<forall>p. pid_alive os p \<longleftrightarrow> p \<in> A)"

definition token_path :: "snapshot \<Rightarrow> string \<Rightarrow> string \<Rightarrow> path \<Rightarrow> path" where
  "token_path os token key d = ledger_dir key d @ [show_int (own_pid os) @ ''.'' @ token @ ''.json'']"

definition recycled :: "string \<Rightarrow> path \<Rightarrow> claims \<Rightarrow> pid \<Rightarrow> path set" where
  "recycled key d fs p = lr_path ` {r. r \<in> set (records_for key d fs) \<and> lr_pid r = p}"

inductive card_step :: "string \<Rightarrow> path \<Rightarrow> mib option \<Rightarrow> int option
    \<Rightarrow> pid set \<times> path set \<times> claims \<Rightarrow> pid set \<times> path set \<times> claims \<Rightarrow> bool" for key d usable mh where
  admit: "agrees os A \<Longrightarrow> own_pid os \<in> A \<Longrightarrow> \<not> exists_file fs (token_path os token key d)
     \<Longrightarrow> (\<And>v. want = Some v \<Longrightarrow> 0 < v) \<Longrightarrow> within_policy usable mh u m'
     \<Longrightarrow> acquire os m token now key want owner cmd d u up m' sp sc fs = (Inr r, fs')
     \<Longrightarrow> card_step key d usable mh (A, R, fs) (A, R - {lr_path r}, fs')"
| refuse: "acquire os m token now key want owner cmd d u up m' sp sc fs = (Inl e, fs')
     \<Longrightarrow> card_step key d usable mh (A, R, fs) (A, R, fs')"
| launch: "r \<in> set (records_in (ledger_dir key d) fs) \<Longrightarrow> set_usage_pid r p fs = (r', fs')
     \<Longrightarrow> card_step key d usable mh (A, R, fs) (A, R, fs')"
| release: "r \<in> set (records_for key d fs)
     \<Longrightarrow> card_step key d usable mh (A, R, fs) (A, R, remove_record r fs)"
| exits: "card_step key d usable mh (A, R, fs) (A - {p}, R, fs)"
| spawns: "p \<notin> A \<Longrightarrow> card_step key d usable mh (A, R, fs) (insert p A, R \<union> recycled key d fs p, fs)"

inductive card_reach :: "string \<Rightarrow> path \<Rightarrow> mib option \<Rightarrow> int option \<Rightarrow> pid set \<times> path set \<times> claims \<Rightarrow> bool"
  for key d usable mh where
  start: "records_for key d fs = [] \<Longrightarrow> card_reach key d usable mh (A, {}, fs)"
| more: "card_reach key d usable mh s \<Longrightarrow> card_step key d usable mh s s' \<Longrightarrow> card_reach key d usable mh s'"

definition holds_budget :: "string \<Rightarrow> path \<Rightarrow> mib option \<Rightarrow> int option \<Rightarrow> pid set \<times> path set \<times> claims \<Rightarrow> bool" where
  "holds_budget key d usable mh = (\<lambda>(A, R, fs). cl.accounted key d usable mh A R fs)"

lemma acquire_Inr:
  assumes "acquire os m token now key want owner cmd d usable up mh sp sc fs = (Inr r, fs')"
  shows "m = Locked" and "fits (live_records os (records_for key d fs)) want usable mh"
    and "lr_path r = token_path os token key d" and "lr_pid r = own_pid os"
    and "lr_vram_mb r = want" and "fs' = write_record r fs"
  using assms by (auto simp: acquire_def token_path_def Let_def split: mutex_result.splits if_splits)

lemma acquire_Inl:
  assumes "acquire os m token now key want owner cmd d usable up mh sp sc fs = (Inl e, fs')"
  shows "fs' = fs"
  using assms by (auto simp: acquire_def Let_def split: mutex_result.splits if_splits)

lemma token_path_fresh:
  assumes "lr_path r = token_path os token key d" and "\<not> exists_file fs (lr_path r)"
  shows "fresh_record key d r fs"
  using assms json_ends [of "show_int (own_pid os) @ ''.'' @ token"]
  by (simp add: fresh_record_def token_path_def)

lemma agrees_live:
  "agrees os A \<Longrightarrow> mset (live_records os (records_for key d fs)) = cl.live key d A fs"
  by (simp add: live_records_def cl.live_def card_holders_def agrees_def)

lemma card_step_accounted:
  assumes "card_step key d usable mh s s'" and "holds_budget key d usable mh s"
  shows "holds_budget key d usable mh s'"
  using assms
proof (induction rule: card_step.induct)
  case (admit os A fs token want u m' m now owner cmd up sp sc r fs' R)
  note r = acquire_Inr [OF admit.hyps(6)]
  have "cl.accounted key d usable mh A (R - {lr_path r}) (write_record r fs)"
  proof (rule cl.accounted_add)
    show "cl.accounted key d usable mh A R fs" using admit by (simp add: holds_budget_def)
    show "fresh_record key d r fs"
      using token_path_fresh [OF r(3)] admit.hyps(3) r(3) by simp
    show "mset (live_records os (records_for key d fs)) = cl.live key d A fs"
      by (rule agrees_live) fact
    show "fits (live_records os (records_for key d fs)) (lr_vram_mb r) usable mh"
      using fits_within [OF r(2) admit.hyps(5)] r(5) by simp
    show "0 < v" if "lr_vram_mb r = Some v" for v using admit.hyps(4) that r(5) by simp
  qed
  then show ?case using r(6) by (simp add: holds_budget_def)
next
  case (refuse os m token now want owner cmd u up m' sp sc fs e fs' A R)
  then show ?case using acquire_Inl by fastforce
next
  case (launch r fs p r' fs' A R)
  then obtain n where n: "lr_path r = ledger_dir key d @ [n]" "ends_with n ''.json''"
    by (blast elim: records_in_member)
  have "r \<in># card_holders key d fs" using launch.hyps(1) by (simp add: card_holders_split)
  moreover have "fresh_record key d (r\<lparr>lr_usage_pid := p\<rparr>) (remove_record r fs)"
    using n by (simp add: fresh_record_def exists_file_def remove_record_def store_laws)
  ultimately have "cl.accounted key d usable mh A R (write_record (r\<lparr>lr_usage_pid := p\<rparr>) fs)"
    using launch by (intro cl.accounted_change) (auto simp: holds_budget_def)
  then show ?case using launch.hyps(2) by (auto simp: set_usage_pid_def Let_def holds_budget_def)
next
  case (release r fs A R)
  then have "r \<in># card_holders key d fs" by (simp add: card_holders_def)
  with release show ?case using cl.accounted_drop by (simp add: holds_budget_def)
next
  case (exits A R fs p)
  then show ?case using cl.accounted_exit by (simp add: holds_budget_def)
next
  case (spawns p A R fs)
  then show ?case
    using cl.accounted_spawn [of key d usable mh A R fs p]
    by (simp add: holds_budget_def recycled_def card_holders_def)
qed

lemma card_reach_accounted: "card_reach key d usable mh s \<Longrightarrow> holds_budget key d usable mh s"
proof (induction rule: card_reach.induct)
  case (start fs A)
  then have "card_holders key d fs = {#}" by (simp add: card_holders_def)
  then show ?case using cl.accounted_empty by (simp add: holds_budget_def)
next
  case (more s s')
  then show ?case using card_step_accounted by blast
qed

definition card_ok :: "mib option \<Rightarrow> int option \<Rightarrow> ledger_record list \<Rightarrow> bool" where
  "card_ok usable mh live \<longleftrightarrow>
     (case mh of None \<Rightarrow> True | Some m \<Rightarrow> live = [] \<or> int (length live) \<le> m)
   \<and> (some_exclusive live \<longrightarrow> length live = 1)
   \<and> (case usable of None \<Rightarrow> length live \<le> 1
      | Some u \<Rightarrow> some_exclusive live \<or> live = [] \<or> declared live \<le> u)"

lemma some_exclusive_simps [simp]:
  "\<not> some_exclusive []" "some_exclusive (r # rs) \<longleftrightarrow> lr_vram_mb r = None \<or> some_exclusive rs"
  by (simp_all add: some_exclusive_def)

lemma declared_simps [simp]:
  "declared [] = 0"
  "declared (r # rs) = (case lr_vram_mb r of None \<Rightarrow> 0 | Some v \<Rightarrow> v) + declared rs"
  by (simp_all add: declared_def)

lemma in_budget_card_ok: "in_budget usable mh (mset live) \<Longrightarrow> card_ok usable mh live"
  by (cases live)
    (auto simp: in_budget_def card_ok_def one_exclusive_mset demands_mset split: option.splits)

text \<open>The live records whose own process is the one that is alive.\<close>

definition own_live :: "snapshot \<Rightarrow> path set \<Rightarrow> ledger_record list \<Rightarrow> ledger_record list" where
  "own_live os R rs = filter (\<lambda>r. lr_path r \<notin> R) (live_records os rs)"

text \<open>C1: whatever the participants of a card do and in whatever order they do it, and whichever
  pids the kernel gives out again: the declarations of the live holders never add up to more than
  the usable memory, an exclusive holder is alone, and there are never more live holders than the
  job limit; with a card that cannot be queried there is at most one.  A holder is a live record
  whose pid has not been given to another process since its own ended; as long as the kernel
  reuses no pid of a record on disk these are all the live records.\<close>

theorem card_never_overcommitted:
  assumes "card_reach key d usable mh (A, R, fs)" and "agrees os A"
  shows "card_ok usable mh (own_live os R (records_for key d fs))
    \<and> (R = {} \<longrightarrow> card_ok usable mh (live_records os (records_for key d fs)))"
proof -
  have "mset (own_live os R (records_for key d fs)) = cl.owned key d A R fs"
    using assms(2)
    by (simp add: own_live_def live_records_def cl.owned_def card_holders_def agrees_def conj_commute)
  moreover have "in_budget usable mh (cl.owned key d A R fs)"
    using card_reach_accounted [OF assms(1)] by (simp add: holds_budget_def cl.accounted_def)
  ultimately have "card_ok usable mh (own_live os R (records_for key d fs))"
    by (intro in_budget_card_ok) simp
  then show ?thesis by (auto simp: own_live_def)
qed

text \<open>A first claim on an empty card.\<close>

definition first_claim :: "(claim_refusal + ledger_record) \<times> claims" where
  "first_claim = acquire quiet_box Locked ''a1b2c3'' ''2025-01-01T00:00:00Z'' ''GPU-ab'' (Some 4000)
     (PStr ''alice'') [PStr ''train''] [''locks''] (Some 7680) (Some 11) (Some 2) None PNone []"

lemma first_claim_granted: "\<not> isl (fst first_claim)"
  by code_simp

lemma quiet_box_agrees: "agrees quiet_box {10, 11, 12}"
  by (auto simp: agrees_def pid_alive_def quiet_box_def)

lemma card_never_overcommitted_witness:
  "\<exists>r fs. first_claim = (Inr r, fs) \<and> lr_vram_mb r = Some 4000
     \<and> card_ok (Some 7680) (Some 2) (live_records quiet_box (records_for ''GPU-ab'' [''locks''] fs))"
proof -
  obtain r fs where c: "first_claim = (Inr r, fs)" using first_claim_granted by (metis isl_def prod.collapse sum.collapse(2))
  note acq = c [unfolded first_claim_def]
  have "card_reach ''GPU-ab'' [''locks''] (Some 7680) (Some 2) ({10, 11, 12}, {}, [])"
    by (rule card_reach.start) code_simp
  moreover have "card_step ''GPU-ab'' [''locks''] (Some 7680) (Some 2) ({10, 11, 12}, {}, [])
      ({10, 11, 12}, {} - {lr_path r}, fs)"
    by (rule card_step.admit [OF quiet_box_agrees, rotated 4, OF acq])
      (simp_all add: quiet_box_def exists_file_def read_file_def within_policy_def)
  ultimately have "card_reach ''GPU-ab'' [''locks''] (Some 7680) (Some 2) ({10, 11, 12}, {} - {lr_path r}, fs)"
    by (rule card_reach.more)
  from card_never_overcommitted [OF this quiet_box_agrees] c acquire_Inr(5) [OF acq]
  show ?thesis by blast
qed

section \<open>Closed cards\<close>

text \<open>C31: \<open>card_is_closed\<close> says exactly that \<open>fits\<close> refuses every declaration, exclusive or of
  any positive size, when the holders' own declarations are not negative.\<close>

theorem card_is_closed_iff:
  assumes "list_all (\<lambda>r. case lr_vram_mb r of None \<Rightarrow> True | Some v \<Rightarrow> 0 \<le> v) rs"
  shows "card_is_closed rs usable mh
     \<longleftrightarrow> \<not> fits rs None usable mh \<and> (\<forall>w>0. \<not> fits rs (Some w) usable mh)"
proof -
  have nonneg: "0 \<le> declared rs"
    using assms by (auto simp: declared_def list_all_iff intro!: sum_list_nonneg split: option.splits)
  show ?thesis
  proof (cases usable)
    case None
    then show ?thesis by (auto simp: card_is_closed_def fits_def)
  next
    case (Some u)
    have "(\<forall>w>0. \<not> (\<not> w > u \<and> declared rs + w \<le> u)) \<longleftrightarrow> u \<le> declared rs"
    proof
      assume "\<forall>w>0. \<not> (\<not> w > u \<and> declared rs + w \<le> u)"
      from spec [OF this, of 1] nonneg show "u \<le> declared rs" by auto
    qed auto
    then show ?thesis using Some nonneg
      by (auto simp: card_is_closed_def fits_def free_mb_def)
  qed
qed

definition half_full :: "ledger_record list" where
  "half_full = [\<lparr>lr_path = [''locks'', ''k.lock.d'', ''10.aa.json''], lr_pid = 10, lr_usage_pid = Some 11,
     lr_vram_mb = Some 4000, lr_owner = PStr ''alice'', lr_cmd = [], lr_started_at = PStr [],
     lr_key = PStr ''k'', lr_scope_pid = None, lr_scope_cgroup = PNone\<rparr>]"

lemma card_is_closed_iff_witness:
  "\<not> card_is_closed half_full (Some 7680) (Some 2) \<and> card_is_closed half_full (Some 4000) None
   \<and> (\<exists>w>0. fits half_full (Some w) (Some 7680) (Some 2)) \<and> \<not> fits half_full (Some 5) (Some 4000) None"
proof -
  have nonneg: "list_all (\<lambda>r. case lr_vram_mb r of None \<Rightarrow> True | Some v \<Rightarrow> 0 \<le> v) half_full"
    and o: "\<not> card_is_closed half_full (Some 7680) (Some 2)" "\<not> fits half_full None (Some 7680) (Some 2)"
    and c: "card_is_closed half_full (Some 4000) None"
    by code_simp+
  then show ?thesis
    using card_is_closed_iff [OF nonneg, of "Some 7680" "Some 2"]
      card_is_closed_iff [OF nonneg, of "Some 4000" None] by auto
qed

section \<open>What acquire does to the files\<close>

lemma map_filter_cong:
  "xs = ys \<Longrightarrow> (\<And>x. x \<in> set ys \<Longrightarrow> f x = g x) \<Longrightarrow> List.map_filter f xs = List.map_filter g ys"
  by (induction ys arbitrary: xs) (auto simp: List.map_filter_def)

lemma records_in_other:
  assumes "\<And>m. ends_with m ''.json'' \<Longrightarrow> read_file fs' (ldir @ [m]) = read_file fs (ldir @ [m])"
  shows "records_in ldir fs' = records_in ldir fs"
proof -
  have "glob_names ldir ''.json'' fs' = glob_names ldir ''.json'' fs"
    by (rule fs.ls_cong) (simp add: assms)
  moreover have "load (ldir @ [m]) fs' = load (ldir @ [m]) fs" if "m \<in> set (glob_names ldir ''.json'' fs)" for m
    using that assms [of m] by (intro load_cong) (auto simp: store_laws)
  ultimately show ?thesis
    unfolding records_in_def by (simp cong: map_filter_cong)
qed

lemma records_for_other:
  assumes "lr_path r = ledger_dir key d @ [n]" and "lock_filename key' \<noteq> lock_filename key"
  shows "records_for key' d (write_record r fs) = records_for key' d fs"
proof -
  have "ledger_dir key' d \<noteq> ledger_dir key d"
    using assms(2) by (simp add: ledger_dir_def)
  then have "records_in (ledger_dir key' d) (write_record r fs) = records_in (ledger_dir key' d) fs"
    using assms(1) by (intro records_in_other) (simp add: write_record_def store_laws)
  moreover have "load_legacy (legacy_path key' d) (write_record r fs) = load_legacy (legacy_path key' d) fs"
    using assms(1) by (intro load_legacy_cong)
      (auto simp: write_record_def store_laws legacy_path_def ledger_dir_def part_of_def)
  ultimately show ?thesis by (simp add: records_for_def)
qed

text \<open>C10: \<open>acquire\<close> either publishes exactly one record, readable back as written, that carries
  the caller's pid and the demand, and leaves every other card's records alone; or it raises
  and no file has changed: \<open>MutexTimeout\<close> when the mutex could not be had, \<open>CardClosed\<close> or
  \<open>ClaimBusy\<close> when the live holders leave no room, by whether the card is closed to all.\<close>

theorem acquire_outcome:
  assumes "\<not> exists_file fs (token_path os token key d)"
    and "live = live_records os (records_for key d fs)"
  shows "case acquire os m token now key want owner cmd d usable up mh sp sc fs of
      (Inr r, fs') \<Rightarrow> m = Locked \<and> fits live want usable mh
        \<and> load (lr_path r) fs' = Some r \<and> lr_pid r = own_pid os \<and> lr_vram_mb r = want
        \<and> mset (records_for key d fs') = add_mset r (mset (records_for key d fs))
        \<and> (\<forall>key'. lock_filename key' \<noteq> lock_filename key \<longrightarrow>
              records_for key' d fs' = records_for key' d fs)
    | (Inl e, fs') \<Rightarrow> fs' = fs
        \<and> (m = TimedOut \<longrightarrow> e = MutexTimeout) \<and> (\<forall>x. m = MutexRaised x \<longrightarrow> e = OSRaised x)
        \<and> (m = Locked \<longrightarrow> \<not> fits live want usable mh
            \<and> e = (if card_is_closed live usable mh then CardClosed else Busy))"
proof (cases "acquire os m token now key want owner cmd d usable up mh sp sc fs")
  case (Pair res fs')
  show ?thesis
  proof (cases res)
    case (Inl e)
    with Pair assms(2) show ?thesis
      by (auto simp: acquire_def Let_def split: mutex_result.splits if_splits)
  next
    case (Inr r)
    note acq = acquire_Inr [OF Pair [unfolded Inr]]
    have "fresh_record key d r fs"
      using token_path_fresh [OF acq(3)] assms(1) acq(3) by simp
    then have "mset (records_for key d fs') = add_mset r (mset (records_for key d fs))"
      using card_holders_add acq(6) by (simp add: card_holders_def)
    with Pair Inr acq assms(2) show ?thesis
      using load_written [of r fs] by (simp add: records_for_other token_path_def)
  qed
qed

lemma acquire_outcome_witness:
  "case first_claim of (Inr r, fs') \<Rightarrow> load (lr_path r) fs' = Some r \<and> records_for ''other'' [''locks''] fs' = []
     | (Inl e, fs') \<Rightarrow> False"
proof -
  have other: "lock_filename ''other'' \<noteq> lock_filename ''GPU-ab''" "records_for ''other'' [''locks''] [] = []"
    by code_simp+
  have "\<not> exists_file [] (token_path quiet_box ''a1b2c3'' ''GPU-ab'' [''locks''])"
    by (simp add: exists_file_def read_file_def)
  from acquire_outcome [OF this refl, where m = Locked and now = "''2025-01-01T00:00:00Z''"
      and want = "Some 4000" and owner = "PStr ''alice''" and cmd = "[PStr ''train'']" and usable = "Some 7680"
      and up = "Some 11" and mh = "Some 2" and sp = None and sc = PNone] other first_claim_granted
  show ?thesis unfolding first_claim_def by (auto split: sum.splits prod.splits) metis
qed

section \<open>The mutex wait\<close>

lemma take_mutex_timed_out:
  "take_mutex deadline tries = Some TimedOut \<Longrightarrow> \<exists>now. (WouldBlock, now) \<in> set tries \<and> deadline \<le> now"
  by (induction deadline tries rule: take_mutex.induct) (auto split: if_splits)

lemma take_mutex_decides:
  "i < length tries \<Longrightarrow> deadline \<le> snd (tries ! i) \<Longrightarrow> take_mutex deadline tries \<noteq> None"
proof (induction deadline tries arbitrary: i rule: take_mutex.induct)
  case (4 deadline now tries)
  then show ?case by (cases i) auto
qed auto

text \<open>The wait for the mutex is bounded: every refused try sleeps at least the poll
  interval, so at most 201 tries decide, and the wait is given up only after the full ten
  seconds.\<close>

lemma mutex_wait_bounded:
  assumes "\<And>i. i < length tries \<Longrightarrow> start + of_nat i * MUTEX_POLL_S \<le> snd (tries ! i)"
    and "201 \<le> length tries"
  shows "(\<exists>res. take_mutex (start + MUTEX_WAIT_S) tries = Some res)
     \<and> (take_mutex (start + MUTEX_WAIT_S) tries = Some TimedOut
          \<longrightarrow> (\<exists>now. (WouldBlock, now) \<in> set tries \<and> start + MUTEX_WAIT_S \<le> now))"
proof -
  have "start + MUTEX_WAIT_S \<le> snd (tries ! 200)"
    using assms(1) [of 200] assms(2) by (simp add: MUTEX_WAIT_S_def MUTEX_POLL_S_def)
  then have "take_mutex (start + MUTEX_WAIT_S) tries \<noteq> None"
    using take_mutex_decides [of 200 tries] assms(2) by simp
  then show ?thesis using take_mutex_timed_out by blast
qed

lemma mutex_wait_bounded_witness:
  "take_mutex (7 + MUTEX_WAIT_S) (map (\<lambda>i. (WouldBlock, 7 + of_nat i * MUTEX_POLL_S)) [0..<201]) \<noteq> None"
  using mutex_wait_bounded [of "map (\<lambda>i. (WouldBlock, 7 + of_nat i * MUTEX_POLL_S)) [0..<201]" 7]
  by (simp del: upt_rec_numeral)

end
