(* ===== verification/Attribution.thy ===== *)
theory Attribution
  imports CardCapacity
begin

text \<open>
  \<open>attribute\<close> of \<open>src/gpuqueue/ledger.py\<close>, which preflight, the orphan reaper and the VRAM
  watchdog share: every visible CUDA process is charged exactly once, and the ones charged to
  nobody are exactly those no record covers.
\<close>

section \<open>Dictionaries built by a loop\<close>

lemma map_of_fold_update:
  "map_of (fold (\<lambda>x d. if P x then AList.update (f x) (g x) d else d) xs d0) k
     = (case find (\<lambda>x. P x \<and> f x = k) (rev xs) of Some x \<Rightarrow> Some (g x) | None \<Rightarrow> map_of d0 k)"
  by (induction xs rule: rev_induct) (auto simp: update_conv')

lemma keys_distinct:
  assumes "distinct (map fst d0)"
  shows "distinct (map fst (fold (\<lambda>x d. if P x then AList.update (f x) (g x) d else d) xs d0))"
  using assms by (induction xs arbitrary: d0) (auto simp: distinct_update)

lemma findD: "find P xs = Some x \<Longrightarrow> x \<in> set xs \<and> P x"
  by (induction xs) (auto split: if_splits)

lemma trees_of_if:
  "trees_of os rs = fold (\<lambda>r d. if lr_usage_pid r \<noteq> None
     then AList.update (lr_path r) (insert (the (lr_usage_pid r)) (descendants os (the (lr_usage_pid r)))) d
     else d) rs []"
  unfolding trees_of_def by (rule fold_cong) (auto split: option.splits)

lemma find_unique:
  assumes "distinct (map f xs)" and "x \<in> set xs" and "P x"
  shows "find (\<lambda>y. P y \<and> f y = f x) (rev xs) = Some x"
proof -
  have "find (\<lambda>y. P y \<and> f y = f x) (rev xs) \<noteq> None"
    unfolding find_None_iff using assms(2,3) by auto
  then obtain y where y: "find (\<lambda>y. P y \<and> f y = f x) (rev xs) = Some y" by blast
  from findD [OF this] have "y \<in> set xs" "f y = f x" by simp_all
  with assms(1,2) have "y = x" by (meson distinct_map inj_onD)
  with y show ?thesis by simp
qed

lemma set_fold_update:
  assumes "distinct (map f xs)"
  shows "set (fold (\<lambda>x d. if P x then AList.update (f x) (g x) d else d) xs [])
       = {(f x, g x) | x. x \<in> set xs \<and> P x}" (is "set ?d = ?R")
proof -
  have "(k, v) \<in> set ?d \<longleftrightarrow> (k, v) \<in> ?R" for k v
  proof -
    have "(k, v) \<in> set ?d \<longleftrightarrow> map_of ?d k = Some v"
      using keys_distinct [of "[]" P f g xs] by simp
    also have "\<dots> \<longleftrightarrow> (\<exists>x. find (\<lambda>x. P x \<and> f x = k) (rev xs) = Some x \<and> v = g x)"
      unfolding map_of_fold_update by (auto split: option.splits)
    also have "\<dots> \<longleftrightarrow> (k, v) \<in> ?R"
    proof
      assume "\<exists>x. find (\<lambda>x. P x \<and> f x = k) (rev xs) = Some x \<and> v = g x"
      then show "(k, v) \<in> ?R" by (auto dest!: findD)
    next
      assume "(k, v) \<in> ?R"
      then show "\<exists>x. find (\<lambda>x. P x \<and> f x = k) (rev xs) = Some x \<and> v = g x"
        using find_unique [OF assms, of _ P] by auto
    qed
    finally show ?thesis .
  qed
  then show ?thesis by (simp add: set_eq_iff split_paired_all)
qed

section \<open>Who covers a process\<close>

definition in_tree :: "snapshot \<Rightarrow> ledger_record \<Rightarrow> pid \<Rightarrow> bool" where
  "in_tree os r p = (case lr_usage_pid r of None \<Rightarrow> False | Some u \<Rightarrow> p = u \<or> p \<in> descendants os u)"

definition in_live_scope :: "snapshot \<Rightarrow> ledger_record \<Rightarrow> pid \<Rightarrow> bool" where
  "in_live_scope os r p = (scope_is_live os r \<and> in_scope os p (scope_string (lr_scope_cgroup r)))"

definition covers :: "snapshot \<Rightarrow> ledger_record \<Rightarrow> pid \<Rightarrow> bool" where
  "covers os r p = (in_tree os r p \<or> in_live_scope os r p)"

lemma set_trees_of:
  assumes "distinct (map lr_path rs)"
  shows "set (trees_of os rs) = {(lr_path r, {q. in_tree os r q}) | r. r \<in> set rs \<and> lr_usage_pid r \<noteq> None}"
  unfolding trees_of_if set_fold_update [OF assms]
  by (auto simp: in_tree_def; force simp: in_tree_def)

lemma set_scopes_of:
  assumes "distinct (map lr_path rs)"
  shows "set (scopes_of os rs)
       = {(lr_path r, scope_string (lr_scope_cgroup r)) | r. r \<in> set rs \<and> scope_is_live os r}"
  unfolding scopes_of_def set_fold_update [OF assms] ..

lemma in_tree_usage: "in_tree os r p \<Longrightarrow> lr_usage_pid r \<noteq> None"
  by (auto simp: in_tree_def split: option.splits)

lemma no_tree:
  assumes "distinct (map lr_path rs)"
  shows "find (\<lambda>(k, tree). p \<in> tree) (trees_of os rs) = None \<longleftrightarrow> (\<forall>r\<in>set rs. \<not> in_tree os r p)"
proof -
  have "find (\<lambda>(k, tree). p \<in> tree) (trees_of os rs) = None
      \<longleftrightarrow> \<not> (\<exists>k t. (k, t) \<in> set (trees_of os rs) \<and> p \<in> t)"
    unfolding find_None_iff by auto
  also have "(\<exists>k t. (k, t) \<in> set (trees_of os rs) \<and> p \<in> t)
      \<longleftrightarrow> (\<exists>r\<in>set rs. lr_usage_pid r \<noteq> None \<and> in_tree os r p)"
    unfolding set_trees_of [OF assms] by auto
  finally show ?thesis using in_tree_usage by metis
qed

lemma no_scope:
  assumes "distinct (map lr_path rs)"
  shows "find (\<lambda>(k, scope). in_scope os p scope) (scopes_of os rs) = None
     \<longleftrightarrow> (\<forall>r\<in>set rs. \<not> in_live_scope os r p)"
proof -
  have "find (\<lambda>(k, scope). in_scope os p scope) (scopes_of os rs) = None
      \<longleftrightarrow> \<not> (\<exists>k s. (k, s) \<in> set (scopes_of os rs) \<and> in_scope os p s)"
    unfolding find_None_iff by auto
  also have "(\<exists>k s. (k, s) \<in> set (scopes_of os rs) \<and> in_scope os p s)
      \<longleftrightarrow> (\<exists>r\<in>set rs. in_live_scope os r p)"
    unfolding set_scopes_of [OF assms] in_live_scope_def by auto
  finally show ?thesis by blast
qed

lemma owner_of_None:
  assumes "distinct (map lr_path rs)"
  shows "owner_of os p (trees_of os rs) (scopes_of os rs) = None \<longleftrightarrow> (\<forall>r\<in>set rs. \<not> covers os r p)"
  using no_tree [OF assms, of p os] no_scope [OF assms, of os p]
  by (auto simp: owner_of_def covers_def split: option.splits)

lemma owner_of_Some:
  assumes "distinct (map lr_path rs)" and "owner_of os p (trees_of os rs) (scopes_of os rs) = Some k"
  shows "\<exists>r\<in>set rs. lr_path r = k \<and>
    (in_tree os r p \<or> in_live_scope os r p \<and> (\<forall>r'\<in>set rs. \<not> in_tree os r' p))"
proof (cases "find (\<lambda>(k, tree). p \<in> tree) (trees_of os rs)")
  case None
  then have "\<forall>r\<in>set rs. \<not> in_tree os r p" by (simp add: no_tree [OF assms(1)])
  moreover obtain s where "find (\<lambda>(k, scope). in_scope os p scope) (scopes_of os rs) = Some (k, s)"
    using assms(2) None by (auto simp: owner_of_def split: option.splits)
  from findD [OF this] have "(k, s) \<in> set (scopes_of os rs)" "in_scope os p s" by simp_all
  ultimately show ?thesis
    unfolding set_scopes_of [OF assms(1)] by (auto simp: in_live_scope_def)
next
  case (Some kt)
  moreover obtain k' t where "kt = (k', t)" by (cases kt)
  moreover have "k' = k" using assms(2) calculation by (simp add: owner_of_def)
  ultimately have "(k, t) \<in> set (trees_of os rs)" "p \<in> t" using findD [OF Some] by simp_all
  then show ?thesis unfolding set_trees_of [OF assms(1)] by auto
qed

section \<open>The attribution of a list of processes\<close>

definition charged_to :: "snapshot \<Rightarrow> ledger_record list \<Rightarrow> app \<Rightarrow> path option" where
  "charged_to os rs a = owner_of os (app_pid a) (trees_of os rs) (scopes_of os rs)"

lemma map_of_charge:
  "map_of (charge k a owned) k'
     = (if k' = k then Some ((case map_of owned k of None \<Rightarrow> [] | Some l \<Rightarrow> l) @ [a]) else map_of owned k')"
  by (simp add: charge_def update_conv')

definition nonempty :: "'a list \<Rightarrow> 'a list option" where
  "nonempty l = (if l = [] then None else Some l)"

lemma attribute_snoc:
  "attribute os (apps @ [a]) rs = (let (owned, unledgered) = attribute os apps rs
     in case charged_to os rs a of None \<Rightarrow> (owned, unledgered @ [a])
        | Some k \<Rightarrow> (charge k a owned, unledgered))"
  by (simp add: attribute_def charged_to_def Let_def split_beta split: option.splits)

lemma attribute_spec:
  "snd (attribute os apps rs) = filter (\<lambda>a. charged_to os rs a = None) apps
   \<and> map_of (fst (attribute os apps rs)) k = nonempty (filter (\<lambda>a. charged_to os rs a = Some k) apps)"
proof (induction apps rule: rev_induct)
  case Nil
  then show ?case by (simp add: attribute_def nonempty_def)
next
  case (snoc a apps)
  obtain owned unl where att: "attribute os apps rs = (owned, unl)" by fastforce
  show ?case
  proof (cases "charged_to os rs a")
    case None
    with snoc att show ?thesis by (simp add: attribute_snoc)
  next
    case (Some k')
    with snoc att show ?thesis
      by (auto simp: attribute_snoc map_of_charge nonempty_def)
  qed
qed

text \<open>\<open>attribute\<close> puts every visible process in exactly one place, in the order given: in
  the list of the record \<open>_owner_of\<close> names, or among the unledgered ones; no other key and no
  empty list appears.\<close>

lemma attribute_partition:
  "snd (attribute os apps rs) = filter (\<lambda>a. charged_to os rs a = None) apps
   \<and> (\<forall>k. map_of (fst (attribute os apps rs)) k
          = nonempty (filter (\<lambda>a. charged_to os rs a = Some k) apps))"
  by (simp add: attribute_spec)

section \<open>The records of the whole ledger\<close>

lemma map_filter_paths:
  assumes "distinct ns" and "\<And>n r. f n = Some r \<Longrightarrow> lr_path r = d @ [n]"
  shows "distinct (map lr_path (List.map_filter f ns))"
  using assms(1)
proof (induction ns)
  case (Cons n ns)
  have "lr_path r \<notin> lr_path ` set (List.map_filter f ns)" if "f n = Some r" for r
    using Cons.prems assms(2) [OF that] assms(2) by (fastforce simp: set_map_filter_iff)
  with Cons show ?case by (auto simp: List.map_filter_def image_image split: option.splits)
qed (simp add: List.map_filter_def)

lemma records_in_distinct: "distinct (map lr_path (records_in ldir fs))"
  unfolding records_in_def by (rule map_filter_paths) (auto dest: load_path)

lemma records_in_paths: "r \<in> set (records_in ldir fs) \<Longrightarrow> \<exists>n. lr_path r = ldir @ [n]"
  by (blast elim: records_in_member)

lemma ledger_paths_distinct:
  "distinct ns \<Longrightarrow> distinct (map lr_path (concat (map (\<lambda>n. records_in (d @ [n]) fs) ns)))"
proof (induction ns)
  case (Cons n ns)
  have "lr_path r \<noteq> lr_path r'"
    if "r \<in> set (records_in (d @ [n]) fs)" "m \<in> set ns" "r' \<in> set (records_in (d @ [m]) fs)" for r r' m
    using records_in_paths [OF that(1)] records_in_paths [OF that(3)] that(2) Cons.prems by auto
  then show ?case using Cons records_in_distinct by fastforce
qed simp

lemma all_records_distinct: "distinct (map lr_path (all_records d fs))"
proof -
  let ?new = "concat (map (\<lambda>n. records_in (d @ [n]) fs) (glob_dirs d ''.lock.d'' fs))"
  let ?old = "List.map_filter (\<lambda>n. load_legacy (d @ [n]) fs) (glob_names d ''.lock.json'' fs)"
  have "distinct (map lr_path ?new)"
    by (rule ledger_paths_distinct) (simp add: glob_dirs_def)
  moreover have "distinct (map lr_path ?old)"
    by (rule map_filter_paths) (auto dest: load_legacy_path)
  moreover have "length (lr_path r) = Suc (Suc (length d))" if "r \<in> set ?new" for r
    using that records_in_paths by fastforce
  moreover have "length (lr_path r) = Suc (length d)" if "r \<in> set ?old" for r
    using that by (fastforce simp: set_map_filter_iff dest: load_legacy_path)
  ultimately show ?thesis
    unfolding all_records_def map_append distinct_append by fastforce
qed

lemma live_distinct: "distinct (map lr_path rs) \<Longrightarrow> distinct (map lr_path (live_records os rs))"
  by (simp add: live_records_def distinct_map_filter)

text \<open>C11: against the live records of the whole ledger a process is unledgered exactly when no
  record covers it: it is in no record's process tree and in no record's live scope.\<close>

theorem unledgered_exactly_uncovered:
  "snd (attribute os apps (live_records os (all_records d fs)))
     = filter (\<lambda>a. \<not> list_ex (\<lambda>r. covers os r (app_pid a)) (live_records os (all_records d fs))) apps"
proof -
  have "distinct (map lr_path (live_records os (all_records d fs)))"
    by (rule live_distinct) (rule all_records_distinct)
  from owner_of_None [OF this] show ?thesis
    by (simp add: attribute_spec charged_to_def list_ex_iff)
qed

lemma charged_to_covers:
  assumes "charged_to os (live_records os (all_records d fs)) a = Some k"
  shows "\<exists>r\<in>set (live_records os (all_records d fs)). lr_path r = k \<and> covers os r (app_pid a)"
  using owner_of_Some [OF live_distinct [OF all_records_distinct] assms [unfolded charged_to_def]]
  by (auto simp: covers_def)

text \<open>A record that was admitted but whose process has not started, and that names no
  scope, is charged for nothing: it cannot adopt a stranger's process.\<close>

lemma unlaunched_owns_nothing:
  assumes "r \<in> set (all_records d fs)" and "lr_usage_pid r = None" and "lr_scope_pid r = None"
  shows "map_of (fst (attribute os apps (live_records os (all_records d fs)))) (lr_path r) = None"
proof -
  let ?rs = "live_records os (all_records d fs)"
  have "charged_to os ?rs a \<noteq> Some (lr_path r)" for a
  proof
    assume "charged_to os ?rs a = Some (lr_path r)"
    then obtain r' where r': "r' \<in> set ?rs" "lr_path r' = lr_path r" "covers os r' (app_pid a)"
      using charged_to_covers by blast
    moreover have "r' \<in> set (all_records d fs)" using r'(1) by (simp add: live_records_def)
    ultimately have "r' = r"
      using assms(1) all_records_distinct [of d fs] by (meson distinct_map inj_onD)
    with r'(3) assms(2,3) show False
      by (simp add: covers_def in_tree_def in_live_scope_def scope_is_live_def)
  qed
  then have "filter (\<lambda>a. charged_to os ?rs a = Some (lr_path r)) apps = []"
    by (simp add: filter_empty_conv)
  then show ?thesis by (simp add: attribute_spec nonempty_def)
qed

definition admitted_only :: ledger_record where
  "admitted_only = \<lparr>lr_path = [''locks'', ''k.lock.d'', ''10.aa.json''], lr_pid = 10, lr_usage_pid = None,
     lr_vram_mb = Some 4000, lr_owner = PStr ''alice'', lr_cmd = [], lr_started_at = PStr [],
     lr_key = PStr ''k'', lr_scope_pid = None, lr_scope_cgroup = PNone\<rparr>"

lemma unlaunched_owns_nothing_witness:
  "map_of (fst (attribute quiet_box [\<lparr>app_pid = 11, app_used_mb = Some 500, app_name = ''python''\<rparr>]
      (live_records quiet_box (all_records [''locks''] (write_record admitted_only [])))))
      [''locks'', ''k.lock.d'', ''10.aa.json''] = None"
proof -
  have "list_ex (\<lambda>r. r = admitted_only) (all_records [''locks''] (write_record admitted_only []))"
    by code_simp
  then have "admitted_only \<in> set (all_records [''locks''] (write_record admitted_only []))"
    by (simp add: list_ex_iff)
  from unlaunched_owns_nothing [OF this] show ?thesis by (simp add: admitted_only_def)
qed

end
