(* ===== verification/Claim.thy ===== *)
theory Claim
  imports Config Attribution
begin

text \<open>
  \<open>src/gpuqueue/claim.py\<close>: the directories a claim may be in, the sweep of dead records, the
  capacity a hand-run claim admits against, and the claim itself with its wait.
  \<open>Path.resolve\<close> and the permission to unlink are answers of the operating system and
  arguments here; the lengths of the sleeps between two tries are not modelled.
\<close>

definition DEFAULT_CLAIM_DIR :: path where
  "DEFAULT_CLAIM_DIR = [''/'', ''var'', ''lock'', ''gpu'']"

text \<open>\<open>env\<close> is \<open>$GPU_CLAIM_DIR\<close> of the calling process.\<close>

definition claim_dir :: "string option \<Rightarrow> path" where
  "claim_dir env = (case env of None \<Rightarrow> DEFAULT_CLAIM_DIR | Some s \<Rightarrow> path_parts s)"

section \<open>Every directory a claim could be in\<close>

text \<open>\<open>resolve\<close> answers \<open>None\<close> where \<open>Path.resolve\<close> raises OSError.\<close>

definition location :: "(path \<Rightarrow> path option) \<Rightarrow> path \<Rightarrow> path" where
  "location resolve d = (case resolve d of None \<Rightarrow> d | Some k \<Rightarrow> k)"

fun first_spellings :: "(path \<Rightarrow> path option) \<Rightarrow> path list \<Rightarrow> path list \<Rightarrow> path list" where
  "first_spellings resolve seen [] = []"
| "first_spellings resolve seen (d # ds) =
     (if location resolve d \<in> set seen then first_spellings resolve seen ds
      else d # first_spellings resolve (location resolve d # seen) ds)"

definition all_claim_dirs :: "(path \<Rightarrow> path option) \<Rightarrow> string option \<Rightarrow> path option \<Rightarrow> path list" where
  "all_claim_dirs resolve env extra = first_spellings resolve []
     ([claim_dir env, DEFAULT_CLAIM_DIR] @ (case extra of None \<Rightarrow> [] | Some d \<Rightarrow> [d]))"

lemma first_spellings_locations:
  "set (map (location resolve) (first_spellings resolve seen ds))
     = location resolve ` set ds - set seen
   \<and> distinct (map (location resolve) (first_spellings resolve seen ds))"
  by (induction resolve seen ds rule: first_spellings.induct) auto

lemma first_spellings_sub: "set (first_spellings resolve seen ds) \<subseteq> set ds"
  by (induction resolve seen ds rule: first_spellings.induct) auto

text \<open>\<open>all_claim_dirs\<close> names every place a claim of this box could be in - the caller's
  own directory, the default and the configured one - each location once, and the caller's
  own first.\<close>

lemma all_claim_dirs_complete:
  "set (map (location resolve) (all_claim_dirs resolve env extra))
     = location resolve ` ({claim_dir env, DEFAULT_CLAIM_DIR} \<union> set_option extra)
   \<and> distinct (map (location resolve) (all_claim_dirs resolve env extra))
   \<and> hd (all_claim_dirs resolve env extra) = claim_dir env"
proof -
  let ?ds = "[claim_dir env, DEFAULT_CLAIM_DIR] @ (case extra of None \<Rightarrow> [] | Some d \<Rightarrow> [d])"
  have "set ?ds = {claim_dir env, DEFAULT_CLAIM_DIR} \<union> set_option extra"
    by (auto split: option.splits)
  moreover have "hd (first_spellings resolve [] ?ds) = claim_dir env" by simp
  ultimately show ?thesis
    using first_spellings_locations [of resolve "[]" ?ds] unfolding all_claim_dirs_def by simp
qed

section \<open>The sweep of dead records\<close>

text \<open>\<open>deny\<close> is the strerror with which the kernel refuses to unlink a path, if it does.\<close>

type_synonym sweep_state = "claims \<times> ledger_record list \<times> (ledger_record \<times> string) list"

definition sweep_record :: "snapshot \<Rightarrow> (path \<Rightarrow> string option) \<Rightarrow> ledger_record
    \<Rightarrow> sweep_state \<Rightarrow> sweep_state" where
  "sweep_record os deny r = (\<lambda>(fs, released, stuck).
     if pid_alive os (lr_pid r) then (fs, released, stuck)
     else (case deny (lr_path r) of
         Some e \<Rightarrow> (fs, released, stuck @ [(r, e)])
       | None \<Rightarrow> (remove_record r fs, released @ [r], stuck)))"

definition sweep_one :: "snapshot \<Rightarrow> (path \<Rightarrow> string option) \<Rightarrow> path \<Rightarrow> sweep_state \<Rightarrow> sweep_state" where
  "sweep_one os deny d st = fold (sweep_record os deny) (all_records d (fst st)) st"

definition sweep_stale :: "snapshot \<Rightarrow> (path \<Rightarrow> string option) \<Rightarrow> path list \<Rightarrow> claims \<Rightarrow> sweep_state" where
  "sweep_stale os deny dirs fs = fold (sweep_one os deny) dirs (fs, [], [])"

definition release_stale :: "snapshot \<Rightarrow> (path \<Rightarrow> string option) \<Rightarrow> string option \<Rightarrow> path option
    \<Rightarrow> claims \<Rightarrow> ledger_record list \<times> claims" where
  "release_stale os deny env directory fs =
    (let d = (case directory of None \<Rightarrow> claim_dir env | Some p \<Rightarrow> p);
         (fs', released, stuck) = sweep_stale os deny [d] fs
     in (released, fs'))"

definition list_claims :: "string option \<Rightarrow> path option \<Rightarrow> claims \<Rightarrow> (path \<times> pydict) list" where
  "list_claims env directory fs =
    map (\<lambda>r. (lr_path r, record_dict r))
      (all_records (case directory of None \<Rightarrow> claim_dir env | Some p \<Rightarrow> p) fs)"

section \<open>Abandoned jobs and the card's capacity\<close>

definition job_orphaned :: "snapshot \<Rightarrow> pid option \<Rightarrow> pid option \<Rightarrow> bool" where
  "job_orphaned os job_pid runner_pid =
    (case job_pid of None \<Rightarrow> False
     | Some p \<Rightarrow> if p = 0 \<or> \<not> pid_alive os p then False
         else (case runner_pid of None \<Rightarrow> False | Some r \<Rightarrow> \<not> pid_alive os r))"

definition default_usable_mb :: "config_file \<Rightarrow> snapshot \<Rightarrow> nat \<Rightarrow> mib option" where
  "default_usable_mb c os index =
    (let (card_mb, reserve) = vram_policy c;
         t = (if card_mb \<noteq> None \<and> index = 0 then card_mb else total_vram_mb os index)
     in (case t of None \<Rightarrow> None
         | Some mb \<Rightarrow> if mb - reserve > 0 then Some (mb - reserve) else None))"

section \<open>Holding a share of the card\<close>

text \<open>
  One attempt of the wait loop sees the operating system, the mutex, a token, a time stamp, the
  files and the configuration as they are then.
\<close>

record attempt =
  at_os :: snapshot
  at_mutex :: mutex_result
  at_token :: string
  at_now :: string
  at_files :: claims
  at_config :: config_file

datatype claim_error = NotADeclaration pyval | NoCard gpuid_error | ClaimFailed claim_refusal

fun declared_share :: "pyval \<Rightarrow> mib option option" where
  "declared_share PNone = Some None"
| "declared_share (PInt i) = (if i \<le> 0 then None else Some (Some i))"
| "declared_share _ = None"

record claim_args =
  ca_key :: string
  ca_owner :: pyval
  ca_cmd :: "pyval list"
  ca_dir :: path
  ca_share :: "mib option"
  ca_own_usage :: bool
  ca_max_holders :: "int option"
  ca_scope_pid :: "pid option"
  ca_scope_cgroup :: pyval

definition try_acquire :: "claim_args \<Rightarrow> mib option \<Rightarrow> attempt
    \<Rightarrow> (claim_refusal + ledger_record) \<times> claims" where
  "try_acquire a usable t = acquire (at_os t) (at_mutex t) (at_token t) (at_now t) (ca_key a) (ca_share a)
     (ca_owner a) (ca_cmd a) (ca_dir a) usable
     (if ca_own_usage a then Some (own_pid (at_os t)) else None)
     (ca_max_holders a) (ca_scope_pid a) (ca_scope_cgroup a) (at_files t)"

text \<open>\<open>None\<close>: still waiting when the attempts listed have gone by.\<close>

fun claim_loop :: "bool \<Rightarrow> bool \<Rightarrow> claim_args \<Rightarrow> mib option \<Rightarrow> attempt list
    \<Rightarrow> (claim_error + ledger_record \<times> claims) option" where
  "claim_loop wait ours a usable [] = None"
| "claim_loop wait ours a usable (t # ts) =
    (case try_acquire a usable t of
       (Inr r, fs) \<Rightarrow> Some (Inr (r, fs))
     | (Inl (OSRaised e), fs) \<Rightarrow> Some (Inl (ClaimFailed (OSRaised e)))
     | (Inl e, fs) \<Rightarrow>
         if \<not> wait then Some (Inl (ClaimFailed e))
         else if ours \<and> usable = None then
           (let usable' = default_usable_mb (at_config t) (at_os t) 0 in
            if exceeds_capacity (of_int_opt (ca_share a)) usable'
            then Some (Inl (ClaimFailed CannotEverFit))
            else claim_loop wait ours a usable' ts)
         else claim_loop wait ours a usable ts)"

text \<open>
  \<open>usable\<close> is \<open>None\<close> when the argument is omitted, \<open>max_holders\<close> likewise; \<open>os\<close> and \<open>c\<close> are
  what the code sees before the loop.  Leaving the context removes the record.
\<close>

definition gpu_claim :: "snapshot \<Rightarrow> config_file \<Rightarrow> string \<Rightarrow> pyval \<Rightarrow> bool \<Rightarrow> claim_args
    \<Rightarrow> mib option option \<Rightarrow> int option option \<Rightarrow> attempt list
    \<Rightarrow> (claim_error + ledger_record \<times> claims) option" where
  "gpu_claim os c key vram_mb wait a usable_mb holders ts =
    (case declared_share vram_mb of None \<Rightarrow> Some (Inl (NotADeclaration vram_mb))
     | Some share \<Rightarrow>
       (case (if key \<noteq> [] then Inr key else gpu_key os 0) of
          Inl e \<Rightarrow> Some (Inl (NoCard e))
        | Inr k \<Rightarrow>
          (let usable = (case usable_mb of None \<Rightarrow> default_usable_mb c os 0 | Some u \<Rightarrow> u);
               mh = (case holders of None \<Rightarrow> Some (max_holders c) | Some h \<Rightarrow> h)
           in if exceeds_capacity (of_int_opt share) usable then Some (Inl (ClaimFailed CannotEverFit))
              else claim_loop wait (usable_mb = None)
                     (a\<lparr>ca_key := k, ca_share := share, ca_max_holders := mh\<rparr>) usable ts)))"

section \<open>The sweep removes the dead and only the dead\<close>

lemma two_elements: "length q = Suc (Suc 0) \<Longrightarrow> \<exists>n m. q = [n, m]"
  by (auto simp: length_Suc_conv)

lemma set_glob_dirs:
  "set (glob_dirs d suf fs) = {n. ends_with n suf \<and> (\<exists>m. read_file fs (d @ [n, m]) \<noteq> None)}"
proof -
  have two: "length p = length d + 2 \<and> take (length d) p = d \<longleftrightarrow> (\<exists>n m. p = d @ [n, m])" for p :: path
  proof
    assume p: "length p = length d + 2 \<and> take (length d) p = d"
    then have "length (drop (length d) p) = Suc (Suc 0)" by simp
    from two_elements [OF this] obtain n m where "drop (length d) p = [n, m]" by blast
    with p show "\<exists>n m. p = d @ [n, m]" by (metis append_take_drop_id)
  qed auto
  have "set (glob_dirs d suf fs)
      = (\<lambda>p. p ! length d) ` {p \<in> fst ` set fs. length p = length d + 2 \<and> take (length d) p = d
           \<and> ends_with (p ! length d) suf}"
    by (simp add: glob_dirs_def)
  also have "\<dots> = (\<lambda>p. p ! length d) ` {p \<in> fst ` set fs. (\<exists>n m. p = d @ [n, m]) \<and> ends_with (p ! length d) suf}"
    unfolding two [symmetric] by (simp only: conj_assoc)
  also have "\<dots> = {n. ends_with n suf \<and> (\<exists>m. d @ [n, m] \<in> fst ` set fs)}"
    by (force simp: nth_append)
  finally show ?thesis by (simp add: read_file_def map_of_eq_None_iff)
qed

lemma load_there: "load p fs = Some x \<Longrightarrow> \<exists>c. read_file fs p = Some c"
  by (cases "read_file fs p") (simp_all add: load_def)

lemma in_all_records:
  "r \<in> set (all_records d fs) \<longleftrightarrow>
     (\<exists>n m. ends_with n ''.lock.d'' \<and> ends_with m ''.json'' \<and> load (d @ [n, m]) fs = Some r)
   \<or> (\<exists>m. ends_with m ''.lock.json'' \<and> load_legacy (d @ [m]) fs = Some r)"
proof -
  have new: "(\<exists>n\<in>set (glob_dirs d ''.lock.d'' fs). r \<in> set (records_in (d @ [n]) fs)) \<longleftrightarrow>
      (\<exists>n m. ends_with n ''.lock.d'' \<and> ends_with m ''.json'' \<and> load (d @ [n, m]) fs = Some r)"
    using load_there by (fastforce simp: set_glob_dirs records_in_def set_map_filter_iff set_glob_names)
  have old: "(\<exists>m\<in>set (glob_names d ''.lock.json'' fs). load_legacy (d @ [m]) fs = Some r) \<longleftrightarrow>
      (\<exists>m. ends_with m ''.lock.json'' \<and> load_legacy (d @ [m]) fs = Some r)"
    using load_there by (fastforce simp: set_glob_names load_legacy_def)
  show ?thesis
    unfolding new [symmetric] old [symmetric] by (simp add: all_records_def set_map_filter_iff)
qed

lemma load_remove: "load q (remove_record r fs) = Some x \<longleftrightarrow> load q fs = Some x \<and> lr_path x \<noteq> lr_path r"
proof (cases "q = lr_path r")
  case True
  then show ?thesis by (auto simp: load_gone remove_record_def store_laws dest: load_path)
next
  case False
  then have "load q (remove_record r fs) = load q fs"
    by (intro load_cong) (simp add: remove_record_def store_laws)
  with False show ?thesis by (auto dest: load_path)
qed

lemma load_legacy_remove:
  "load_legacy q (remove_record r fs) = Some x \<longleftrightarrow> load_legacy q fs = Some x \<and> lr_path x \<noteq> lr_path r"
  by (auto simp: load_legacy_def load_remove)

lemma all_records_remove:
  "set (all_records d (remove_record r fs)) = {x \<in> set (all_records d fs). lr_path x \<noteq> lr_path r}"
  unfolding set_eq_iff mem_Collect_eq in_all_records load_remove load_legacy_remove by blast

text \<open>Whether a record is dead depends on its file alone, whichever directory it is read from.\<close>

definition removable :: "snapshot \<Rightarrow> (path \<Rightarrow> string option) \<Rightarrow> ledger_record \<Rightarrow> bool" where
  "removable os deny r = (\<not> pid_alive os (lr_pid r) \<and> deny (lr_path r) = None)"

lemma same_file_same_pid:
  assumes "x \<in> set (all_records d fs)" and "y \<in> set (all_records d' fs)" and "lr_path x = lr_path y"
  shows "lr_pid x = lr_pid y"
proof -
  have "\<exists>z. load (lr_path r) fs = Some z \<and> lr_pid z = lr_pid r" if "r \<in> set (all_records e fs)" for r e
    using that unfolding in_all_records
  proof (elim disjE exE conjE)
    fix n m
    assume "load (e @ [n, m]) fs = Some r"
    then show ?thesis using load_path [of "e @ [n, m]" fs r] by simp
  next
    fix m
    assume "load_legacy (e @ [m]) fs = Some r"
    then obtain z where "load (e @ [m]) fs = Some z" "lr_path r = lr_path z" "lr_pid r = lr_pid z"
      by (auto simp: load_legacy_def)
    then show ?thesis using load_path [of "e @ [m]" fs z] by simp
  qed
  from this [OF assms(1)] this [OF assms(2)] assms(3) show ?thesis by auto
qed

lemma sweep_record_fs:
  "fst (sweep_record os deny r st) = (if removable os deny r then remove_record r (fst st) else fst st)"
  by (auto simp: sweep_record_def removable_def split: prod.splits option.splits)

lemma fold_sweep_record:
  "set (all_records d (fst (fold (sweep_record os deny) rs st)))
     = {x \<in> set (all_records d (fst st)). \<forall>r\<in>set rs. removable os deny r \<longrightarrow> lr_path x \<noteq> lr_path r}"
  by (induction rs arbitrary: st) (auto simp: sweep_record_fs all_records_remove)

lemma sweep_one_records:
  "set (all_records d (fst (sweep_one os deny e st)))
     = {x \<in> set (all_records d (fst st)). \<not> (removable os deny x \<and>
          (\<exists>r\<in>set (all_records e (fst st)). lr_path r = lr_path x))}"
proof -
  have same: "removable os deny r \<longleftrightarrow> removable os deny x"
    if "r \<in> set (all_records e (fst st))" "x \<in> set (all_records d (fst st))" "lr_path r = lr_path x" for r x
    using same_file_same_pid [OF that] that(3) by (simp add: removable_def)
  show ?thesis
    unfolding sweep_one_def fold_sweep_record set_eq_iff mem_Collect_eq using same by metis
qed

lemma fold_sweep_one_sub:
  "set (all_records d (fst (fold (sweep_one os deny) ds st))) \<subseteq> set (all_records d (fst st))"
proof (induction ds arbitrary: st)
  case (Cons e ds)
  have "set (all_records d (fst (fold (sweep_one os deny) ds (sweep_one os deny e st))))
      \<subseteq> set (all_records d (fst (sweep_one os deny e st)))" by (rule Cons.IH)
  then show ?case by (auto simp: sweep_one_records)
qed simp

lemma fold_sweep_one_keeps:
  assumes "x \<in> set (all_records d (fst st))" and "\<not> removable os deny x"
  shows "x \<in> set (all_records d (fst (fold (sweep_one os deny) ds st)))"
  using assms(1)
proof (induction ds arbitrary: st)
  case (Cons e ds)
  have "x \<in> set (all_records d (fst (sweep_one os deny e st)))"
    using Cons.prems assms(2) by (simp add: sweep_one_records)
  then show ?case using Cons.IH by simp
qed simp

lemma fold_sweep_one_clears:
  assumes "x \<in> set (all_records d (fst (fold (sweep_one os deny) ds st)))" and "d \<in> set ds"
  shows "\<not> removable os deny x"
  using assms
proof (induction ds arbitrary: st)
  case (Cons e ds)
  show ?case
  proof (cases "d \<in> set ds")
    case True
    then show ?thesis using Cons by simp
  next
    case False
    with Cons.prems have "d = e" by simp
    moreover have "x \<in> set (all_records d (fst (sweep_one os deny e st)))"
      using Cons.prems(1) fold_sweep_one_sub [of d os deny ds "sweep_one os deny e st"] by auto
    ultimately show ?thesis by (auto simp: sweep_one_records)
  qed
qed simp

lemma sweep_stale_records:
  assumes "d \<in> set dirs"
  shows "set (all_records d (fst (sweep_stale os deny dirs fs)))
     = {r \<in> set (all_records d fs). pid_alive os (lr_pid r) \<or> deny (lr_path r) \<noteq> None}"
proof -
  have "r \<in> set (all_records d (fst (sweep_stale os deny dirs fs)))
      \<longleftrightarrow> r \<in> set (all_records d fs) \<and> \<not> removable os deny r" for r
    using fold_sweep_one_sub [of d os deny dirs "(fs, [], [])"]
      fold_sweep_one_keeps [of r d "(fs, [], [])" os deny dirs]
      fold_sweep_one_clears [OF _ assms, of r os deny "(fs, [], [])"]
    unfolding sweep_stale_def by auto
  then show ?thesis by (auto simp: removable_def)
qed

text \<open>C29: the sweep leaves in every directory it is given exactly the records whose process is
  alive or whose file the kernel would not let it remove: no dead record stays behind to
  exempt whatever process gets its pid, and no live claim is lost.\<close>

theorem sweep_removes_exactly_the_dead:
  assumes "d \<in> set dirs"
  shows "set (all_records d (fst (sweep_stale os deny dirs fs)))
     = {r \<in> set (all_records d fs). pid_alive os (lr_pid r) \<or> deny (lr_path r) \<noteq> None}"
  using assms by (rule sweep_stale_records)

definition two_claims :: claims where
  "two_claims = write_record admitted_only (write_record (admitted_only
     \<lparr>lr_path := [''locks'', ''k.lock.d'', ''99.bb.json''], lr_pid := 99\<rparr>) [])"

lemma sweep_removes_exactly_the_dead_witness:
  "length (all_records [''locks''] two_claims) = 2
   \<and> set (all_records [''locks''] (fst (sweep_stale quiet_box (\<lambda>p. None) [[''locks'']] two_claims)))
       = {r \<in> set (all_records [''locks''] two_claims). pid_alive quiet_box (lr_pid r)}"
proof -
  have "length (all_records [''locks''] two_claims) = 2" by code_simp
  then show ?thesis
    using sweep_removes_exactly_the_dead [of "[''locks'']" "[[''locks'']]" quiet_box "\<lambda>p. None" two_claims]
    by simp
qed

section \<open>What a claim comes to\<close>

lemma claim_loop_declaration: "claim_loop wait ours a usable ts \<noteq> Some (Inl (NotADeclaration v))"
  by (induction wait ours a usable ts rule: claim_loop.induct)
    (auto split: prod.splits sum.splits claim_refusal.splits if_splits simp: Let_def)

text \<open>A declaration is refused as such exactly when it is neither absent nor a positive
  integer: booleans, zero, negative numbers, floats and strings never reach the ledger's sum.\<close>

lemma claim_declaration_checked:
  "gpu_claim os c key v wait a usable_mb holders ts = Some (Inl (NotADeclaration v))
     \<longleftrightarrow> \<not> (v = PNone \<or> (\<exists>i. 0 < i \<and> v = PInt i))"
proof (cases "declared_share v")
  case None
  then show ?thesis by (cases v) (auto simp: gpu_claim_def split: if_splits)
next
  case (Some share)
  then have "v = PNone \<or> (\<exists>i. 0 < i \<and> v = PInt i)"
    by (cases v) (auto split: if_splits)
  moreover have "gpu_claim os c key v wait a usable_mb holders ts \<noteq> Some (Inl (NotADeclaration v))"
    using Some claim_loop_declaration by (auto simp: gpu_claim_def Let_def split: sum.splits)
  ultimately show ?thesis by simp
qed

lemma claim_loop_decides:
  assumes "\<And>t e. t \<in> set pre \<Longrightarrow> at_mutex t \<noteq> MutexRaised e"
    and "ours \<longrightarrow> usable \<noteq> None" and "fst (try_acquire a usable t) = Inr r"
  shows "\<exists>x. claim_loop True ours a usable (pre @ t # post) = Some (Inr x)"
  using assms(1)
proof (induction pre)
  case Nil
  then show ?case using assms(3) by (cases "try_acquire a usable t") simp
next
  case (Cons s pre)
  then have IH: "\<exists>x. claim_loop True ours a usable (pre @ t # post) = Some (Inr x)" by simp
  obtain res fs where s: "try_acquire a usable s = (res, fs)" by fastforce
  show ?case
  proof (cases res)
    case (Inl e)
    have "\<not> (\<exists>x. e = OSRaised x)"
      using Cons.prems [of s] s Inl
      by (auto simp: try_acquire_def acquire_def Let_def split: mutex_result.splits if_splits)
    with s Inl IH assms(2) show ?thesis by (auto split: claim_refusal.splits)
  qed (use s in simp)
qed

text \<open>C28: a waiting claim of a size the card has is granted no later than the first attempt
  that has the mutex and finds room among the live holders, however many refusals - the card
  full, closed, or the mutex held - came before.\<close>

theorem waiting_claim_granted:
  assumes "0 < w" and "w \<le> u" and "key \<noteq> []"
    and "list_all (\<lambda>t. case at_mutex t of MutexRaised e \<Rightarrow> False | _ \<Rightarrow> True) pre"
    and "at_mutex t = Locked"
    and "fits (live_records (at_os t) (records_for key (ca_dir a) (at_files t))) (Some w) (Some u) mh"
  shows "\<exists>r fs. gpu_claim os c key (PInt w) True a (Some (Some u)) (Some mh) (pre @ t # post) = Some (Inr (r, fs))"
proof -
  let ?a = "a\<lparr>ca_key := key, ca_share := Some w, ca_max_holders := mh\<rparr>"
  have "fst (try_acquire ?a (Some u) t) \<in> range Inr"
    using assms(5,6) by (auto simp: try_acquire_def acquire_def Let_def)
  then obtain r where "fst (try_acquire ?a (Some u) t) = Inr r" by auto
  moreover have "s \<in> set pre \<Longrightarrow> at_mutex s \<noteq> MutexRaised e" for s e
    using assms(4) by (auto simp: list_all_iff)
  ultimately have "\<exists>x. claim_loop True False ?a (Some u) (pre @ t # post) = Some (Inr x)"
    by (intro claim_loop_decides) auto
  then show ?thesis using assms(1-3) by (auto simp: gpu_claim_def exceeds_capacity_def)
qed

definition calm :: "mutex_result \<Rightarrow> attempt" where
  "calm m = \<lparr>at_os = quiet_box, at_mutex = m, at_token = ''c0ffee'', at_now = ''2025-01-01T00:00:00Z'',
     at_files = [], at_config = NoFile\<rparr>"

definition shell_claim :: claim_args where
  "shell_claim = \<lparr>ca_key = [], ca_owner = PStr ''bob'', ca_cmd = [], ca_dir = [''locks''], ca_share = None,
     ca_own_usage = True, ca_max_holders = None, ca_scope_pid = None, ca_scope_cgroup = PNone\<rparr>"

lemma waiting_claim_granted_witness:
  "\<exists>r fs. gpu_claim quiet_box NoFile ''GPU-ab'' (PInt 512) True shell_claim (Some (Some 7680)) (Some (Some 2))
     ([calm TimedOut, calm TimedOut] @ calm Locked # []) = Some (Inr (r, fs))"
proof (rule waiting_claim_granted)
  show "fits (live_records (at_os (calm Locked)) (records_for ''GPU-ab'' (ca_dir shell_claim) (at_files (calm Locked))))
      (Some 512) (Some 7680) (Some 2)" by code_simp
qed (simp_all add: calm_def)

end
