(* ===== verification/Preflight.thy ===== *)
theory Preflight
  imports Claim
begin

text \<open>
  \<open>src/gpuqueue/preflight.py\<close>: the CUDA processes \<open>nvidia-smi\<close> shows, which of them nobody
  has claimed capacity for, and the two exemptions the orphan sweep reads over every claim
  directory.  The text of the refusal and of the warning is not modelled.
\<close>

definition parse_app :: "string \<Rightarrow> app option" where
  "parse_app line =
    (let parts = map strip (split_on CHR '','' line) in
     if length parts < 3 \<or> \<not> all_digits (parts ! 0) then None
     else (let mem = strip (erase ''MiB'' (parts ! 1)) in
       map_option (\<lambda>p. \<lparr>app_pid = p, app_used_mb = (if all_digits mem then int_of_string mem else None),
                       app_name = parts ! 2\<rparr>) (int_of_string (parts ! 0))))"

definition compute_apps :: "snapshot \<Rightarrow> app list option" where
  "compute_apps os = (case smi_apps os of None \<Rightarrow> None
     | Some out \<Rightarrow> if contains ''not supported'' (lower out) then None
         else Some (List.map_filter parse_app (filter (\<lambda>l. l \<noteq> []) (map strip (splitlines out)))))"

section \<open>Who is accounted for\<close>

definition record_pids :: "snapshot \<Rightarrow> ledger_record \<Rightarrow> pid set" where
  "record_pids os r = insert (lr_pid r) (case lr_usage_pid r of
      Some u \<Rightarrow> insert u (descendants os u) | None \<Rightarrow> descendants os (lr_pid r))"

definition own_pids :: "snapshot \<Rightarrow> path list \<Rightarrow> claims \<Rightarrow> pid set" where
  "own_pids os dirs fs = {own_pid os, own_ppid os} \<union> descendants os (own_pid os)
     \<union> \<Union> (set (map (record_pids os) (concat (map (\<lambda>d. live_records os (all_records d fs)) dirs))))"

definition own_scopes :: "snapshot \<Rightarrow> path list \<Rightarrow> claims \<Rightarrow> string set" where
  "own_scopes os dirs fs = set (map (\<lambda>r. scope_string (lr_scope_cgroup r))
     (filter (\<lambda>r. truthy (lr_scope_cgroup r) \<and> scope_is_live os r)
       (concat (map (\<lambda>d. live_records os (all_records d fs)) dirs))))"

definition own_tree :: "snapshot \<Rightarrow> pid set \<Rightarrow> pid set" where
  "own_tree os allow = allow \<union> {own_pid os, own_ppid os} \<union> descendants os (own_pid os)"

definition unledgered_processes :: "snapshot \<Rightarrow> pid set \<Rightarrow> string option \<Rightarrow> path option
    \<Rightarrow> claims \<Rightarrow> app list" where
  "unledgered_processes os allow env directory fs = (case compute_apps os of None \<Rightarrow> []
     | Some apps \<Rightarrow>
       (let d = (case directory of None \<Rightarrow> claim_dir env | Some p \<Rightarrow> p);
            unledgered = snd (attribute os apps (live_records os (all_records d fs)))
        in filter (\<lambda>a. app_pid a \<notin> own_tree os allow) unledgered))"

datatype preflight_result = CannotSee | CardClear | Strangers "app list"

definition preflight :: "snapshot \<Rightarrow> pid set \<Rightarrow> string option \<Rightarrow> path option \<Rightarrow> string option
    \<Rightarrow> claims \<Rightarrow> preflight_result" where
  "preflight os allow env directory scope fs = (case compute_apps os of None \<Rightarrow> CannotSee
     | Some apps \<Rightarrow>
       (let d = (case directory of None \<Rightarrow> claim_dir env | Some p \<Rightarrow> p);
            unledgered = snd (attribute os apps (live_records os (all_records d fs)));
            stray = filter (\<lambda>a. app_pid a \<notin> own_tree os allow) unledgered;
            stray' = (case scope of None \<Rightarrow> stray
              | Some s \<Rightarrow> if s = [] then stray else filter (\<lambda>a. \<not> in_scope os (app_pid a) s) stray)
        in if stray' = [] then CardClear else Strangers stray'))"

section \<open>What preflight lets pass\<close>

definition tolerated :: "snapshot \<Rightarrow> pid set \<Rightarrow> string option \<Rightarrow> ledger_record list \<Rightarrow> app \<Rightarrow> bool" where
  "tolerated os allow scope rs a \<longleftrightarrow> list_ex (\<lambda>r. covers os r (app_pid a)) rs
     \<or> app_pid a \<in> own_tree os allow
     \<or> (case scope of None \<Rightarrow> False | Some s \<Rightarrow> in_scope os (app_pid a) s)"

lemma in_scope_empty [simp]: "\<not> in_scope os p []"
  by (simp add: in_scope_def)

lemma unledgered_live:
  "snd (attribute os apps (live_records os (all_records d fs)))
     = filter (\<lambda>a. \<not> list_ex (\<lambda>r. covers os r (app_pid a)) (live_records os (all_records d fs))) apps"
  using owner_of_None [OF live_distinct [OF all_records_distinct [of d fs], of os], of os]
  by (simp add: attribute_spec charged_to_def list_ex_iff)

text \<open>C36: preflight refuses with exactly the visible CUDA processes that no live record of the
  claim directory covers, that are outside the caller's own tree and outside the scope about
  to be claimed; it passes when there is none, and where the list cannot be seen it says so
  instead of calling the card clear.\<close>

theorem preflight_refuses_exactly_strangers:
  "preflight os allow env directory scope fs = (case compute_apps os of None \<Rightarrow> CannotSee
     | Some apps \<Rightarrow>
       (let rs = live_records os (all_records (case directory of None \<Rightarrow> claim_dir env | Some p \<Rightarrow> p) fs);
            strangers = filter (\<lambda>a. \<not> tolerated os allow scope rs a) apps
        in if strangers = [] then CardClear else Strangers strangers))"
proof (cases "compute_apps os")
  case (Some apps)
  let ?d = "case directory of None \<Rightarrow> claim_dir env | Some p \<Rightarrow> p"
  let ?unl = "snd (attribute os apps (live_records os (all_records ?d fs)))"
  let ?stray = "filter (\<lambda>a. app_pid a \<notin> own_tree os allow) ?unl"
  have "(case scope of None \<Rightarrow> ?stray
      | Some s \<Rightarrow> if s = [] then ?stray else filter (\<lambda>a. \<not> in_scope os (app_pid a) s) ?stray)
    = filter (\<lambda>a. \<not> tolerated os allow scope (live_records os (all_records ?d fs)) a) apps"
    unfolding unledgered_live
    by (auto simp: tolerated_def split: option.splits intro!: filter_cong)
  with Some show ?thesis by (simp add: preflight_def Let_def)
qed (simp add: preflight_def)

end
