(* ===== verification/Killlog.thy ===== *)
theory Killlog
  imports Prelude
begin

text \<open>
  \<open>src/gpuqueue/killlog.py\<close>: the record of the orphan sweep's kills.  A line of the file is a
  JSON value or something that does not parse; the file is replaced as a whole.
\<close>

datatype kill_line = KillEntry pyval | Unparsed string

definition MAX_ENTRIES :: nat where
  "MAX_ENTRIES = 1000"

text \<open>\<open>xs[-n:]\<close> for a positive \<open>n\<close>.\<close>

definition last_n :: "nat \<Rightarrow> 'a list \<Rightarrow> 'a list" where
  "last_n n xs = drop (length xs - n) xs"

text \<open>\<open>{**e, "ts": ts, "reason": ..., "ledgers_consulted": ...}\<close>.\<close>

definition kill_entry :: "string \<Rightarrow> string list \<Rightarrow> pydict \<Rightarrow> kill_line" where
  "kill_entry ts consulted e = KillEntry (PDict
     (AList.update ''ledgers_consulted'' (PList (map PStr consulted))
       (AList.update ''reason'' (PStr ''orphan_sweep_unledgered'') (AList.update ''ts'' (PStr ts) e))))"

text \<open>The file's lines, \<open>None\<close> when it does not exist.\<close>

definition append_kills :: "string \<Rightarrow> pydict list \<Rightarrow> string list \<Rightarrow> kill_line list option
    \<Rightarrow> kill_line list option" where
  "append_kills ts entries consulted file =
    (if entries = [] then file
     else (let existing = (case file of None \<Rightarrow> [] | Some ls \<Rightarrow> ls)
           in Some (last_n MAX_ENTRIES (existing @ map (kill_entry ts consulted) entries))))"

definition read_all :: "kill_line list option \<Rightarrow> pyval list" where
  "read_all file = (case file of None \<Rightarrow> []
     | Some ls \<Rightarrow> List.map_filter (\<lambda>l. case l of KillEntry v \<Rightarrow> Some v | Unparsed s \<Rightarrow> None) ls)"

definition apply_limit :: "'a list \<Rightarrow> int option \<Rightarrow> 'a list" where
  "apply_limit out limit = (case limit of None \<Rightarrow> out
     | Some n \<Rightarrow> if n > 0 then last_n (nat n) out else [])"

definition read_kills :: "kill_line list option \<Rightarrow> int option \<Rightarrow> pyval list" where
  "read_kills file limit = apply_limit (read_all file) limit"

definition read_with_total :: "kill_line list option \<Rightarrow> int option \<Rightarrow> pyval list \<times> nat" where
  "read_with_total file limit = (let out = read_all file in (apply_limit out limit, length out))"

section \<open>The newest kills are kept\<close>

lemma length_last_n [simp]: "length (last_n n xs) = min n (length xs)"
  by (simp add: last_n_def)

lemma read_all_entries:
  "read_all (Some (ls @ map (kill_entry ts consulted) es)) = read_all (Some ls) @
     map (\<lambda>e. case kill_entry ts consulted e of KillEntry v \<Rightarrow> v | Unparsed s \<Rightarrow> PNone) es"
  by (induction es) (auto simp: read_all_def List.map_filter_def kill_entry_def o_def)

text \<open>After a sweep the log holds at most a thousand lines, and asking for the newest kills
  - as many as the sweep made, up to a thousand - returns that sweep's kills in order,
  whatever unparsable lines the file had before.\<close>

lemma killlog_keeps_the_newest:
  assumes "entries \<noteq> []" and "int (length entries) = n" and "n \<le> 1000"
  shows "read_kills (append_kills ts entries consulted file) (Some n)
       = map (\<lambda>e. case kill_entry ts consulted e of KillEntry v \<Rightarrow> v | Unparsed s \<Rightarrow> PNone) entries
     \<and> length (case append_kills ts entries consulted file of None \<Rightarrow> [] | Some ls \<Rightarrow> ls) \<le> MAX_ENTRIES"
proof -
  let ?old = "case file of None \<Rightarrow> [] | Some ls \<Rightarrow> ls"
  let ?new = "map (kill_entry ts consulted) entries"
  let ?vals = "map (\<lambda>e. case kill_entry ts consulted e of KillEntry v \<Rightarrow> v | Unparsed s \<Rightarrow> PNone) entries"
  have stored: "append_kills ts entries consulted file = Some (last_n MAX_ENTRIES (?old @ ?new))"
    using assms(1) by (simp add: append_kills_def Let_def)
  have "last_n MAX_ENTRIES (?old @ ?new) = drop (length ?old + length ?new - MAX_ENTRIES) ?old @ ?new"
    using assms(2,3) by (simp add: last_n_def MAX_ENTRIES_def)
  then have "read_all (Some (last_n MAX_ENTRIES (?old @ ?new)))
      = read_all (Some (drop (length ?old + length ?new - MAX_ENTRIES) ?old)) @ ?vals"
    by (simp only: read_all_entries)
  then have "read_kills (append_kills ts entries consulted file) (Some n) = ?vals"
    unfolding read_kills_def stored apply_limit_def using assms by (auto simp: last_n_def)
  with stored show ?thesis by simp
qed

lemma killlog_keeps_the_newest_witness:
  "read_kills (append_kills ''t1'' [[(''pid'', PInt 7)]] [''/var/lock/gpu''] (Some [Unparsed ''{'']))
     (Some 1) \<noteq> []"
  using killlog_keeps_the_newest [of "[[(''pid'', PInt 7)]]" 1 "''t1''" "[''/var/lock/gpu'']" "Some [Unparsed ''{'']"]
  by simp

end
