(* ===== verification/JobSpec.thy ===== *)
theory JobSpec
  imports Prelude
begin

text \<open>
  \<open>src/gpuqueue/spec.py\<close>: the unit the queue moves between directories.  The record has
  the dataclass's fields at their annotated types, except the three whose type
  \<open>validate\<close> checks again at run time: \<open>cmd\<close>'s elements, \<open>timeout_s\<close> and \<open>vram_mb\<close> stay
  Python values.  A document in which another field has a type other than the annotated one
  is not a \<open>jobspec\<close>: \<open>from_dict\<close> reports it as \<open>IllTyped\<close>, and the model says nothing
  of what the program does with it.
\<close>

record jobspec =
  js_id :: string
  js_lane :: string
  js_project :: string
  js_commit :: string
  js_branch :: string
  js_cmd :: "pyval list"
  js_artifacts :: "string list"
  js_timeout_s :: pyval
  js_vram_mb :: pyval
  js_attempts :: int
  js_dedupe_key :: "string option"
  js_submitted_at :: string
  js_pid :: "int option"
  js_runner_pid :: "int option"
  js_exit_code :: "int option"
  js_error :: "string option"

datatype spec_error =
    BadId string
  | BadLane string
  | NoProject
  | NoCommit
  | BadCommit string
  | BadCmd
  | BadTimeout pyval
  | BadVram pyval
  | VramOffTheGpuLane string
  | BadAttempts int
  | BadArtifact string
  | UnknownFields "string list"
  | MissingField string
  | IllTyped string

section \<open>The regular expressions\<close>

text \<open>
  \<open>re.compile("^[head][rest]*$").match\<close>: \<open>$\<close> matches at the end of the string and also
  before a newline that ends it.
\<close>

definition match_dollar :: "(char \<Rightarrow> bool) \<Rightarrow> (char \<Rightarrow> bool) \<Rightarrow> string \<Rightarrow> bool" where
  "match_dollar head rest s = (case s of [] \<Rightarrow> False
     | c # cs \<Rightarrow> head c \<and>
         (list_all rest cs
          \<or> (cs \<noteq> [] \<and> last cs = CHR 0x0A \<and> list_all rest (butlast cs))))"

definition id_char :: "char \<Rightarrow> bool" where
  "id_char c = (is_alnum c \<or> c \<in> set ''._-'')"

definition rev_char :: "char \<Rightarrow> bool" where
  "rev_char c = (is_alnum c \<or> c \<in> set ''._/~^{}-'')"

definition safe_id :: "string \<Rightarrow> bool" where
  "safe_id s = match_dollar is_alnum id_char s"

definition safe_rev :: "string \<Rightarrow> bool" where
  "safe_rev s = match_dollar is_alnum rev_char s"

definition LANES :: "string list" where
  "LANES = [''cpu'', ''gpu'']"

section \<open>validate\<close>

definition good_timeout :: "pyval \<Rightarrow> bool" where
  "good_timeout v = (is_int v \<and> int_value v > 0)"

text \<open>\<open>isinstance(v, int) and not isinstance(v, bool) and v > 0\<close>, the rule that
  \<open>validate\<close> and \<open>gpu_claim\<close> both apply to a declaration that is not \<open>None\<close>.\<close>

definition good_vram :: "pyval \<Rightarrow> bool" where
  "good_vram v = (v = PNone \<or> (is_int v \<and> \<not> is_bool v \<and> int_value v > 0))"

definition contained_path :: "string \<Rightarrow> bool" where
  "contained_path a = (\<not> starts_with a ''/'' \<and> ''..'' \<notin> set (split_on CHR ''/'' a))"

definition validate :: "jobspec \<Rightarrow> spec_error + unit" where
  "validate s =
    (if \<not> safe_id (js_id s) then Inl (BadId (js_id s))
     else if js_lane s \<notin> set LANES then Inl (BadLane (js_lane s))
     else if js_project s = [] then Inl NoProject
     else if js_commit s = [] then Inl NoCommit
     else if \<not> safe_rev (js_commit s) then Inl (BadCommit (js_commit s))
     else if js_cmd s = [] \<or> \<not> list_all is_str (js_cmd s) then Inl BadCmd
     else if \<not> good_timeout (js_timeout_s s) then Inl (BadTimeout (js_timeout_s s))
     else if js_vram_mb s \<noteq> PNone \<and>
             (\<not> is_int (js_vram_mb s) \<or> is_bool (js_vram_mb s) \<or> int_value (js_vram_mb s) \<le> 0)
       then Inl (BadVram (js_vram_mb s))
     else if js_lane s \<noteq> ''gpu'' \<and> js_vram_mb s \<noteq> PNone
       then Inl (VramOffTheGpuLane (js_lane s))
     else if js_attempts s < 0 then Inl (BadAttempts (js_attempts s))
     else (case find (\<lambda>a. \<not> contained_path a) (js_artifacts s) of
             Some a \<Rightarrow> Inl (BadArtifact a)
           | None \<Rightarrow> Inr ()))"

section \<open>from_dict and to_dict\<close>

definition FIELDS :: "string list" where
  "FIELDS = [''id'', ''lane'', ''project'', ''commit'', ''branch'', ''cmd'', ''artifacts'',
     ''timeout_s'', ''vram_mb'', ''attempts'', ''dedupe_key'', ''submitted_at'', ''pid'',
     ''runner_pid'', ''exit_code'', ''error'']"

definition to_dict :: "jobspec \<Rightarrow> pydict" where
  "to_dict s =
    [(''id'', PStr (js_id s)), (''lane'', PStr (js_lane s)),
     (''project'', PStr (js_project s)), (''commit'', PStr (js_commit s)),
     (''branch'', PStr (js_branch s)), (''cmd'', PList (js_cmd s)),
     (''artifacts'', PList (map PStr (js_artifacts s))),
     (''timeout_s'', js_timeout_s s), (''vram_mb'', js_vram_mb s),
     (''attempts'', PInt (js_attempts s)),
     (''dedupe_key'', of_str_opt (js_dedupe_key s)),
     (''submitted_at'', PStr (js_submitted_at s)),
     (''pid'', of_int_opt (js_pid s)), (''runner_pid'', of_int_opt (js_runner_pid s)),
     (''exit_code'', of_int_opt (js_exit_code s)), (''error'', of_str_opt (js_error s))]"

text \<open>A field of a document read at its annotated type; a missing one takes the default, or
  is the TypeError of the dataclass's constructor.\<close>

definition str_field :: "string \<Rightarrow> string option \<Rightarrow> pydict \<Rightarrow> spec_error + string" where
  "str_field k dflt d = (case map_of d k of
       Some (PStr s) \<Rightarrow> Inr s
     | Some _ \<Rightarrow> Inl (IllTyped k)
     | None \<Rightarrow> (case dflt of Some s \<Rightarrow> Inr s | None \<Rightarrow> Inl (MissingField k)))"

definition list_field :: "string \<Rightarrow> pyval list option \<Rightarrow> pydict \<Rightarrow> spec_error + pyval list" where
  "list_field k dflt d = (case map_of d k of
       Some (PList xs) \<Rightarrow> Inr xs
     | Some _ \<Rightarrow> Inl (IllTyped k)
     | None \<Rightarrow> (case dflt of Some xs \<Rightarrow> Inr xs | None \<Rightarrow> Inl (MissingField k)))"

definition int_opt_field :: "string \<Rightarrow> pydict \<Rightarrow> spec_error + int option" where
  "int_opt_field k d = (case map_of d k of
       Some (PInt i) \<Rightarrow> Inr (Some i) | Some PNone \<Rightarrow> Inr None
     | None \<Rightarrow> Inr None | Some _ \<Rightarrow> Inl (IllTyped k))"

definition str_opt_field :: "string \<Rightarrow> pydict \<Rightarrow> spec_error + string option" where
  "str_opt_field k d = (case map_of d k of
       Some (PStr s) \<Rightarrow> Inr (Some s) | Some PNone \<Rightarrow> Inr None
     | None \<Rightarrow> Inr None | Some _ \<Rightarrow> Inl (IllTyped k))"

definition int_field :: "string \<Rightarrow> int \<Rightarrow> pydict \<Rightarrow> spec_error + int" where
  "int_field k dflt d = (case map_of d k of
       Some (PInt i) \<Rightarrow> Inr i | None \<Rightarrow> Inr dflt | Some _ \<Rightarrow> Inl (IllTyped k))"

fun all_strings :: "pyval list \<Rightarrow> string list option" where
  "all_strings [] = Some []"
| "all_strings (PStr s # vs) = map_option ((#) s) (all_strings vs)"
| "all_strings (_ # vs) = None"

text \<open>\<open>utcnow_iso()\<close>, the default of \<open>submitted_at\<close>, is the argument \<open>now\<close>.\<close>

definition from_dict :: "string \<Rightarrow> pydict \<Rightarrow> spec_error + jobspec" where
  "from_dict now d =
    (let unknown = filter (\<lambda>k. k \<notin> set FIELDS) (map fst d) in
     if unknown \<noteq> [] then Inl (UnknownFields (sort unknown))
     else
     bind_result (str_field ''id'' None d) (\<lambda>i.
     bind_result (str_field ''lane'' None d) (\<lambda>lane.
     bind_result (str_field ''project'' None d) (\<lambda>project.
     bind_result (str_field ''commit'' None d) (\<lambda>commit.
     bind_result (str_field ''branch'' None d) (\<lambda>branch.
     bind_result (list_field ''cmd'' None d) (\<lambda>cmd.
     bind_result (list_field ''artifacts'' (Some []) d) (\<lambda>arts.
     bind_result (case all_strings arts of None \<Rightarrow> Inl (IllTyped ''artifacts'')
                   | Some xs \<Rightarrow> Inr xs) (\<lambda>artifacts.
     bind_result (int_field ''attempts'' 0 d) (\<lambda>attempts.
     bind_result (str_opt_field ''dedupe_key'' d) (\<lambda>dedupe_key.
     bind_result (str_field ''submitted_at'' (Some now) d) (\<lambda>submitted_at.
     bind_result (int_opt_field ''pid'' d) (\<lambda>p.
     bind_result (int_opt_field ''runner_pid'' d) (\<lambda>rp.
     bind_result (int_opt_field ''exit_code'' d) (\<lambda>ec.
     bind_result (str_opt_field ''error'' d) (\<lambda>err.
       Inr \<lparr>js_id = i, js_lane = lane, js_project = project, js_commit = commit,
            js_branch = branch, js_cmd = cmd, js_artifacts = artifacts,
            js_timeout_s = dict_get_or ''timeout_s'' (PInt 3600) d,
            js_vram_mb = dict_get ''vram_mb'' d, js_attempts = attempts,
            js_dedupe_key = dedupe_key, js_submitted_at = submitted_at, js_pid = p,
            js_runner_pid = rp, js_exit_code = ec, js_error = err\<rparr>))))))))))))))))"

lemma all_strings_map [simp]: "all_strings (map PStr ss) = Some ss"
  by (induction ss) auto

text \<open>C33: writing a specification and reading it back gives it back, whatever the clock
  says in between: no field is lost or defaulted on the way through a file.\<close>

theorem from_dict_to_dict: "from_dict now (to_dict s) = Inr s"
  by (cases "js_dedupe_key s"; cases "js_pid s"; cases "js_runner_pid s";
      cases "js_exit_code s"; cases "js_error s")
    (simp_all add: from_dict_def to_dict_def FIELDS_def str_field_def list_field_def
      int_opt_field_def str_opt_field_def int_field_def dict_get_def dict_get_or_def)

section \<open>What validation guarantees\<close>

lemma find_None_all: "find P xs = None \<longleftrightarrow> (\<forall>x\<in>set xs. \<not> P x)"
  by (auto simp: find_None_iff)

lemma validate_ok_iff:
  "validate s = Inr () \<longleftrightarrow>
     safe_id (js_id s) \<and> js_lane s \<in> {''cpu'', ''gpu''} \<and> js_project s \<noteq> []
     \<and> safe_rev (js_commit s) \<and> js_cmd s \<noteq> [] \<and> list_all is_str (js_cmd s)
     \<and> good_timeout (js_timeout_s s) \<and> good_vram (js_vram_mb s)
     \<and> (js_lane s = ''cpu'' \<longrightarrow> js_vram_mb s = PNone) \<and> 0 \<le> js_attempts s
     \<and> list_all contained_path (js_artifacts s)"
proof -
  have nonempty: "js_commit s \<noteq> []" if "safe_rev (js_commit s)"
    using that by (auto simp: safe_rev_def match_dollar_def)
  have arts: "list_all contained_path (js_artifacts s) \<longleftrightarrow>
      find (\<lambda>a. \<not> contained_path a) (js_artifacts s) = None"
    by (simp add: find_None_all list_all_iff)
  show ?thesis
    using nonempty
    by (auto simp: validate_def LANES_def good_vram_def arts split: option.splits)
qed

lemma validate_vram_lane: "validate s = Inr () \<Longrightarrow> js_vram_mb s \<noteq> PNone \<Longrightarrow> js_lane s = ''gpu''"
  by (auto simp: validate_ok_iff)

text \<open>What a declared artifact names, relative to the job's work tree: the components after
  the usual reading of \<open>.\<close>, \<open>..\<close> and empty components.\<close>

fun resolve :: "string list \<Rightarrow> string list \<Rightarrow> string list" where
  "resolve base [] = base"
| "resolve base (c # cs) = (if c = [] \<or> c = ''.'' then resolve base cs
      else if c = ''..'' then resolve (butlast base) cs else resolve (base @ [c]) cs)"

lemma resolve_down: "''..'' \<notin> set cs \<Longrightarrow> \<exists>rest. resolve base cs = base @ rest"
proof (induction cs arbitrary: base)
  case (Cons c cs)
  then obtain r1 r2 where "resolve base cs = base @ r1" "resolve (base @ [c]) cs = (base @ [c]) @ r2"
    by (metis list.set_intros(2))
  with Cons.prems show ?case by auto
qed simp

text \<open>C34: every artifact of a specification that passes \<open>validate\<close> names something inside the
  work tree it is collected from: it is relative, and resolving it never leaves the tree.\<close>

theorem validated_artifacts_contained:
  assumes "validate s = Inr ()" and "a \<in> set (js_artifacts s)"
  shows "\<not> starts_with a ''/'' \<and> (\<exists>rest. resolve tree (split_on CHR ''/'' a) = tree @ rest)"
proof -
  have "contained_path a"
    using assms by (auto simp: validate_ok_iff list_all_iff)
  then show ?thesis by (auto simp: contained_path_def intro: resolve_down)
qed

definition example_spec :: jobspec where
  "example_spec = \<lparr>js_id = ''wgan-1'', js_lane = ''gpu'', js_project = ''wgan'',
     js_commit = ''v1.2'', js_branch = ''main'', js_cmd = [PStr ''python'', PStr ''t.py''],
     js_artifacts = [''out/m.pt''], js_timeout_s = PInt 3600, js_vram_mb = PInt 512,
     js_attempts = 0, js_dedupe_key = None, js_submitted_at = ''2026-09-01T00:00:00Z'',
     js_pid = None, js_runner_pid = None, js_exit_code = None, js_error = None\<rparr>"

lemma example_spec_id [simp]: "js_id example_spec = ''wgan-1''"
  by (simp add: example_spec_def)

lemma example_spec_valid: "validate example_spec = Inr ()"
  by code_simp

lemma validated_artifacts_contained_witness:
  "\<not> starts_with ''out/m.pt'' ''/''
   \<and> (\<exists>rest. resolve [''work'', ''wgan-1''] (split_on CHR ''/'' ''out/m.pt'')
        = [''work'', ''wgan-1''] @ rest)"
  by (rule validated_artifacts_contained [OF example_spec_valid]) (simp add: example_spec_def)

lemma newline_not_rev: "\<not> rev_char (CHR 0x0A)"
  by (simp add: rev_char_def is_alnum_def is_digit_def code_pt_def)

lemma match_dollar_newline:
  assumes "\<not> rest (CHR 0x0A)" and "s \<noteq> []"
  shows "match_dollar head rest (s @ [CHR 0x0A]) \<longleftrightarrow> (\<exists>c cs. s = c # cs \<and> head c \<and> list_all rest cs)"
  using assms by (cases s) (auto simp: match_dollar_def)

text \<open>The revision check does not keep newlines out.  A commit is accepted with a newline
  at its end whenever it is accepted without one, because \<open>$\<close> also matches before a final
  newline; anywhere else a newline is refused.\<close>

lemma safe_rev_accepts_final_newline:
  assumes "CHR 0x0A \<notin> set r"
  shows "safe_rev (r @ [CHR 0x0A]) = safe_rev r
       \<and> (t \<noteq> [] \<longrightarrow> \<not> safe_rev (r @ CHR 0x0A # t))"
proof (intro conjI impI)
  show "safe_rev (r @ [CHR 0x0A]) = safe_rev r"
  proof (cases r)
    case Nil
    then show ?thesis
      by (simp add: safe_rev_def match_dollar_def is_alnum_def is_digit_def code_pt_def)
  next
    case (Cons c cs)
    with assms show ?thesis
      using match_dollar_newline [of rev_char r is_alnum] newline_not_rev
      by (auto simp: safe_rev_def match_dollar_def list_all_iff dest: last_in_set)
  qed
next
  assume "t \<noteq> []"
  then show "\<not> safe_rev (r @ CHR 0x0A # t)"
    by (cases r) (auto simp: safe_rev_def match_dollar_def newline_not_rev butlast_append
        is_alnum_def is_digit_def code_pt_def)
qed

lemma safe_rev_accepts_final_newline_witness:
  "safe_rev (''HEAD'' @ [CHR 0x0A]) = safe_rev ''HEAD'' \<and> \<not> safe_rev (''HEAD'' @ CHR 0x0A # ''x'')"
  using safe_rev_accepts_final_newline [of "''HEAD''" "''x''"] by simp

text \<open>An accepted identifier is one path component: not empty, not \<open>.\<close> or \<open>..\<close>, no slash.\<close>

lemma in_butlast_or_last: "c \<in> set cs \<Longrightarrow> c \<in> set (butlast cs) \<or> c = last cs"
  by (induction cs) auto

lemma safe_id_chars: "safe_id i \<Longrightarrow> c \<in> set i \<Longrightarrow> id_char c \<or> c = CHR 0x0A"
  unfolding safe_id_def match_dollar_def
  by (cases i) (auto simp: id_char_def list_all_iff dest: in_butlast_or_last)

lemma safe_id_component:
  assumes "safe_id i"
  shows "i \<noteq> [] \<and> i \<noteq> ''.'' \<and> i \<noteq> ''..'' \<and> CHR ''/'' \<notin> set i"
proof -
  have "CHR ''/'' \<notin> set i"
    using safe_id_chars [OF assms, of "CHR ''/''"]
    by (auto simp: id_char_def is_alnum_def is_digit_def code_pt_def)
  moreover have "i \<noteq> [] \<and> i \<noteq> ''.'' \<and> i \<noteq> ''..''"
    using assms by (auto simp: safe_id_def match_dollar_def is_alnum_def is_digit_def code_pt_def)
  ultimately show ?thesis by blast
qed

end
