(* ===== verification/Queue.thy ===== *)
theory Queue
  imports JobSpec Store
begin

text \<open>
  \<open>src/gpuqueue/queue.py\<close>: the queue is a directory tree, one directory per state and one
  \<open>.json\<close> file per job, and its transitions are renames.  A job file holds a
  specification or something \<open>_read\<close> raises on (\<open>Unreadable\<close>); what \<open>_write\<close> stores is read
  back as it was written by \<open>from_dict_to_dict\<close> of the theory JobSpec.

  After the operations come the board (where each job is), the interface its clients rely
  on, the steps of any number of clients with the invariant they keep, and \<open>cancel\<close> taken
  apart into its three file operations.
\<close>

datatype qstate = Pending | Running | Done | Failed

definition STATES :: "qstate list" where
  "STATES = [Pending, Running, Done, Failed]"

definition ACTIVE :: "qstate list" where
  "ACTIVE = [Pending, Running]"

fun state_dir :: "qstate \<Rightarrow> string" where
  "state_dir Pending = ''pending''"
| "state_dir Running = ''running''"
| "state_dir Done = ''done''"
| "state_dir Failed = ''failed''"

datatype job_file = JobDoc jobspec | Unreadable

type_synonym jobs = "job_file files"

definition path_for :: "path \<Rightarrow> qstate \<Rightarrow> string \<Rightarrow> path" where
  "path_for qroot st i = qroot @ [state_dir st, i @ ''.json'']"

definition log_paths :: "path \<Rightarrow> string \<Rightarrow> path \<times> path" where
  "log_paths qroot i = (qroot @ [''logs'', i @ ''.out''], qroot @ [''logs'', i @ ''.err''])"

definition work_dir :: "path \<Rightarrow> string \<Rightarrow> path" where
  "work_dir qroot i = qroot @ [''work'', i]"

section \<open>Reading and writing\<close>

datatype read_error = NotFound | NotASpec

definition write_spec :: "path \<Rightarrow> jobspec \<Rightarrow> jobs \<Rightarrow> jobs" where
  "write_spec p s fs = publish p (JobDoc s) fs"

definition read_spec :: "path \<Rightarrow> jobs \<Rightarrow> read_error + jobspec" where
  "read_spec p fs = (case read_file fs p of
     None \<Rightarrow> Inl NotFound | Some Unreadable \<Rightarrow> Inl NotASpec | Some (JobDoc s) \<Rightarrow> Inr s)"

definition list_state :: "path \<Rightarrow> qstate \<Rightarrow> jobs \<Rightarrow> jobspec list" where
  "list_state qroot st fs =
     concat (map (\<lambda>n. case read_spec (qroot @ [state_dir st, n]) fs of Inr s \<Rightarrow> [s] | Inl _ \<Rightarrow> [])
                 (glob_names (qroot @ [state_dir st]) ''.json'' fs))"

fun find_in :: "path \<Rightarrow> string \<Rightarrow> jobs \<Rightarrow> qstate list \<Rightarrow> (qstate \<times> jobspec) option" where
  "find_in qroot i fs [] = None"
| "find_in qroot i fs (st # sts) =
     (if exists_file fs (path_for qroot st i)
      then (case read_spec (path_for qroot st i) fs of Inr s \<Rightarrow> Some (st, s) | Inl _ \<Rightarrow> None)
      else find_in qroot i fs sts)"

definition find_job :: "path \<Rightarrow> string \<Rightarrow> jobs \<Rightarrow> (qstate \<times> jobspec) option" where
  "find_job qroot i fs = find_in qroot i fs STATES"

section \<open>Transitions\<close>

datatype submit_error = Refused spec_error | IdExists string

definition active_duplicate :: "path \<Rightarrow> jobspec \<Rightarrow> jobs \<Rightarrow> jobspec option" where
  "active_duplicate qroot s fs = (case js_dedupe_key s of
      None \<Rightarrow> None
    | Some k \<Rightarrow> if k = [] then None
        else find (\<lambda>other. js_dedupe_key other = Some k)
               (concat (map (\<lambda>st. list_state qroot st fs) ACTIVE)))"

definition submit :: "path \<Rightarrow> jobspec \<Rightarrow> jobs \<Rightarrow> (submit_error + string) \<times> jobs" where
  "submit qroot s fs =
    (case validate s of Inl e \<Rightarrow> (Inl (Refused e), fs)
     | Inr _ \<Rightarrow>
       (case active_duplicate qroot s fs of Some other \<Rightarrow> (Inr (js_id other), fs)
        | None \<Rightarrow>
          if \<exists>st\<in>set STATES. exists_file fs (path_for qroot st (js_id s))
          then (Inl (IdExists (js_id s)), fs)
          else (Inr (js_id s), write_spec (path_for qroot Pending (js_id s)) s fs)))"

text \<open>\<open>claim\<close>: the rename decides; reading the renamed file may still raise.\<close>

datatype claim_result = Gone | ClaimRaises | Claimed jobspec

definition claim :: "path \<Rightarrow> string \<Rightarrow> jobs \<Rightarrow> claim_result \<times> jobs" where
  "claim qroot i fs =
    (case rename_file (path_for qroot Pending i) (path_for qroot Running i) fs of
       None \<Rightarrow> (Gone, fs)
     | Some fs' \<Rightarrow> (case read_spec (path_for qroot Running i) fs' of
           Inl _ \<Rightarrow> (ClaimRaises, fs') | Inr s \<Rightarrow> (Claimed s, fs')))"

definition update :: "path \<Rightarrow> jobspec \<Rightarrow> qstate \<Rightarrow> jobs \<Rightarrow> jobs" where
  "update qroot s st fs = write_spec (path_for qroot st (js_id s)) s fs"

definition rename_job :: "path \<Rightarrow> string \<Rightarrow> qstate \<Rightarrow> qstate \<Rightarrow> jobs \<Rightarrow> jobs" where
  "rename_job qroot i st st' fs =
    (case rename_file (path_for qroot st i) (path_for qroot st' i) fs of
       None \<Rightarrow> fs | Some fs' \<Rightarrow> fs')"

definition finish :: "path \<Rightarrow> jobspec \<Rightarrow> bool \<Rightarrow> jobs \<Rightarrow> jobs" where
  "finish qroot s ok fs =
     rename_job qroot (js_id s) Running (if ok then Done else Failed)
       (write_spec (path_for qroot Running (js_id s)) s fs)"

definition requeue :: "path \<Rightarrow> jobspec \<Rightarrow> jobs \<Rightarrow> jobspec \<times> jobs" where
  "requeue qroot s fs =
    (let s' = s\<lparr>js_attempts := js_attempts s + 1, js_pid := None\<rparr> in
     (s', rename_job qroot (js_id s') Running Pending
            (write_spec (path_for qroot Running (js_id s')) s' fs)))"

text \<open>\<open>cancel\<close>, one definition per file operation: read, rewrite, rename.\<close>

definition cancel_read :: "path \<Rightarrow> string \<Rightarrow> jobs \<Rightarrow> read_error + jobspec" where
  "cancel_read qroot i fs = read_spec (path_for qroot Pending i) fs"

definition cancel_write :: "path \<Rightarrow> string \<Rightarrow> jobspec \<Rightarrow> jobs \<Rightarrow> jobs" where
  "cancel_write qroot i s fs =
     write_spec (path_for qroot Pending i) (s\<lparr>js_error := Some ''cancelled''\<rparr>) fs"

definition cancel_move :: "path \<Rightarrow> string \<Rightarrow> jobs \<Rightarrow> bool \<times> jobs" where
  "cancel_move qroot i fs =
    (case rename_file (path_for qroot Pending i) (path_for qroot Failed i) fs of
       None \<Rightarrow> (False, fs) | Some fs' \<Rightarrow> (True, fs'))"

definition cancel :: "path \<Rightarrow> string \<Rightarrow> jobs \<Rightarrow> (read_error + bool) \<times> jobs" where
  "cancel qroot i fs =
    (case cancel_read qroot i fs of
       Inl NotFound \<Rightarrow> (Inr False, fs)
     | Inl NotASpec \<Rightarrow> (Inl NotASpec, fs)
     | Inr s \<Rightarrow> (let (moved, fs') = cancel_move qroot i (cancel_write qroot i s fs)
                 in (Inr moved, fs')))"

section \<open>The board: which file each job has in which state\<close>

definition job_at :: "path \<Rightarrow> jobs \<Rightarrow> qstate \<Rightarrow> string \<Rightarrow> job_file option" where
  "job_at qroot fs st i = read_file fs (path_for qroot st i)"

lemma state_dir_inj [simp]: "state_dir st = state_dir st' \<longleftrightarrow> st = st'"
  by (cases st; cases st') auto

lemma path_for_eq [simp]: "path_for qroot st i = path_for qroot st' i' \<longleftrightarrow> st = st' \<and> i = i'"
  by (simp add: path_for_def)

lemma part_of_path_for: "part_of (path_for qroot st i) = qroot @ [state_dir st, (i @ ''.json'') @ ''.part'']"
  by (simp add: part_of_def path_for_def butlast_append)

lemma part_neq_path_for [simp]: "path_for qroot st' i' \<noteq> part_of (path_for qroot st i)"
proof
  assume "path_for qroot st' i' = part_of (path_for qroot st i)"
  then have "i' @ ''.json'' = (i @ ''.json'') @ ''.part''"
    unfolding part_of_path_for by (simp add: path_for_def)
  then have "ends_with ((i @ ''.json'') @ ''.part'') ''.json''"
    by (metis json_ends)
  then show False by (simp only: part_not_json)
qed

lemma job_at_write [store_laws]:
  "job_at qroot (write_spec (path_for qroot st i) s fs) st' i' =
     (if st' = st \<and> i' = i then Some (JobDoc s) else job_at qroot fs st' i')"
  by (auto simp: job_at_def write_spec_def read_publish)

lemma job_at_rename [store_laws]:
  assumes "rename_file (path_for qroot st i) (path_for qroot st2 i) fs = Some fs'"
  shows "job_at qroot fs' st' i' =
     (if st' = st2 \<and> i' = i then job_at qroot fs st i
      else if st' = st \<and> i' = i then None else job_at qroot fs st' i')"
  using read_rename [OF assms] by (simp add: job_at_def)

lemma rename_at_None:
  "job_at qroot fs st i = None \<Longrightarrow> rename_file (path_for qroot st i) q fs = None"
  by (simp add: job_at_def rename_None)

lemma rename_at_Some:
  assumes "job_at qroot fs st i = Some f"
  obtains fs' where "rename_file (path_for qroot st i) (path_for qroot st2 i) fs = Some fs'"
  using assms rename_None [of "path_for qroot st i" "path_for qroot st2 i" fs]
  by (auto simp: job_at_def)

lemma job_at_rename_job [store_laws]:
  assumes "job_at qroot fs st i \<noteq> None"
  shows "job_at qroot (rename_job qroot i st st2 fs) st' i' =
     (if st' = st2 \<and> i' = i then job_at qroot fs st i
      else if st' = st \<and> i' = i then None else job_at qroot fs st' i')"
proof -
  obtain fs' where "rename_file (path_for qroot st i) (path_for qroot st2 i) fs = Some fs'"
    using assms rename_at_Some by (metis not_None_eq)
  then show ?thesis by (simp add: rename_job_def job_at_rename)
qed

lemma job_at_finish [store_laws]:
  "job_at qroot (finish qroot s ok fs) st i =
     (if i = js_id s \<and> st = (if ok then Done else Failed) then Some (JobDoc s)
      else if i = js_id s \<and> st = Running then None else job_at qroot fs st i)"
  by (cases "i = js_id s"; cases st; cases ok)
    (simp_all add: finish_def job_at_rename_job job_at_write)

lemma job_at_requeue [store_laws]:
  "job_at qroot (snd (requeue qroot s fs)) st i =
     (if i = js_id s \<and> st = Pending then Some (JobDoc (fst (requeue qroot s fs)))
      else if i = js_id s \<and> st = Running then None else job_at qroot fs st i)"
  by (cases "i = js_id s"; cases st)
    (simp_all add: requeue_def Let_def job_at_rename_job job_at_write)

lemma fst_requeue [simp]:
  "fst (requeue qroot s fs) = s\<lparr>js_attempts := js_attempts s + 1, js_pid := None\<rparr>"
  by (simp add: requeue_def Let_def)

lemma job_at_update [store_laws]:
  "job_at qroot (update qroot s st fs) st' i =
     (if i = js_id s \<and> st' = st then Some (JobDoc s) else job_at qroot fs st' i)"
  by (auto simp: update_def job_at_write)

lemma claim_none_unchanged: "job_at qroot fs Pending i = None \<Longrightarrow> claim qroot i fs = (Gone, fs)"
  by (simp add: claim_def rename_at_None)

lemma claim_Gone: "fst (claim qroot i fs) = Gone \<longleftrightarrow> job_at qroot fs Pending i = None"
proof (cases "job_at qroot fs Pending i")
  case (Some f)
  then obtain fs' where "rename_file (path_for qroot Pending i) (path_for qroot Running i) fs = Some fs'"
    by (rule rename_at_Some)
  with Some show ?thesis by (simp add: claim_def split: sum.splits)
qed (simp add: claim_none_unchanged)

lemma job_at_claim [store_laws]:
  assumes "job_at qroot fs Pending i \<noteq> None"
  shows "job_at qroot (snd (claim qroot i fs)) st i' =
     (if i' = i \<and> st = Running then job_at qroot fs Pending i
      else if i' = i \<and> st = Pending then None else job_at qroot fs st i')"
proof -
  obtain fs' where mv: "rename_file (path_for qroot Pending i) (path_for qroot Running i) fs = Some fs'"
    using assms rename_at_Some by (metis not_None_eq)
  then have "snd (claim qroot i fs) = fs'"
    by (simp add: claim_def split: sum.splits)
  then show ?thesis by (simp add: job_at_rename [OF mv])
qed

lemma read_spec_job_at: "read_spec (path_for qroot st i) fs = Inr s \<longleftrightarrow> job_at qroot fs st i = Some (JobDoc s)"
  by (auto simp: read_spec_def job_at_def split: option.splits job_file.splits)

lemma claim_Claimed:
  "fst (claim qroot i fs) = Claimed s \<longleftrightarrow> job_at qroot fs Pending i = Some (JobDoc s)"
proof (cases "rename_file (path_for qroot Pending i) (path_for qroot Running i) fs")
  case None
  then have "job_at qroot fs Pending i = None"
    using rename_at_Some by (metis not_None_eq)
  with None show ?thesis by (simp add: claim_def)
next
  case (Some fs')
  have "read_spec (path_for qroot Running i) fs' = Inr s \<longleftrightarrow> job_at qroot fs Pending i = Some (JobDoc s)"
    by (simp add: read_spec_job_at job_at_rename [OF Some])
  with Some show ?thesis by (auto simp: claim_def split: sum.splits)
qed

lemma submit_cases:
  "submit qroot s fs = (r, fs') \<Longrightarrow>
     fs' = fs \<or> (validate s = Inr () \<and> active_duplicate qroot s fs = None
                 \<and> (\<forall>st. job_at qroot fs st (js_id s) = None) \<and> r = Inr (js_id s)
                 \<and> fs' = write_spec (path_for qroot Pending (js_id s)) s fs)"
proof -
  have all: "(\<forall>st\<in>set STATES. \<not> exists_file fs (path_for qroot st (js_id s))) \<longleftrightarrow>
      (\<forall>st. job_at qroot fs st (js_id s) = None)"
    by (auto simp: STATES_def exists_file_def job_at_def) (metis qstate.exhaust)
  show "submit qroot s fs = (r, fs') \<Longrightarrow> ?thesis"
    using all by (auto simp: submit_def split: sum.splits option.splits if_splits)
qed

lemma cancel_cases:
  "cancel qroot i fs = (r, fs') \<Longrightarrow>
     (fs' = fs \<and> (\<nexists>s. job_at qroot fs Pending i = Some (JobDoc s))) \<or>
     (\<exists>s. job_at qroot fs Pending i = Some (JobDoc s) \<and> r = Inr True \<and>
        (\<forall>st i'. job_at qroot fs' st i' =
           (if i' = i \<and> st = Failed then Some (JobDoc (s\<lparr>js_error := Some ''cancelled''\<rparr>))
            else if i' = i \<and> st = Pending then None else job_at qroot fs st i')))"
proof (cases "cancel_read qroot i fs")
  case (Inl e)
  then have "\<nexists>s. job_at qroot fs Pending i = Some (JobDoc s)"
    by (metis cancel_read_def old.sum.distinct(1) read_spec_job_at)
  moreover assume "cancel qroot i fs = (r, fs')"
  ultimately show ?thesis using Inl by (cases e) (auto simp: cancel_def)
next
  case (Inr s)
  let ?g = "cancel_write qroot i s fs"
  have "job_at qroot ?g Pending i = Some (JobDoc (s\<lparr>js_error := Some ''cancelled''\<rparr>))"
    by (simp add: cancel_write_def job_at_write)
  then obtain g' where mv: "rename_file (path_for qroot Pending i) (path_for qroot Failed i) ?g = Some g'"
    by (rule rename_at_Some)
  have pending: "job_at qroot fs Pending i = Some (JobDoc s)"
    using Inr by (simp add: cancel_read_def read_spec_job_at)
  assume "cancel qroot i fs = (r, fs')"
  then have "r = Inr True" "fs' = g'"
    using Inr mv by (auto simp: cancel_def cancel_move_def)
  moreover have "job_at qroot g' st i' =
           (if i' = i \<and> st = Failed then Some (JobDoc (s\<lparr>js_error := Some ''cancelled''\<rparr>))
            else if i' = i \<and> st = Pending then None else job_at qroot fs st i')" for st i'
    by (cases "i' = i"; cases st) (simp_all add: job_at_rename [OF mv] cancel_write_def job_at_write)
  ultimately show ?thesis
    using pending by blast
qed

section \<open>The contract of the queue\<close>

text \<open>
  A board says which file each job has in each state.  Every transition of the queue is one
  of three changes of the board: a new pending job, a job moved from one state to another,
  a running job's file rewritten.
\<close>

type_synonym board = "qstate \<Rightarrow> string \<Rightarrow> job_file option"

definition posted :: "qstate \<Rightarrow> string \<Rightarrow> job_file \<Rightarrow> board \<Rightarrow> board" where
  "posted st i f b = (\<lambda>t j. if j = i \<and> t = st then Some f else b t j)"

definition moved :: "qstate \<Rightarrow> qstate \<Rightarrow> string \<Rightarrow> job_file \<Rightarrow> board \<Rightarrow> board" where
  "moved st st' i f b =
     (\<lambda>t j. if j = i \<and> t = st' then Some f else if j = i \<and> t = st then None else b t j)"

definition one_place :: "board \<Rightarrow> bool" where
  "one_place b = (\<forall>i st st'. b st i \<noteq> None \<longrightarrow> b st' i \<noteq> None \<longrightarrow> st = st')"

text \<open>The fields the runner never rewrites.\<close>

definition same_job :: "jobspec \<Rightarrow> jobspec \<Rightarrow> bool" where
  "same_job s t = (js_id s = js_id t \<and> js_lane s = js_lane t \<and> js_project s = js_project t
     \<and> js_commit s = js_commit t \<and> js_cmd s = js_cmd t \<and> js_vram_mb s = js_vram_mb t
     \<and> js_dedupe_key s = js_dedupe_key t \<and> js_artifacts s = js_artifacts t)"

inductive board_step :: "board \<Rightarrow> board \<Rightarrow> bool" where
  post: "(\<And>st. b st (js_id s) = None) \<Longrightarrow> validate s = Inr () \<Longrightarrow>
     board_step b (posted Pending (js_id s) (JobDoc s) b)"
| start: "b Pending i = Some f \<Longrightarrow> board_step b (moved Pending Running i f b)"
| rewrite: "b Running (js_id s) = Some (JobDoc s0) \<Longrightarrow> same_job s0 s \<Longrightarrow>
     board_step b (posted Running (js_id s) (JobDoc s) b)"
| stop: "b Running (js_id s) = Some (JobDoc s0) \<Longrightarrow> same_job s0 s \<Longrightarrow> st \<in> {Done, Failed} \<Longrightarrow>
     board_step b (moved Running st (js_id s) (JobDoc s) b)"
| again: "b Running (js_id s) = Some (JobDoc s0) \<Longrightarrow> same_job s0 s \<Longrightarrow>
     board_step b (moved Running Pending (js_id s) (JobDoc s) b)"
| withdraw: "b Pending i = Some (JobDoc s) \<Longrightarrow>
     board_step b (moved Pending Failed i (JobDoc (s\<lparr>js_error := Some ''cancelled''\<rparr>)) b)"

lemma one_placeD: "one_place b \<Longrightarrow> b st i = Some f \<Longrightarrow> st' \<noteq> st \<Longrightarrow> b st' i = None"
  unfolding one_place_def by (metis option.distinct(1))

lemma one_place_posted:
  "one_place b \<Longrightarrow> (\<And>st'. st' \<noteq> st \<Longrightarrow> b st' i = None) \<Longrightarrow> one_place (posted st i f b)"
  by (auto simp: one_place_def posted_def)

lemma one_place_moved:
  "one_place b \<Longrightarrow> b st i \<noteq> None \<Longrightarrow> one_place (moved st st' i f b)"
  unfolding one_place_def moved_def by (metis option.distinct(1))

lemma board_step_one_place:
  assumes "board_step b b'" and "one_place b"
  shows "one_place b'"
  using assms
proof (cases rule: board_step.cases)
  case (rewrite s s0)
  then show ?thesis
    using assms(2) one_placeD by (metis one_place_posted)
qed (auto intro: one_place_moved one_place_posted)

text \<open>A finished job's file is never touched again.\<close>

lemma board_step_terminal:
  assumes "board_step b b'" and "one_place b" and "st \<in> {Done, Failed}" and "b st i = Some f"
  shows "b' st i = Some f"
proof -
  have other: "j \<noteq> i" if "b src j = Some g" and "src = Pending \<or> src = Running" for src j g
    using that one_placeD [OF assms(2,4), of src] assms(3) by auto
  from assms(1) show ?thesis
  proof (cases rule: board_step.cases)
    case (post s)
    then show ?thesis using assms(3,4) by (auto simp: posted_def)
  next
    case (rewrite s s0)
    then show ?thesis using assms(4) other [of Running "js_id s"] by (auto simp: posted_def)
  qed (use assms(4) other in \<open>auto simp: moved_def\<close>)
qed

locale job_board =
  fixes brd :: "'s \<Rightarrow> board"
    and submit_op :: "jobspec \<Rightarrow> 's \<Rightarrow> (submit_error + string) \<times> 's"
    and claim_op :: "string \<Rightarrow> 's \<Rightarrow> claim_result \<times> 's"
    and update_op :: "jobspec \<Rightarrow> 's \<Rightarrow> 's"
    and finish_op :: "jobspec \<Rightarrow> bool \<Rightarrow> 's \<Rightarrow> 's"
    and requeue_op :: "jobspec \<Rightarrow> 's \<Rightarrow> jobspec \<times> 's"
    and cancel_op :: "string \<Rightarrow> 's \<Rightarrow> (read_error + bool) \<times> 's"
  assumes at_submit: "snd (submit_op s q) \<noteq> q \<Longrightarrow>
        validate s = Inr () \<and> (\<forall>st. brd q st (js_id s) = None)
        \<and> brd (snd (submit_op s q)) = posted Pending (js_id s) (JobDoc s) (brd q)"
    and claim_gone: "brd q Pending i = None \<Longrightarrow> claim_op i q = (Gone, q)"
    and at_claim: "brd q Pending i = Some f \<Longrightarrow> brd (snd (claim_op i q)) = moved Pending Running i f (brd q)"
    and claim_doc: "fst (claim_op i q) = Claimed s \<longleftrightarrow> brd q Pending i = Some (JobDoc s)"
    and at_update: "brd (update_op s q) = posted Running (js_id s) (JobDoc s) (brd q)"
    and at_finish: "brd (finish_op s ok q) =
        moved Running (if ok then Done else Failed) (js_id s) (JobDoc s) (brd q)"
    and fst_requeue_op: "fst (requeue_op s q) = s\<lparr>js_attempts := js_attempts s + 1, js_pid := None\<rparr>"
    and at_requeue: "brd (snd (requeue_op s q)) =
        moved Running Pending (js_id s) (JobDoc (fst (requeue_op s q))) (brd q)"
    and at_cancel: "snd (cancel_op i q) \<noteq> q \<Longrightarrow> \<exists>s. brd q Pending i = Some (JobDoc s)
        \<and> brd (snd (cancel_op i q)) =
            moved Pending Failed i (JobDoc (s\<lparr>js_error := Some ''cancelled''\<rparr>)) (brd q)"
begin

lemma claim_twice_gone:
  assumes "fst (claim_op i q) = Claimed s"
  shows "fst (claim_op i (snd (claim_op i q))) = Gone"
proof -
  have "brd (snd (claim_op i q)) Pending i = None"
    using assms by (simp add: claim_doc at_claim moved_def)
  then show ?thesis by (simp add: claim_gone)
qed

lemma claim_step: "brd (snd (claim_op i q)) = brd q \<or> board_step (brd q) (brd (snd (claim_op i q)))"
  by (cases "brd q Pending i") (auto simp: claim_gone at_claim intro: board_step.start)

lemma submit_step: "brd (snd (submit_op s q)) = brd q \<or> board_step (brd q) (brd (snd (submit_op s q)))"
  using at_submit [of s q] by (metis board_step.post)

lemma cancel_step: "brd (snd (cancel_op i q)) = brd q \<or> board_step (brd q) (brd (snd (cancel_op i q)))"
  using at_cancel [of i q] by (metis board_step.withdraw)

lemma requeue_same_job: "same_job s0 s \<Longrightarrow> same_job s0 (fst (requeue_op s q))"
  by (simp add: same_job_def fst_requeue_op)

lemma runner_step:
  assumes "brd q Running (js_id s) = Some (JobDoc s0)" and "same_job s0 s"
  shows "board_step (brd q) (brd (finish_op s ok q))"
    and "board_step (brd q) (brd (snd (requeue_op s q)))"
    and "board_step (brd q) (brd (update_op s q))"
proof -
  show "board_step (brd q) (brd (finish_op s ok q))"
    unfolding at_finish using assms by (intro board_step.stop) auto
  show "board_step (brd q) (brd (update_op s q))"
    unfolding at_update using assms by (rule board_step.rewrite)
  have "js_id (fst (requeue_op s q)) = js_id s"
    by (simp add: fst_requeue_op)
  then show "board_step (brd q) (brd (snd (requeue_op s q)))"
    unfolding at_requeue using assms requeue_same_job [OF assms(2)]
    by (metis board_step.again)
qed

end

interpretation qb: job_board "job_at qroot" "submit qroot" "claim qroot" "\<lambda>s. update qroot s Running"
  "finish qroot" "requeue qroot" "cancel qroot"
  for qroot
proof unfold_locales
  fix s q
  assume "snd (submit qroot s q) \<noteq> q"
  then show "validate s = Inr () \<and> (\<forall>st. job_at qroot q st (js_id s) = None)
        \<and> job_at qroot (snd (submit qroot s q)) = posted Pending (js_id s) (JobDoc s) (job_at qroot q)"
    using submit_cases [of qroot s q "fst (submit qroot s q)" "snd (submit qroot s q)"]
    by (auto simp: posted_def fun_eq_iff job_at_write)
next
  fix q i f
  assume "job_at qroot q Pending i = Some f"
  then show "job_at qroot (snd (claim qroot i q)) = moved Pending Running i f (job_at qroot q)"
    by (auto simp: moved_def fun_eq_iff job_at_claim)
next
  fix i q
  assume "snd (cancel qroot i q) \<noteq> q"
  then show "\<exists>s. job_at qroot q Pending i = Some (JobDoc s)
        \<and> job_at qroot (snd (cancel qroot i q)) =
            moved Pending Failed i (JobDoc (s\<lparr>js_error := Some ''cancelled''\<rparr>)) (job_at qroot q)"
    using cancel_cases [of qroot i q "fst (cancel qroot i q)" "snd (cancel qroot i q)"]
    by (auto simp: moved_def fun_eq_iff)
next
  fix s ok q
  show "job_at qroot (finish qroot s ok q) =
        moved Running (if ok then Done else Failed) (js_id s) (JobDoc s) (job_at qroot q)"
    by (auto simp: moved_def fun_eq_iff job_at_finish)
next
  fix s q
  show "job_at qroot (snd (requeue qroot s q)) =
        moved Running Pending (js_id s) (JobDoc (fst (requeue qroot s q))) (job_at qroot q)"
    by (auto simp: moved_def fun_eq_iff job_at_requeue)
next
  fix s q
  show "job_at qroot (update qroot s Running q) = posted Running (js_id s) (JobDoc s) (job_at qroot q)"
    by (auto simp: posted_def fun_eq_iff job_at_update)
qed (simp_all add: claim_none_unchanged claim_Claimed)

section \<open>Listing\<close>

text \<open>\<open>list_state\<close> returns exactly the readable specifications of the state's directory: an
  unreadable file in it hides no other job, and a temporary file is never listed.\<close>

lemma list_state_exact:
  "set (list_state qroot st fs) = {s. \<exists>i. job_at qroot fs st i = Some (JobDoc s)}"
proof (intro set_eqI iffI)
  fix s
  assume "s \<in> set (list_state qroot st fs)"
  then obtain n where n: "n \<in> set (glob_names (qroot @ [state_dir st]) ''.json'' fs)"
    and rd: "read_spec (qroot @ [state_dir st, n]) fs = Inr s"
    by (auto simp: list_state_def split: sum.splits)
  from n obtain i where "n = i @ ''.json''"
    by (auto simp: set_glob_names ends_with_iff)
  with rd have "read_spec (path_for qroot st i) fs = Inr s"
    by (simp add: path_for_def)
  then show "s \<in> {s. \<exists>i. job_at qroot fs st i = Some (JobDoc s)}"
    by (auto simp: read_spec_job_at)
next
  fix s
  assume "s \<in> {s. \<exists>i. job_at qroot fs st i = Some (JobDoc s)}"
  then obtain i where at: "job_at qroot fs st i = Some (JobDoc s)" by blast
  then have "i @ ''.json'' \<in> set (glob_names (qroot @ [state_dir st]) ''.json'' fs)"
    by (simp add: set_glob_names job_at_def path_for_def)
  moreover have "read_spec (qroot @ [state_dir st, i @ ''.json'']) fs = Inr s"
    using at read_spec_job_at [of qroot st i fs s] by (simp add: path_for_def)
  ultimately show "s \<in> set (list_state qroot st fs)"
    by (force simp: list_state_def)
qed

lemmas in_list_state = list_state_exact [THEN eqset_imp_iff, simplified]

section \<open>Any number of clients\<close>

text \<open>
  One step is one call by some client: a submitter under the submit lock, the runner or the
  reaper acting on a job in \<open>running/\<close> with the identity it was claimed with, a canceller
  whose three file operations no other client interrupts.
\<close>

inductive qstep :: "path \<Rightarrow> jobs \<Rightarrow> jobs \<Rightarrow> bool" for qroot where
  q_submit: "qstep qroot fs (snd (submit qroot s fs))"
| q_claim: "qstep qroot fs (snd (claim qroot i fs))"
| q_update: "job_at qroot fs Running (js_id s) = Some (JobDoc s0) \<Longrightarrow> same_job s0 s \<Longrightarrow>
     qstep qroot fs (update qroot s Running fs)"
| q_finish: "job_at qroot fs Running (js_id s) = Some (JobDoc s0) \<Longrightarrow> same_job s0 s \<Longrightarrow>
     qstep qroot fs (finish qroot s ok fs)"
| q_requeue: "job_at qroot fs Running (js_id s) = Some (JobDoc s0) \<Longrightarrow> same_job s0 s \<Longrightarrow>
     qstep qroot fs (snd (requeue qroot s fs))"
| q_cancel: "qstep qroot fs (snd (cancel qroot i fs))"

inductive queue_reach :: "path \<Rightarrow> jobs \<Rightarrow> bool" for qroot where
  empty_queue: "queue_reach qroot []"
| more: "queue_reach qroot fs \<Longrightarrow> qstep qroot fs fs' \<Longrightarrow> queue_reach qroot fs'"

lemma qstep_board:
  assumes "qstep qroot fs fs'"
  shows "job_at qroot fs' = job_at qroot fs \<or> board_step (job_at qroot fs) (job_at qroot fs')"
  using assms
proof (cases rule: qstep.cases)
  case (q_submit s)
  then show ?thesis using qb.submit_step by auto
next
  case (q_claim i)
  then show ?thesis using qb.claim_step by auto
next
  case (q_update s s0)
  then show ?thesis using qb.runner_step(3) by auto
next
  case (q_finish s s0 ok)
  then show ?thesis using qb.runner_step(1) by auto
next
  case (q_requeue s s0)
  then show ?thesis using qb.runner_step(2) by auto
next
  case (q_cancel i)
  then show ?thesis using qb.cancel_step by auto
qed

lemma qstep_one_place:
  "qstep qroot fs fs' \<Longrightarrow> one_place (job_at qroot fs) \<Longrightarrow> one_place (job_at qroot fs')"
  using qstep_board [of qroot fs fs'] board_step_one_place by auto

lemma reach_one_place: "queue_reach qroot fs \<Longrightarrow> one_place (job_at qroot fs)"
proof (induction rule: queue_reach.induct)
  case empty_queue
  then show ?case by (simp add: one_place_def job_at_def read_file_def)
qed (rule qstep_one_place)

definition posted_example :: jobs where
  "posted_example = snd (submit [''q''] example_spec [])"

lemma posted_example_reach: "queue_reach [''q''] posted_example"
  unfolding posted_example_def by (intro queue_reach.more [OF queue_reach.empty_queue] q_submit)

lemma posted_example_at: "job_at [''q''] posted_example Pending ''wgan-1'' = Some (JobDoc example_spec)"
  by code_simp

text \<open>C30: at most one of any number of claimers gets a job: once \<open>claim\<close> has returned a
  specification, the next \<open>claim\<close> of the same job finds it gone.\<close>

theorem claim_exclusive:
  assumes "claim qroot i fs = (Claimed s, fs')"
  shows "claim qroot i fs' = (Gone, fs')"
proof -
  have "fst (claim qroot i fs') = Gone"
    using qb.claim_twice_gone [of qroot i fs s] assms by simp
  then show ?thesis using claim_Gone claim_none_unchanged by metis
qed

lemma claim_exclusive_witness:
  "claim [''q''] ''wgan-1'' (snd (claim [''q''] ''wgan-1'' posted_example))
   = (Gone, snd (claim [''q''] ''wgan-1'' posted_example))"
proof (rule claim_exclusive)
  have "fst (claim [''q''] ''wgan-1'' posted_example) = Claimed example_spec"
    by (simp add: claim_Claimed posted_example_at)
  then show "claim [''q''] ''wgan-1'' posted_example
      = (Claimed example_spec, snd (claim [''q''] ''wgan-1'' posted_example))"
    by (metis prod.collapse)
qed

text \<open>A job in \<open>done/\<close> or \<open>failed/\<close> stays there, with the file it finished with, whatever
  is called on the queue afterwards.\<close>

lemma finished_job_stays:
  assumes "queue_reach qroot fs" and "(qstep qroot)\<^sup>*\<^sup>* fs fs'"
    and "st \<in> {Done, Failed}" and "job_at qroot fs st i = Some f"
  shows "job_at qroot fs' st i = Some f"
proof -
  have "queue_reach qroot fs' \<and> job_at qroot fs' st i = Some f"
    using assms(2)
  proof (induction rule: rtranclp_induct)
    case (step g h)
    then have g: "one_place (job_at qroot g)" "job_at qroot g st i = Some f"
      by (auto intro: reach_one_place)
    have "job_at qroot h st i = Some f"
      using qstep_board [OF step.hyps(2)] board_step_terminal [OF _ g(1) assms(3) g(2)] g(2) by auto
    with step show ?case by (blast intro: queue_reach.more)
  qed (use assms in simp)
  then show ?thesis by blast
qed

definition finished_example :: jobs where
  "finished_example =
     finish [''q''] example_spec True (snd (claim [''q''] ''wgan-1'' posted_example))"

lemma finished_example_reach: "queue_reach [''q''] finished_example"
proof -
  let ?g = "snd (claim [''q''] ''wgan-1'' posted_example)"
  have "queue_reach [''q''] ?g"
    by (rule queue_reach.more [OF posted_example_reach q_claim])
  moreover have "job_at [''q''] ?g Running (js_id example_spec) = Some (JobDoc example_spec)"
    by (simp add: job_at_claim posted_example_at)
  ultimately show ?thesis
    unfolding finished_example_def
    by (rule queue_reach.more [OF _ q_finish]) (auto simp: same_job_def)
qed

lemma finished_job_stays_witness:
  "job_at [''q''] (snd (cancel [''q''] ''wgan-1'' finished_example)) Done ''wgan-1''
     = Some (JobDoc example_spec)"
proof (rule finished_job_stays [OF finished_example_reach])
  show "(qstep [''q''])\<^sup>*\<^sup>* finished_example (snd (cancel [''q''] ''wgan-1'' finished_example))"
    by (intro r_into_rtranclp q_cancel)
  show "job_at [''q''] finished_example Done ''wgan-1'' = Some (JobDoc example_spec)"
    by (simp add: finished_example_def job_at_finish)
qed simp

end
