(* ===== verification/Reaper.thy ===== *)
theory Reaper
  imports Preflight Killlog Queue
begin

text \<open>
  \<open>src/gpuqueue/reaper.py\<close>: recovery of what a dead runner left, the orphan sweep, the VRAM
  watchdog and the signal ladders.  What the operating system answers while a ladder waits is
  a list of observations (the clock and which processes have exited); a result of \<open>None\<close> says
  the observations listed do not decide.
\<close>

datatype signal = SIGTERM | SIGKILL

definition MAX_ATTEMPTS :: int where
  "MAX_ATTEMPTS = 1"

definition ORPHAN_TERM_GRACE_S :: time where
  "ORPHAN_TERM_GRACE_S = 5"

definition WATCHDOG_STRIKES :: int where
  "WATCHDOG_STRIKES = 2"

section \<open>Abandoned jobs\<close>

definition job_process_alive :: "snapshot \<Rightarrow> jobspec \<Rightarrow> bool" where
  "job_process_alive os s = (case js_pid s of None \<Rightarrow> False | Some p \<Rightarrow> p \<noteq> 0 \<and> pid_alive os p)"

definition abandoned_text :: "int \<Rightarrow> string" where
  "abandoned_text attempts = ''abandoned after '' @ show_int (attempts + 1)
     @ '' attempts; the runner or the job died repeatedly''"

definition orphan_step :: "snapshot \<Rightarrow> path \<Rightarrow> string set \<Rightarrow> jobspec
    \<Rightarrow> jobs \<times> string list \<times> string list \<Rightarrow> jobs \<times> string list \<times> string list" where
  "orphan_step os qroot active s = (\<lambda>(fs, requeued, failed).
     if js_id s \<in> active then (fs, requeued, failed)
     else if job_process_alive os s then (fs, requeued, failed)
     else if js_attempts s < MAX_ATTEMPTS
       then (snd (requeue qroot s fs), requeued @ [js_id s], failed)
     else (finish qroot (s\<lparr>js_error := Some (abandoned_text (js_attempts s))\<rparr>) False fs,
           requeued, failed @ [js_id s]))"

definition requeue_orphans :: "snapshot \<Rightarrow> path \<Rightarrow> string set \<Rightarrow> jobs
    \<Rightarrow> jobs \<times> string list \<times> string list" where
  "requeue_orphans os qroot active fs =
     fold (orphan_step os qroot active) (list_state qroot Running fs) (fs, [], [])"

section \<open>Exited processes\<close>

definition after_last :: "char \<Rightarrow> string \<Rightarrow> string" where
  "after_last c s = last (split_on c s)"

definition exited :: "snapshot \<Rightarrow> pid \<Rightarrow> bool" where
  "exited os p = (if \<not> pid_alive os p then True
     else (case stat_text os p of Inl absent \<Rightarrow> absent
        | Inr stat \<Rightarrow> (case split_ws (after_last CHR '')'' stat) of
             [] \<Rightarrow> False | state # _ \<Rightarrow> state = ''Z'')))"

section \<open>The orphan sweep\<close>

record kill =
  kl_pid :: pid
  kl_name :: string
  kl_used_mb :: "mib option"
  kl_cgroup :: "string option"
  kl_sigkilled :: bool

type_synonym observation = "time \<times> (pid \<Rightarrow> bool)"

text \<open>What the sweep's ladder meets: whether each SIGTERM and SIGKILL was delivered, when the
  grace began, and what was seen while it lasted.\<close>

record sweep_ladder =
  sl_term_ok :: "pid \<Rightarrow> bool"
  sl_kill_ok :: "pid \<Rightarrow> bool"
  sl_start :: time
  sl_seen :: "observation list"

fun grace_survivors :: "time \<Rightarrow> observation list \<Rightarrow> kill list \<Rightarrow> kill list option" where
  "grace_survivors deadline [] alive = None"
| "grace_survivors deadline ((now, gone) # seen) alive =
     (if now < deadline
      then (let alive' = filter (\<lambda>k. \<not> gone (kl_pid k)) alive
            in if alive' = [] then Some [] else grace_survivors deadline seen alive')
      else Some alive)"

definition orphan_victims :: "snapshot \<Rightarrow> pid set \<Rightarrow> ledger_record list \<Rightarrow> app list
    \<Rightarrow> path list \<Rightarrow> claims \<Rightarrow> app list" where
  "orphan_victims os protect records apps dirs fs =
     filter (\<lambda>a. app_pid a \<notin> protect \<union> own_pids os dirs fs
                 \<and> \<not> (\<exists>s\<in>own_scopes os dirs fs. in_scope os (app_pid a) s))
       (snd (attribute os apps records))"

definition kill_of :: "snapshot \<Rightarrow> app \<Rightarrow> kill" where
  "kill_of os a = \<lparr>kl_pid = app_pid a, kl_name = app_name a, kl_used_mb = app_used_mb a,
     kl_cgroup = cgroup_of os (app_pid a), kl_sigkilled = False\<rparr>"

definition kill_orphan_cuda :: "snapshot \<Rightarrow> sweep_ladder \<Rightarrow> pid set \<Rightarrow> ledger_record list \<Rightarrow> app list
    \<Rightarrow> path list \<Rightarrow> claims \<Rightarrow> kill list option" where
  "kill_orphan_cuda os l protect records apps dirs fs =
    (let killed = map (kill_of os) (orphan_victims os protect records apps dirs fs);
         signalled = filter (\<lambda>k. sl_term_ok l (kl_pid k)) killed
     in if signalled = [] then Some []
        else map_option (\<lambda>alive. map (\<lambda>k. if k \<in> set alive then k\<lparr>kl_sigkilled := sl_kill_ok l (kl_pid k)\<rparr> else k)
                             signalled)
               (grace_survivors (sl_start l + ORPHAN_TERM_GRACE_S) (sl_seen l) signalled))"

definition running_trees :: "snapshot \<Rightarrow> path \<Rightarrow> jobs \<Rightarrow> pid set" where
  "running_trees os qroot fs = \<Union> (set (map (\<lambda>s. case js_pid s of None \<Rightarrow> {}
       | Some p \<Rightarrow> if p = 0 then {} else insert p (descendants os p)) (list_state qroot Running fs)))"

section \<open>Debris\<close>

text \<open>The tree under \<open>work/\<close>: paths relative to it, and whether each is a directory.\<close>

type_synonym work_tree = "(path \<times> bool) list"

definition below :: "path \<Rightarrow> path \<Rightarrow> bool" where
  "below p q = (p \<noteq> q \<and> take (length p) q = p)"

definition partial_paths :: "string set \<Rightarrow> work_tree \<Rightarrow> work_tree" where
  "partial_paths live tree =
    (let parts = filter (\<lambda>(p, d). p \<noteq> [] \<and> ends_with (last p) ''.part'' \<and> hd p \<notin> live) tree
     in filter (\<lambda>(p, d). \<not> list_ex (\<lambda>(q, e). e \<and> below q p) parts) parts)"

definition clean_partials :: "path \<Rightarrow> jobs \<Rightarrow> work_tree \<Rightarrow> path list \<times> work_tree" where
  "clean_partials qroot fs tree =
    (let live = set (map js_id (list_state qroot Running fs));
         cleaned = partial_paths live tree;
         left = filter (\<lambda>(q, e). \<not> list_ex (\<lambda>(p, d). q = p \<or> d \<and> below p q) cleaned) tree
     in (map fst cleaned,
         filter (\<lambda>(q, e). \<not> (e \<and> length q = 1 \<and> hd q \<notin> live \<and> \<not> list_ex (\<lambda>(p, d). below q p) left)) left))"

section \<open>The ladder over a set of processes\<close>

text \<open>One rung: who had exited before it, when its grace began, what was seen during it.\<close>

type_synonym rung = "(pid \<Rightarrow> bool) \<times> time \<times> observation list"

fun wait_all_gone :: "time \<Rightarrow> observation list \<Rightarrow> pid list \<Rightarrow> bool option" where
  "wait_all_gone deadline [] tree = None"
| "wait_all_gone deadline ((now, gone) # seen) tree =
     (if now < deadline
      then (if list_all gone tree then Some True else wait_all_gone deadline seen tree)
      else Some False)"

definition climb :: "signal \<Rightarrow> time \<Rightarrow> pid list \<Rightarrow> rung
    \<Rightarrow> (bool \<times> (pid \<times> signal) list) option \<Rightarrow> (bool \<times> (pid \<times> signal) list) option" where
  "climb sig grace tree r next_rung = (case r of (gone, start, seen) \<Rightarrow>
     (let alive = filter (\<lambda>p. \<not> gone p) tree; sent = map (\<lambda>p. (p, sig)) alive in
      if alive = [] then Some (True, [])
      else (case wait_all_gone (start + grace) seen tree of
          None \<Rightarrow> None
        | Some True \<Rightarrow> Some (True, sent)
        | Some False \<Rightarrow> map_option (\<lambda>(off, sent'). (off, sent @ sent')) next_rung)))"

record kill_seen =
  ks_term :: rung
  ks_kill :: rung
  ks_final :: "pid \<Rightarrow> bool"

definition kill_pids :: "pid list \<Rightarrow> kill_seen \<Rightarrow> (bool \<times> (pid \<times> signal) list) option" where
  "kill_pids tree k = climb SIGTERM 10 tree (ks_term k)
     (climb SIGKILL 5 tree (ks_kill k) (Some (list_all (ks_final k) tree, [])))"

section \<open>The VRAM watchdog\<close>

record conviction =
  cv_owner :: pyval
  cv_declared :: mib
  cv_used :: mib
  cv_usage_pid :: "pid option"
  cv_pids :: "pid list"
  cv_killed :: bool

type_synonym strikes = "(path \<times> int) list"

definition owned_by :: "(path \<times> app list) list \<Rightarrow> path \<Rightarrow> app list" where
  "owned_by owned k = (case map_of owned k of None \<Rightarrow> [] | Some l \<Rightarrow> l)"

definition judge :: "(path \<times> app list) list \<Rightarrow> ledger_record \<Rightarrow> strikes \<times> conviction list
    \<Rightarrow> strikes \<times> conviction list" where
  "judge owned r = (\<lambda>(strikes, convicted).
     (case lr_vram_mb r of None \<Rightarrow> (strikes, convicted)
      | Some share \<Rightarrow>
        (let key = lr_path r; mine = owned_by owned key; used = used_mb mine in
         if used \<le> share then (AList.delete key strikes, convicted)
         else (let n = (case map_of strikes key of None \<Rightarrow> 0 | Some k \<Rightarrow> k) + 1 in
           if n \<ge> WATCHDOG_STRIKES
           then (AList.delete key strikes, convicted @
             [\<lparr>cv_owner = lr_owner r, cv_declared = share, cv_used = used, cv_usage_pid = lr_usage_pid r,
               cv_pids = sort (map app_pid mine), cv_killed = False\<rparr>])
           else (AList.update key n strikes, convicted)))))"

definition seen_paths :: "ledger_record list \<Rightarrow> path set" where
  "seen_paths rs = set (map lr_path (filter (\<lambda>r. lr_vram_mb r \<noteq> None) rs))"

definition broken_measurement :: "snapshot \<Rightarrow> ledger_record list \<Rightarrow> app list \<Rightarrow> bool" where
  "broken_measurement os rs apps = (case attribute os apps rs of (owned, unledgered) \<Rightarrow>
     unledgered \<noteq> [] \<and> owned = [] \<and>
     list_ex (\<lambda>r. case lr_usage_pid r of None \<Rightarrow> False | Some u \<Rightarrow> u \<noteq> 0) rs)"

definition check_vram :: "snapshot \<Rightarrow> ledger_record list \<Rightarrow> app list \<Rightarrow> strikes
    \<Rightarrow> conviction list \<times> strikes" where
  "check_vram os rs apps strikes =
    (if broken_measurement os rs apps then ([], [])
     else (let (strikes', convicted) = fold (judge (fst (attribute os apps rs))) rs (strikes, [])
           in (convicted, filter (\<lambda>(k, n). k \<in> seen_paths rs) strikes')))"

definition convicted_targets :: "snapshot \<Rightarrow> conviction \<Rightarrow> pid set" where
  "convicted_targets os c = (case cv_usage_pid c of None \<Rightarrow> {}
       | Some u \<Rightarrow> if u = 0 then {} else insert u (descendants os u)) \<union> set (cv_pids c)"

definition kill_convicted :: "snapshot \<Rightarrow> kill_seen \<Rightarrow> conviction \<Rightarrow> (bool \<times> (pid \<times> signal) list) option" where
  "kill_convicted os k c = (let targets = convicted_targets os c in
     if targets = {} then Some (False, []) else kill_pids (sorted_list_of_set targets) k)"

section \<open>One reap\<close>

definition swept_dirs :: "(path \<Rightarrow> path option) \<Rightarrow> string option \<Rightarrow> path \<Rightarrow> path list" where
  "swept_dirs canon env attributed_from = all_claim_dirs canon env (Some attributed_from)"

definition void_records :: "snapshot \<Rightarrow> path list \<Rightarrow> claims \<Rightarrow> path list" where
  "void_records os dirs fs = map lr_path (filter (\<lambda>r. lr_scope_cgroup r \<noteq> PNone \<and> \<not> scope_is_live os r)
     (concat (map (\<lambda>d. live_records os (all_records d fs)) dirs)))"

text \<open>What the operating system answers during one reap.\<close>

record surroundings =
  su_os :: snapshot
  su_env :: "string option"
  su_resolve :: "path \<Rightarrow> path option"
  su_deny :: "path \<Rightarrow> string option"
  su_sweep :: sweep_ladder
  su_kill :: "conviction \<Rightarrow> kill_seen"
  su_now :: string

record world =
  w_jobs :: jobs
  w_claims :: claims
  w_work :: work_tree
  w_kills :: "kill_line list option"
  w_strikes :: "strikes option"

record reap_result =
  rr_stale :: "ledger_record list"
  rr_stuck :: "(ledger_record \<times> string) list"
  rr_requeued :: "string list"
  rr_failed :: "string list"
  rr_killed :: "kill list"
  rr_cleaned :: "path list"
  rr_convicted :: "conviction list"
  rr_exemption_dirs :: "path list"
  rr_void_scopes :: "path list option"

definition kill_dict :: "kill \<Rightarrow> pydict" where
  "kill_dict k = [(''pid'', PInt (kl_pid k)), (''name'', PStr (kl_name k)),
     (''used_mb'', of_int_opt (kl_used_mb k)), (''cgroup'', of_str_opt (kl_cgroup k)),
     (''sigkilled'', PBool (kl_sigkilled k))]"

fun kill_all_convicted :: "surroundings \<Rightarrow> conviction list \<Rightarrow> conviction list option" where
  "kill_all_convicted su [] = Some []"
| "kill_all_convicted su (c # cs) =
     Option.bind (kill_convicted (su_os su) (su_kill su c) c) (\<lambda>(off, sent).
     Option.bind (kill_all_convicted su cs) (\<lambda>rest. Some (c\<lparr>cv_killed := off\<rparr> # rest)))"

text \<open>The timer-gated half: kills, consulted directories, log, convictions, strikes, void scopes.\<close>

definition sweep_card :: "runner_config \<Rightarrow> surroundings \<Rightarrow> path \<Rightarrow> world
    \<Rightarrow> (kill list \<times> path list \<times> conviction list \<times> path list option \<times> world) option" where
  "sweep_card cfg su d w = (case compute_apps (su_os su) of
      None \<Rightarrow> Some ([], [], [], None, w\<lparr>w_strikes := map_option (\<lambda>s. []) (w_strikes w)\<rparr>)
    | Some apps \<Rightarrow>
      (let os = su_os su; dirs = swept_dirs (su_resolve su) (su_env su) d;
           records = live_records os (all_records d (w_claims w));
           void = void_records os dirs (w_claims w) in
       Option.bind
         (if rc_kill_orphan_cuda cfg
          then map_option (\<lambda>killed. (killed, dirs))
            (kill_orphan_cuda os (su_sweep su) (running_trees os (rc_queue_root cfg) (w_jobs w)) records apps
               (all_claim_dirs (su_resolve su) (su_env su) None) (w_claims w))
          else Some ([], [])) (\<lambda>(killed, consulted).
       let w1 = w\<lparr>w_kills := append_kills (su_now su) (map kill_dict killed) (map path_text consulted) (w_kills w)\<rparr> in
       (case w_strikes w1 of
          Some strikes \<Rightarrow>
            if rc_enforce_vram cfg then
              (let (convicted, strikes') = check_vram os records apps strikes in
               map_option (\<lambda>cs. (killed, consulted, cs, Some void, w1\<lparr>w_strikes := Some strikes'\<rparr>))
                 (kill_all_convicted su convicted))
            else Some (killed, consulted, [], Some void, w1)
        | None \<Rightarrow> Some (killed, consulted, [], Some void, w1)))))"

definition reap :: "runner_config \<Rightarrow> surroundings \<Rightarrow> string set \<Rightarrow> bool \<Rightarrow> world
    \<Rightarrow> (reap_result \<times> world) option" where
  "reap cfg su active include_orphan_cuda w =
    (let d = (case rc_claim_dir cfg of None \<Rightarrow> claim_dir (su_env su) | Some p \<Rightarrow> p);
         (claims', stale, stuck) = sweep_stale (su_os su) (su_deny su)
            (swept_dirs (su_resolve su) (su_env su) d) (w_claims w);
         (jobs', requeued, failed) = requeue_orphans (su_os su) (rc_queue_root cfg) active (w_jobs w);
         w1 = w\<lparr>w_claims := claims', w_jobs := jobs'\<rparr> in
     Option.bind (if include_orphan_cuda \<and> (rc_kill_orphan_cuda cfg \<or> rc_enforce_vram cfg)
         then sweep_card cfg su d w1 else Some ([], [], [], None, w1))
       (\<lambda>(killed, consulted, convicted, void, w2).
         let (cleaned, work') = clean_partials (rc_queue_root cfg) (w_jobs w2) (w_work w2) in
         Some (\<lparr>rr_stale = stale, rr_stuck = stuck, rr_requeued = requeued, rr_failed = failed,
                rr_killed = killed, rr_cleaned = cleaned, rr_convicted = convicted,
                rr_exemption_dirs = consulted, rr_void_scopes = void\<rparr>,
               w2\<lparr>w_work := work'\<rparr>)))"

end
