(* ===== verification/SweepSafety.thy ===== *)
theory SweepSafety
  imports Reaper
begin

text \<open>
  What the orphan sweep and the signal ladder of \<open>src/gpuqueue/reaper.py\<close> may do: no process a
  live claim covers, in any directory a claim could be in, is signalled; SIGKILL goes only to
  a process that has outlived its SIGTERM and the whole grace; the ladder's answer is what was
  last seen.
\<close>

section \<open>Whom the sweep may signal\<close>

lemma sweep_signals_victims:
  assumes "kill_orphan_cuda os l protect records apps dirs fs = Some kills" and "k \<in> set kills"
  obtains a where "a \<in> set (orphan_victims os protect records apps dirs fs)"
    "kl_pid k = app_pid a" "sl_term_ok l (app_pid a)" "kl_cgroup k = cgroup_of os (app_pid a)"
proof -
  define sg where "sg = filter (\<lambda>k. sl_term_ok l (kl_pid k)) (map (kill_of os) (orphan_victims os protect records apps dirs fs))"
  obtain z where "kills = map (\<lambda>k. if k \<in> z then k\<lparr>kl_sigkilled := sl_kill_ok l (kl_pid k)\<rparr> else k) sg"
    using assms(1) unfolding kill_orphan_cuda_def Let_def sg_def [symmetric] by (auto split: if_splits)
  with assms(2) obtain k0 where "k0 \<in> set sg" "k = (if k0 \<in> z then k0\<lparr>kl_sigkilled := sl_kill_ok l (kl_pid k0)\<rparr> else k0)"
    by auto
  then have "\<exists>k0\<in>set sg. kl_pid k = kl_pid k0 \<and> kl_cgroup k = kl_cgroup k0"
    by (intro bexI [of _ k0]) simp_all
  then show thesis using that by (auto simp: sg_def kill_of_def)
qed

lemma own_pids_record:
  assumes "d \<in> set dirs" and "r \<in> set (live_records os (all_records d fs))"
  shows "record_pids os r \<subseteq> own_pids os dirs fs"
  using assms by (auto simp: own_pids_def)

lemma own_scopes_record:
  assumes "d \<in> set dirs" and "r \<in> set (live_records os (all_records d fs))" and "in_live_scope os r p"
  shows "\<exists>s\<in>own_scopes os dirs fs. in_scope os p s"
proof -
  have live: "scope_is_live os r" and s: "in_scope os p (scope_string (lr_scope_cgroup r))"
    using assms(3) by (simp_all add: in_live_scope_def)
  then have "scope_string (lr_scope_cgroup r) \<noteq> []" by (auto simp: in_scope_def)
  then have "truthy (lr_scope_cgroup r)" by (cases "lr_scope_cgroup r") auto
  then have "scope_string (lr_scope_cgroup r) \<in> own_scopes os dirs fs"
    using assms(1,2) live by (auto simp: own_scopes_def)
  with s show ?thesis by blast
qed

lemma victim_uncovered:
  assumes a: "a \<in> set (orphan_victims os protect (live_records os (all_records c fs)) apps dirs fs)"
    and d: "d = c \<or> d \<in> set dirs" and r: "r \<in> set (live_records os (all_records d fs))"
  shows "\<not> covers os r (app_pid a)"
proof (cases "d \<in> set dirs")
  case True
  have "app_pid a \<notin> record_pids os r"
    using a own_pids_record [OF True r] by (auto simp: orphan_victims_def)
  then have "\<not> in_tree os r (app_pid a)"
    by (auto simp: in_tree_def record_pids_def split: option.splits)
  moreover have "\<not> in_live_scope os r (app_pid a)"
    using a own_scopes_record [OF True r, of "app_pid a"] by (auto simp: orphan_victims_def)
  ultimately show ?thesis by (simp add: covers_def)
next
  case False
  with d r a show ?thesis
    by (auto simp: orphan_victims_def unledgered_live list_ex_iff)
qed

text \<open>C7: a process the sweep signals is covered by no live record - not by a process tree and
  not by a live scope - in the directory the ledger is attributed from or in any directory a
  claim of this box could be in, is outside every running job's tree and outside the runner's
  own, and its cgroup was read before the signal.\<close>

theorem sweep_spares_every_claim:
  assumes "kill_orphan_cuda os l protect (live_records os (all_records c fs)) apps dirs fs = Some kills"
    and "k \<in> set kills" and "d = c \<or> d \<in> set dirs" and "r \<in> set (live_records os (all_records d fs))"
  shows "\<not> covers os r (kl_pid k) \<and> kl_pid k \<notin> protect
     \<and> kl_pid k \<notin> insert (own_pid os) (insert (own_ppid os) (descendants os (own_pid os)))
     \<and> (d \<in> set dirs \<longrightarrow> kl_pid k \<noteq> lr_pid r) \<and> kl_cgroup k = cgroup_of os (kl_pid k)"
proof -
  obtain a where a: "a \<in> set (orphan_victims os protect (live_records os (all_records c fs)) apps dirs fs)"
    and k: "kl_pid k = app_pid a" "kl_cgroup k = cgroup_of os (app_pid a)"
    by (rule sweep_signals_victims [OF assms(1,2)])
  have "app_pid a \<notin> own_pids os dirs fs" "app_pid a \<notin> protect"
    using a by (auto simp: orphan_victims_def)
  moreover have "d \<in> set dirs \<longrightarrow> app_pid a \<noteq> lr_pid r"
    using calculation(1) own_pids_record [OF _ assms(4), of dirs] by (auto simp: record_pids_def)
  ultimately show ?thesis
    using victim_uncovered [OF a assms(3,4)] k by (auto simp: own_pids_def)
qed

definition stranger :: app where
  "stranger = \<lparr>app_pid = 77, app_used_mb = Some 900, app_name = ''python''\<rparr>"

definition calm_ladder :: sweep_ladder where
  "calm_ladder = \<lparr>sl_term_ok = (\<lambda>p. True), sl_kill_ok = (\<lambda>p. True), sl_start = 100,
     sl_seen = [(100, \<lambda>p. False), (101, \<lambda>p. True)]\<rparr>"

lemma sweep_spares_every_claim_witness:
  "\<exists>kills. kill_orphan_cuda quiet_box calm_ladder {} (live_records quiet_box (all_records [''locks''] two_claims))
       [stranger] [[''locks'']] two_claims = Some kills
     \<and> list_ex (\<lambda>k. kl_pid k = 77 \<and> \<not> covers quiet_box admitted_only (kl_pid k)) kills"
proof -
  let ?kills = "kill_orphan_cuda quiet_box calm_ladder {} (live_records quiet_box (all_records [''locks''] two_claims))
       [stranger] [[''locks'']] two_claims"
  have "list_ex (\<lambda>r. r = admitted_only) (live_records quiet_box (all_records [''locks''] two_claims))"
    by code_simp
  then have r: "admitted_only \<in> set (live_records quiet_box (all_records [''locks''] two_claims))"
    by (simp add: list_ex_iff)
  have "map_option (list_ex (\<lambda>k. kl_pid k = 77)) ?kills = Some True" by code_simp
  then obtain kills where kills: "?kills = Some kills" "list_ex (\<lambda>k. kl_pid k = 77) kills" by auto
  then obtain k where k: "k \<in> set kills" "kl_pid k = 77" by (auto simp: list_ex_iff)
  from sweep_spares_every_claim [OF kills(1) k(1) _ r] k kills(1) show ?thesis
    by (auto simp: list_ex_iff)
qed

section \<open>The ladder\<close>

lemma wait_all_gone_decides:
  "i < length seen \<Longrightarrow> deadline \<le> fst (seen ! i) \<Longrightarrow> wait_all_gone deadline seen tree \<noteq> None"
proof (induction deadline seen tree arbitrary: i rule: wait_all_gone.induct)
  case (2 deadline now gone seen tree)
  then show ?case by (cases i) auto
qed simp

definition rung_over :: "time \<Rightarrow> rung \<Rightarrow> bool" where
  "rung_over grace r = (case r of (gone, start, seen) \<Rightarrow> list_ex (\<lambda>(now, g). start + grace \<le> now) seen)"

lemma climb_decides:
  assumes "rung_over grace r" and "next_rung \<noteq> None"
  shows "climb sig grace tree r next_rung \<noteq> None"
proof -
  obtain gone start seen where r: "r = (gone, start, seen)" by (cases r)
  with assms(1) obtain i where "i < length seen" "start + grace \<le> fst (seen ! i)"
    by (auto simp: rung_over_def list_ex_iff in_set_conv_nth)
  then have "wait_all_gone (start + grace) seen tree \<noteq> None" by (rule wait_all_gone_decides)
  then obtain b where "wait_all_gone (start + grace) seen tree = Some b" by blast
  with r assms(2) show ?thesis by (cases b) (auto simp: climb_def Let_def)
qed

text \<open>Every process of the set was seen gone within the grace of a rung.\<close>

definition cleared_within :: "time \<Rightarrow> rung \<Rightarrow> pid list \<Rightarrow> bool" where
  "cleared_within grace r tree = (case r of (gone, start, seen) \<Rightarrow>
     list_ex (\<lambda>(now, g). list_all g tree) (takeWhile (\<lambda>(now, g). now < start + grace) seen))"

lemma wait_all_gone_cleared:
  "wait_all_gone (start + grace) seen tree = Some b \<Longrightarrow> cleared_within grace (gone, start, seen) tree = b"
  by (induction "start + grace" seen tree rule: wait_all_gone.induct)
    (auto simp: cleared_within_def split: if_splits)

lemma climb_outcome:
  assumes "climb sig grace tree r next_rung = Some (off, sent)"
  shows "off \<longleftrightarrow> list_all (fst r) tree \<or> cleared_within grace r tree \<or> fst (the next_rung)"
    and "sent = map (\<lambda>p. (p, sig)) (filter (\<lambda>p. \<not> fst r p) tree)
       @ (if list_all (fst r) tree \<or> cleared_within grace r tree then [] else snd (the next_rung))"
proof -
  obtain gone start seen where r: "r = (gone, start, seen)" by (cases r)
  have none: "filter (\<lambda>p. \<not> gone p) tree = [] \<longleftrightarrow> list_all gone tree"
    by (simp add: filter_empty_conv list_all_iff)
  have "(off \<longleftrightarrow> list_all (fst r) tree \<or> cleared_within grace r tree \<or> fst (the next_rung))
    \<and> sent = map (\<lambda>p. (p, sig)) (filter (\<lambda>p. \<not> fst r p) tree)
       @ (if list_all (fst r) tree \<or> cleared_within grace r tree then [] else snd (the next_rung))"
    using assms wait_all_gone_cleared [of start grace seen tree _ gone]
    by (auto simp: r climb_def Let_def none split: if_splits option.splits bool.splits)
  then show "off \<longleftrightarrow> list_all (fst r) tree \<or> cleared_within grace r tree \<or> fst (the next_rung)"
    and "sent = map (\<lambda>p. (p, sig)) (filter (\<lambda>p. \<not> fst r p) tree)
       @ (if list_all (fst r) tree \<or> cleared_within grace r tree then [] else snd (the next_rung))"
    by blast+
qed

text \<open>C27: the ladder always ends - ten seconds after its start for SIGTERM and five more for
  SIGKILL.  It sends SIGTERM to exactly the processes of its set that have not exited, and, when
  the set is not seen gone within the ten seconds, SIGKILL to exactly those that have not exited
  then; and it answers that the set is off the card exactly when every process had exited before
  the first or the second signal, was seen gone within one of the graces, or is gone at the end.\<close>

theorem ladder_ends_and_answers:
  assumes "rung_over 10 (ks_term k)" and "rung_over 5 (ks_kill k)"
  shows "\<exists>off sent. kill_pids tree k = Some (off, sent)
     \<and> (off \<longleftrightarrow> list_all (fst (ks_term k)) tree \<or> cleared_within 10 (ks_term k) tree
          \<or> list_all (fst (ks_kill k)) tree \<or> cleared_within 5 (ks_kill k) tree \<or> list_all (ks_final k) tree)
     \<and> sent = map (\<lambda>p. (p, SIGTERM)) (filter (\<lambda>p. \<not> fst (ks_term k) p) tree)
          @ (if list_all (fst (ks_term k)) tree \<or> cleared_within 10 (ks_term k) tree then []
             else map (\<lambda>p. (p, SIGKILL)) (filter (\<lambda>p. \<not> fst (ks_kill k) p) tree))"
proof -
  let ?up = "climb SIGKILL 5 tree (ks_kill k) (Some (list_all (ks_final k) tree, []))"
  have "?up \<noteq> None" using assms(2) by (rule climb_decides) simp
  then obtain off2 sent2 where up: "?up = Some (off2, sent2)" by auto
  have "kill_pids tree k \<noteq> None"
    unfolding kill_pids_def using assms(1) by (rule climb_decides) (simp add: up)
  then obtain off sent where res: "kill_pids tree k = Some (off, sent)" by auto
  have "off2 \<longleftrightarrow> list_all (fst (ks_kill k)) tree \<or> cleared_within 5 (ks_kill k) tree \<or> list_all (ks_final k) tree"
    "sent2 = map (\<lambda>p. (p, SIGKILL)) (filter (\<lambda>p. \<not> fst (ks_kill k) p) tree)"
    using climb_outcome [OF up] by (simp_all split: if_splits)
  with climb_outcome [OF res [unfolded kill_pids_def]] res show ?thesis by (simp add: up)
qed

definition stubborn :: kill_seen where
  "stubborn = \<lparr>ks_term = ((\<lambda>p. False), 0, [(0, \<lambda>p. p = 12), (10, \<lambda>p. p = 12)]),
     ks_kill = ((\<lambda>p. p = 12), 10, [(10, \<lambda>p. True), (15, \<lambda>p. True)]), ks_final = (\<lambda>p. True)\<rparr>"

lemma ladder_ends_and_answers_witness:
  "kill_pids [11, 12] stubborn = Some (True, [(11, SIGTERM), (12, SIGTERM), (11, SIGKILL)])
   \<and> (\<exists>off sent. kill_pids [11, 12] stubborn = Some (off, sent))"
proof -
  have "rung_over 10 (ks_term stubborn)" "rung_over 5 (ks_kill stubborn)"
    "kill_pids [11, 12] stubborn = Some (True, [(11, SIGTERM), (12, SIGTERM), (11, SIGKILL)])"
    by code_simp+
  then show ?thesis using ladder_ends_and_answers [of stubborn "[11, 12]"] by blast
qed

end
