(* ===== verification/Watchdog.thy ===== *)
theory Watchdog
  imports SweepSafety
begin

text \<open>
  The VRAM watchdog of \<open>src/gpuqueue/reaper.py\<close>: whom \<open>check_vram\<close> convicts, what the
  strikes remember from sweep to sweep, and what a reap that cannot see the card leaves.
\<close>

section \<open>One sweep\<close>

text \<open>A record is over when the processes charged to it use more than it declared.\<close>

definition over :: "(path \<times> app list) list \<Rightarrow> ledger_record \<Rightarrow> bool" where
  "over owned r = (case lr_vram_mb r of None \<Rightarrow> False
     | Some share \<Rightarrow> share < used_mb (owned_by owned (lr_path r)))"

definition conviction_of :: "(path \<times> app list) list \<Rightarrow> ledger_record \<Rightarrow> conviction" where
  "conviction_of owned r = \<lparr>cv_owner = lr_owner r,
     cv_declared = (case lr_vram_mb r of None \<Rightarrow> 0 | Some v \<Rightarrow> v),
     cv_used = used_mb (owned_by owned (lr_path r)), cv_usage_pid = lr_usage_pid r,
     cv_pids = sort (map app_pid (owned_by owned (lr_path r))), cv_killed = False\<rparr>"

text \<open>Strikes stand at one: the second is the conviction.\<close>

definition one_strike :: "strikes \<Rightarrow> bool" where
  "one_strike st = (\<forall>k n. map_of st k = Some n \<longrightarrow> n = 1)"

lemma judge_one:
  assumes "one_strike st"
  shows "judge owned r (st, cs) =
     (if over owned r then
        (if map_of st (lr_path r) = None then (AList.update (lr_path r) 1 st, cs)
         else (AList.delete (lr_path r) st, cs @ [conviction_of owned r]))
      else (if lr_vram_mb r = None then st else AList.delete (lr_path r) st, cs))"
  using assms
  by (auto simp: judge_def Let_def over_def conviction_of_def one_strike_def WATCHDOG_STRIKES_def
      split: option.splits)

lemma one_strike_update: "one_strike st \<Longrightarrow> one_strike (AList.update k 1 st)"
  by (simp add: one_strike_def update_conv')

lemma one_strike_delete: "one_strike st \<Longrightarrow> one_strike (AList.delete k st)"
  by (simp add: one_strike_def delete_conv')

lemma one_strike_judge: "one_strike st \<Longrightarrow> one_strike (fst (judge owned r (st, cs)))"
  by (simp add: judge_one one_strike_update one_strike_delete)

lemma map_of_judge:
  assumes "one_strike st"
  shows "map_of (fst (judge owned r (st, cs))) k =
     (if k = lr_path r \<and> lr_vram_mb r \<noteq> None
      then (if over owned r \<and> map_of st k = None then Some 1 else None) else map_of st k)"
  using assms
  by (auto simp: judge_one update_conv' delete_conv' over_def)

lemma fold_judge:
  assumes "one_strike st" and "distinct (map lr_path rs)"
  shows "one_strike (fst (fold (judge owned) rs (st, cs)))
   \<and> set (snd (fold (judge owned) rs (st, cs)))
       = set cs \<union> {conviction_of owned r | r. r \<in> set rs \<and> over owned r \<and> map_of st (lr_path r) \<noteq> None}
   \<and> (\<forall>k. map_of (fst (fold (judge owned) rs (st, cs))) k =
        (if k \<in> seen_paths rs
         then (if (\<exists>r\<in>set rs. lr_path r = k \<and> over owned r) \<and> map_of st k = None then Some 1 else None)
         else map_of st k))"
  using assms
proof (induction rs arbitrary: st cs)
  case Nil
  then show ?case by (simp add: seen_paths_def)
next
  case (Cons r rs)
  obtain st' cs' where j: "judge owned r (st, cs) = (st', cs')" by fastforce
  have st': "one_strike st'" using one_strike_judge [OF Cons.prems(1)] j by (metis fst_conv)
  have dist: "distinct (map lr_path rs)" and new: "lr_path r \<notin> lr_path ` set rs"
    using Cons.prems(2) by auto
  note IH = Cons.IH [OF st' dist, of cs']
  have m: "map_of st' k = (if k = lr_path r \<and> lr_vram_mb r \<noteq> None
      then (if over owned r \<and> map_of st k = None then Some 1 else None) else map_of st k)" for k
    using map_of_judge [OF Cons.prems(1), of owned r cs k] j by simp
  have c: "cs' = (if over owned r \<and> map_of st (lr_path r) \<noteq> None then cs @ [conviction_of owned r] else cs)"
    using judge_one [OF Cons.prems(1), of owned r cs] j by (auto split: if_splits)
  have old: "map_of st' (lr_path x) = map_of st (lr_path x)" if "x \<in> set rs" for x
  proof -
    have "lr_path x \<noteq> lr_path r" using that new by (metis imageI)
    then show ?thesis by (simp add: m)
  qed
  have fold: "fold (judge owned) (r # rs) (st, cs) = fold (judge owned) rs (st', cs')" by (simp add: j)
  have over_declared: "over owned r \<Longrightarrow> lr_vram_mb r \<noteq> None" by (simp add: over_def split: option.splits)
  have "set cs' \<union> {conviction_of owned x | x. x \<in> set rs \<and> over owned x \<and> map_of st' (lr_path x) \<noteq> None}
      = set cs \<union> {conviction_of owned x | x. x \<in> set (r # rs) \<and> over owned x \<and> map_of st (lr_path x) \<noteq> None}"
    using old by (auto simp: c)
  moreover have "(if k \<in> seen_paths rs
         then (if (\<exists>x\<in>set rs. lr_path x = k \<and> over owned x) \<and> map_of st' k = None then Some 1 else None)
         else map_of st' k)
      = (if k \<in> seen_paths (r # rs)
         then (if (\<exists>x\<in>set (r # rs). lr_path x = k \<and> over owned x) \<and> map_of st k = None then Some 1 else None)
         else map_of st k)" for k
  proof (cases "k = lr_path r")
    case True
    then have none: "lr_path x \<noteq> k" if "x \<in> set rs" for x using that new by (metis imageI)
    then have "k \<notin> seen_paths rs" "\<not> (\<exists>x\<in>set rs. lr_path x = k \<and> over owned x)"
      by (auto simp: seen_paths_def)
    with True show ?thesis by (auto simp: m seen_paths_def)
  next
    case False
    then show ?thesis by (auto simp: m seen_paths_def)
  qed
  ultimately show ?case unfolding fold using IH by simp
qed

section \<open>From sweep to sweep\<close>

lemma map_of_filter_keys: "map_of (filter (\<lambda>(k, n). P k) st) k = (if P k then map_of st k else None)"
  by (induction st) auto

definition charges :: "snapshot \<Rightarrow> ledger_record list \<Rightarrow> app list \<Rightarrow> (path \<times> app list) list" where
  "charges os rs apps = fst (attribute os apps rs)"

lemma check_vram_result:
  assumes "one_strike st" and "distinct (map lr_path rs)" and "\<not> broken_measurement os rs apps"
  shows "set (fst (check_vram os rs apps st))
       = {conviction_of (charges os rs apps) r | r. r \<in> set rs \<and> over (charges os rs apps) r
            \<and> map_of st (lr_path r) \<noteq> None}"
    and "map_of (snd (check_vram os rs apps st)) k
       = (if k \<in> seen_paths rs \<and> (\<exists>r\<in>set rs. lr_path r = k \<and> over (charges os rs apps) r) \<and> map_of st k = None
          then Some 1 else None)"
proof -
  obtain st' cs where f: "fold (judge (charges os rs apps)) rs (st, []) = (st', cs)" by fastforce
  then have c: "check_vram os rs apps st = (cs, filter (\<lambda>(k, n). k \<in> seen_paths rs) st')"
    using assms(3) by (simp add: check_vram_def charges_def)
  note r = fold_judge [OF assms(1,2), of "charges os rs apps" "[]", unfolded f fst_conv snd_conv]
  show "set (fst (check_vram os rs apps st))
       = {conviction_of (charges os rs apps) r | r. r \<in> set rs \<and> over (charges os rs apps) r
            \<and> map_of st (lr_path r) \<noteq> None}"
    unfolding c using r by simp
  show "map_of (snd (check_vram os rs apps st)) k
       = (if k \<in> seen_paths rs \<and> (\<exists>r\<in>set rs. lr_path r = k \<and> over (charges os rs apps) r) \<and> map_of st k = None
          then Some 1 else None)"
    unfolding c snd_conv map_of_filter_keys using r by auto
qed

lemma check_vram_broken: "broken_measurement os rs apps \<Longrightarrow> check_vram os rs apps st = ([], [])"
  by (simp add: check_vram_def)

lemma one_strike_check:
  assumes "one_strike st" and "distinct (map lr_path rs)"
  shows "one_strike (snd (check_vram os rs apps st))"
proof (cases "broken_measurement os rs apps")
  case False
  then show ?thesis using check_vram_result(2) [OF assms False] by (auto simp: one_strike_def split: if_splits)
qed (simp add: check_vram_broken one_strike_def)

lemma seen_over: "r \<in> set rs \<Longrightarrow> over owned r \<Longrightarrow> lr_path r \<in> seen_paths rs"
  by (auto simp: seen_paths_def over_def split: option.splits)

lemma check_vram_none:
  assumes "distinct (map lr_path rs)"
  shows "fst (check_vram os rs apps []) = []"
proof (cases "broken_measurement os rs apps")
  case False
  have "one_strike []" by (simp add: one_strike_def)
  from check_vram_result(1) [OF this assms False] show ?thesis by simp
qed (simp add: check_vram_broken)

lemma live_all_distinct: "distinct (map lr_path (live_records os (all_records d fs)))"
  by (rule live_distinct) (rule all_records_distinct)

text \<open>C9: a sweep convicts exactly the holders whose processes use more than they declared in
  this sweep and did so in the sweep before, without a strike already spent; an exclusive
  holder never; and nobody when either measurement was broken or when nobody was measured
  before.\<close>

theorem watchdog_convicts_exactly:
  assumes "one_strike st"
    and "rs1 = live_records os1 (all_records d fs1)" and "rs2 = live_records os2 (all_records d fs2)"
    and "st1 = snd (check_vram os1 rs1 apps1 st)"
  shows "set (fst (check_vram os2 rs2 apps2 st1)) =
     (if broken_measurement os1 rs1 apps1 \<or> broken_measurement os2 rs2 apps2 then {}
      else {conviction_of (charges os2 rs2 apps2) r | r. r \<in> set rs2 \<and> over (charges os2 rs2 apps2) r
              \<and> (\<exists>r1\<in>set rs1. lr_path r1 = lr_path r \<and> over (charges os1 rs1 apps1) r1)
              \<and> map_of st (lr_path r) = None})
   \<and> one_strike (snd (check_vram os2 rs2 apps2 st1)) \<and> fst (check_vram os2 rs2 apps2 []) = []"
proof -
  have d1: "distinct (map lr_path rs1)" and d2: "distinct (map lr_path rs2)"
    by (simp_all add: assms(2,3) live_all_distinct)
  have st1: "one_strike st1" unfolding assms(4) by (rule one_strike_check [OF assms(1) d1])
  have "set (fst (check_vram os2 rs2 apps2 st1)) =
     (if broken_measurement os1 rs1 apps1 \<or> broken_measurement os2 rs2 apps2 then {}
      else {conviction_of (charges os2 rs2 apps2) r | r. r \<in> set rs2 \<and> over (charges os2 rs2 apps2) r
              \<and> (\<exists>r1\<in>set rs1. lr_path r1 = lr_path r \<and> over (charges os1 rs1 apps1) r1)
              \<and> map_of st (lr_path r) = None})"
  proof (cases "broken_measurement os1 rs1 apps1 \<or> broken_measurement os2 rs2 apps2")
    case True
    then show ?thesis using check_vram_none [OF d2] by (auto simp: assms(4) check_vram_broken)
  next
    case False
    have struck: "map_of st1 (lr_path r) \<noteq> None \<longleftrightarrow>
        (\<exists>r1\<in>set rs1. lr_path r1 = lr_path r \<and> over (charges os1 rs1 apps1) r1) \<and> map_of st (lr_path r) = None" for r :: ledger_record
    proof -
      have "(\<exists>r1\<in>set rs1. lr_path r1 = lr_path r \<and> over (charges os1 rs1 apps1) r1) \<Longrightarrow> lr_path r \<in> seen_paths rs1"
        using seen_over by metis
      then show ?thesis
        using False unfolding assms(4) by (auto simp: check_vram_result(2) [OF assms(1) d1])
    qed
    from False show ?thesis
      unfolding struck [symmetric] by (simp add: check_vram_result(1) [OF st1 d2])
  qed
  with one_strike_check [OF st1 d2] check_vram_none [OF d2] show ?thesis by simp
qed

definition greedy :: app where
  "greedy = \<lparr>app_pid = 11, app_used_mb = Some 5000, app_name = ''python''\<rparr>"

definition launched :: claims where
  "launched = write_record (admitted_only\<lparr>lr_usage_pid := Some 10\<rparr>) []"

lemma watchdog_convicts_exactly_witness:
  "let rs = live_records quiet_box (all_records [''locks''] launched) in
   length (fst (check_vram quiet_box rs [greedy] (snd (check_vram quiet_box rs [greedy] [])))) = 1
   \<and> fst (check_vram quiet_box rs [greedy] []) = []"
proof -
  let ?rs = "live_records quiet_box (all_records [''locks''] launched)"
  have "one_strike []" by (simp add: one_strike_def)
  from watchdog_convicts_exactly [OF this refl refl refl, where ?os1.0 = quiet_box and d = "[''locks'']"
      and ?fs1.0 = launched and ?os2.0 = quiet_box and ?fs2.0 = launched and ?apps1.0 = "[greedy]" and ?apps2.0 = "[greedy]"]
  have "fst (check_vram quiet_box ?rs [greedy] []) = []" by blast
  moreover have "length (fst (check_vram quiet_box ?rs [greedy] (snd (check_vram quiet_box ?rs [greedy] [])))) = 1"
    by code_simp
  ultimately show ?thesis by (simp add: Let_def)
qed

end
