(* ===== verification/Recovery.thy ===== *)
theory Recovery
  imports Watchdog
begin

text \<open>
  What one \<open>reap\<close> of \<open>src/gpuqueue/reaper.py\<close> leaves behind: the abandoned jobs are settled,
  every directory that can grant an exemption has been swept, and a reap that measured
  nothing remembers nothing.
\<close>

section \<open>Abandoned jobs are settled once\<close>

text \<open>The files under \<open>running/\<close> carry the name of their job, as \<open>claim\<close> leaves them.\<close>

definition filed_by_id :: "path \<Rightarrow> jobs \<Rightarrow> bool" where
  "filed_by_id qroot fs = (\<forall>i s. job_at qroot fs Running i = Some (JobDoc s) \<longrightarrow> js_id s = i)"

definition spared :: "snapshot \<Rightarrow> string set \<Rightarrow> jobspec \<Rightarrow> bool" where
  "spared os active s = (js_id s \<in> active \<or> job_process_alive os s)"

definition settled :: "jobspec \<Rightarrow> qstate \<times> jobspec" where
  "settled s = (if js_attempts s < MAX_ATTEMPTS
     then (Pending, s\<lparr>js_attempts := js_attempts s + 1, js_pid := None\<rparr>)
     else (Failed, s\<lparr>js_error := Some (abandoned_text (js_attempts s))\<rparr>))"

lemma orphan_step_board:
  "job_at qroot (fst (orphan_step os qroot active s st)) =
     (if spared os active s then job_at qroot (fst st)
      else moved Running (fst (settled s)) (js_id s) (JobDoc (snd (settled s))) (job_at qroot (fst st)))"
  using qb.at_requeue [of qroot s "fst st"]
    qb.at_finish [of qroot "s\<lparr>js_error := Some (abandoned_text (js_attempts s))\<rparr>" False "fst st"]
  by (auto simp: orphan_step_def spared_def settled_def split: prod.splits)

lemma fst_settled: "fst (settled s) \<noteq> Running"
  by (simp add: settled_def)

lemma fold_orphans:
  assumes "\<And>s. s \<in> set ss \<Longrightarrow> job_at qroot (fst st) Running (js_id s) = Some (JobDoc s)"
    and "distinct (map js_id ss)"
  shows "job_at qroot (fst (fold (orphan_step os qroot active) ss st)) q i =
     (case find (\<lambda>s. js_id s = i \<and> \<not> spared os active s) ss of
        None \<Rightarrow> job_at qroot (fst st) q i
      | Some s \<Rightarrow> if q = fst (settled s) then Some (JobDoc (snd (settled s)))
                  else if q = Running then None else job_at qroot (fst st) q i)"
  using assms
proof (induction ss arbitrary: st)
  case (Cons s ss)
  let ?st = "orphan_step os qroot active s st"
  have other: "js_id x \<noteq> js_id s" if "x \<in> set ss" for x
    using that Cons.prems(2) by (metis distinct.simps(2) image_eqI list.simps(9) set_map)
  have later: "job_at qroot (fst ?st) Running (js_id x) = Some (JobDoc x)" if "x \<in> set ss" for x
    using other [OF that] that Cons.prems(1) by (simp add: orphan_step_board moved_def)
  have none: "find (\<lambda>x. js_id x = js_id s \<and> \<not> spared os active x) ss = None"
    using other by (auto simp: find_None_iff)
  show ?case
    using Cons.IH [OF later] Cons.prems(2) none
    by (auto simp: orphan_step_board moved_def split: option.splits)
qed simp

lemma distinct_listed:
  assumes "\<And>i s. job_at qroot fs st i = Some (JobDoc s) \<Longrightarrow> js_id s = i"
  shows "distinct (map js_id (list_state qroot st fs))"
proof -
  let ?names = "glob_names (qroot @ [state_dir st]) ''.json'' fs"
  let ?at = "\<lambda>n. case read_spec (qroot @ [state_dir st, n]) fs of Inr s \<Rightarrow> [s] | Inl _ \<Rightarrow> []"
  have id: "js_id s @ ''.json'' = n" if "s \<in> set (?at n)" "ends_with n ''.json''" for s n
  proof -
    note here = that(1)
    from that(2) obtain i where n: "n = i @ ''.json''" by (auto simp: ends_with_iff)
    with here have "job_at qroot fs st i = Some (JobDoc s)"
      using read_spec_job_at [of qroot st i fs s] by (auto simp: path_for_def split: sum.splits)
    with assms n show ?thesis by simp
  qed
  have all: "distinct (map js_id (concat (map ?at ns)))"
    if "distinct ns" "\<And>n. n \<in> set ns \<Longrightarrow> ends_with n ''.json''" for ns
    using that
  proof (induction ns)
    case (Cons n ns)
    have "js_id s \<noteq> js_id t" if "s \<in> set (?at n)" "m \<in> set ns" "t \<in> set (?at m)" for s t m
      using id [OF that(1)] id [OF that(3)] that(2) Cons.prems by auto
    moreover have "distinct (map js_id (?at n))" by (simp split: sum.splits)
    ultimately show ?case using Cons by fastforce
  qed simp
  show ?thesis unfolding list_state_def by (rule all) (simp_all add: set_glob_names)
qed

text \<open>The whole board after the recovery.\<close>

lemma recovered_board:
  assumes "filed_by_id qroot fs"
  shows "job_at qroot (fst (requeue_orphans os qroot active fs)) q i =
     (case job_at qroot fs Running i of
        Some (JobDoc s) \<Rightarrow> if spared os active s then job_at qroot fs q i
          else if q = fst (settled s) then Some (JobDoc (snd (settled s)))
          else if q = Running then None else job_at qroot fs q i
      | _ \<Rightarrow> job_at qroot fs q i)"
proof -
  let ?ss = "list_state qroot Running fs"
  have at: "job_at qroot fs Running (js_id x) = Some (JobDoc x)" if "x \<in> set ?ss" for x
    using that assms by (auto simp: in_list_state filed_by_id_def)
  have distinct: "distinct (map js_id ?ss)"
    using assms by (intro distinct_listed) (simp add: filed_by_id_def)
  have "find (\<lambda>x. js_id x = i \<and> \<not> spared os active x) ?ss =
     (case job_at qroot fs Running i of Some (JobDoc s) \<Rightarrow> if spared os active s then None else Some s | _ \<Rightarrow> None)"
  proof (cases "find (\<lambda>x. js_id x = i \<and> \<not> spared os active x) ?ss")
    case None
    have "spared os active s" if "job_at qroot fs Running i = Some (JobDoc s)" for s
      using None that assms by (auto simp: find_None_iff in_list_state filed_by_id_def)
    with None show ?thesis by (auto split: option.splits job_file.splits)
  next
    case (Some x)
    then have "job_at qroot fs Running i = Some (JobDoc x)" "\<not> spared os active x"
      using at [of x] by (auto dest: findD)
    with Some show ?thesis by simp
  qed
  then show ?thesis
    using fold_orphans [of ?ss qroot "(fs, [], [])" os active q i] at distinct
    by (auto simp: requeue_orphans_def split: option.splits job_file.splits)
qed

text \<open>C23: after the recovery every job that was in \<open>running/\<close> without a live process and without
  a supervisor is out of it - back in \<open>pending/\<close> with one more attempt and no pid the first
  time, in \<open>failed/\<close> with the reason the second - and every other job is where it was.\<close>

theorem orphans_settled_once:
  assumes "filed_by_id qroot fs" and "job_at qroot fs Running i = Some (JobDoc s)"
    and "fs' = fst (requeue_orphans os qroot active fs)"
  shows "if spared os active s then job_at qroot fs' Running i = Some (JobDoc s)
     else job_at qroot fs' Running i = None
        \<and> (if js_attempts s < 1
           then job_at qroot fs' Pending i = Some (JobDoc (s\<lparr>js_attempts := js_attempts s + 1, js_pid := None\<rparr>))
           else job_at qroot fs' Failed i = Some (JobDoc (s\<lparr>js_error := Some (abandoned_text (js_attempts s))\<rparr>)))"
  using assms(2) unfolding assms(3) recovered_board [OF assms(1)]
  by (simp add: settled_def MAX_ATTEMPTS_def)

definition crashed :: jobspec where
  "crashed = example_spec\<lparr>js_pid := Some 99\<rparr>"

definition after_crash :: jobs where
  "after_crash = write_spec (path_for [''q''] Running (js_id crashed)) crashed []"

lemma after_crash_at:
  "job_at [''q''] after_crash st i = (if st = Running \<and> i = js_id crashed then Some (JobDoc crashed) else None)"
  by (simp add: after_crash_def job_at_write) (simp add: job_at_def read_file_def)

lemma orphans_settled_once_witness:
  "job_at [''q''] (fst (requeue_orphans quiet_box [''q''] {} after_crash)) Pending (js_id crashed) \<noteq> None"
proof -
  have named: "filed_by_id [''q''] after_crash" by (simp add: filed_by_id_def after_crash_at)
  have there: "job_at [''q''] after_crash Running (js_id crashed) = Some (JobDoc crashed)"
    by (simp add: after_crash_at)
  have "\<not> spared quiet_box {} crashed" "js_attempts crashed < 1" by code_simp+
  with orphans_settled_once [OF named there refl, of quiet_box "{}"] show ?thesis
    by (simp only: if_True if_False simp_thms option.distinct)
qed

section \<open>What can exempt is swept\<close>

lemma first_spellings_prefix:
  "\<exists>more. first_spellings canon seen (xs @ ys) = first_spellings canon seen xs @ more"
proof (induction canon seen xs rule: first_spellings.induct)
  case (2 canon seen d ds)
  then show ?case by (cases "location canon d \<in> set seen") auto
qed simp

lemma exempting_dirs_swept: "set (all_claim_dirs canon env None) \<subseteq> set (swept_dirs canon env d)"
  using first_spellings_prefix [of canon "[]" "[claim_dir env, DEFAULT_CLAIM_DIR]" "[d]"]
  by (auto simp: all_claim_dirs_def swept_dirs_def)

lemma sweep_card_frame:
  assumes "sweep_card cfg su d w = Some (killed, consulted, convicted, void, w')"
  shows "w_claims w' = w_claims w" "w_jobs w' = w_jobs w"
    "set consulted \<subseteq> set (swept_dirs (su_resolve su) (su_env su) d)"
  using assms
  by (auto simp: sweep_card_def Let_def bind_eq_Some_conv split_beta split: option.splits if_splits)

lemma reap_parts:
  assumes "reap cfg su active incl w = Some (res, w')"
  obtains d killed consulted convicted void w1 w2 where
    "w_claims w1 = fst (sweep_stale (su_os su) (su_deny su) (swept_dirs (su_resolve su) (su_env su) d) (w_claims w))"
    "w_strikes w1 = w_strikes w" "w_kills w1 = w_kills w"
    "(if incl \<and> (rc_kill_orphan_cuda cfg \<or> rc_enforce_vram cfg)
      then sweep_card cfg su d w1 else Some ([], [], [], None, w1)) = Some (killed, consulted, convicted, void, w2)"
    "rr_killed res = killed" "rr_exemption_dirs res = consulted" "rr_convicted res = convicted"
    "rr_void_scopes res = void" "w_claims w' = w_claims w2" "w_strikes w' = w_strikes w2" "w_kills w' = w_kills w2"
proof -
  obtain claims' stale stuck where s: "sweep_stale (su_os su) (su_deny su) (swept_dirs (su_resolve su) (su_env su)
      (case rc_claim_dir cfg of None \<Rightarrow> claim_dir (su_env su) | Some p \<Rightarrow> p)) (w_claims w) = (claims', stale, stuck)"
    using prod_cases3 by blast
  obtain jobs' requeued failed where j: "requeue_orphans (su_os su) (rc_queue_root cfg) active (w_jobs w)
      = (jobs', requeued, failed)" using prod_cases3 by blast
  show thesis
    using assms that
      [of "w\<lparr>w_claims := claims', w_jobs := jobs'\<rparr>" "case rc_claim_dir cfg of None \<Rightarrow> claim_dir (su_env su) | Some p \<Rightarrow> p"]
    unfolding reap_def Let_def s j prod.case
    by (auto simp: bind_eq_Some_conv s split_beta)
qed

text \<open>C25: whatever a reap did, no directory that could have exempted a process from it - nor any
  directory its kill line names - still holds a dead record the kernel lets the runner
  remove, and every live record in it is still there.\<close>

theorem exempting_directories_are_swept:
  assumes "reap cfg su active incl w = Some (res, w')"
    and "d \<in> set (all_claim_dirs (su_resolve su) (su_env su) None) \<union> set (rr_exemption_dirs res)"
  shows "set (all_records d (w_claims w'))
     = {r \<in> set (all_records d (w_claims w)). pid_alive (su_os su) (lr_pid r) \<or> su_deny su (lr_path r) \<noteq> None}"
  using assms(1)
proof (rule reap_parts)
  fix c killed consulted convicted void w1 w2
  assume w1: "w_claims w1 = fst (sweep_stale (su_os su) (su_deny su) (swept_dirs (su_resolve su) (su_env su) c) (w_claims w))"
    and step: "(if incl \<and> (rc_kill_orphan_cuda cfg \<or> rc_enforce_vram cfg)
      then sweep_card cfg su c w1 else Some ([], [], [], None, w1)) = Some (killed, consulted, convicted, void, w2)"
    and res: "rr_exemption_dirs res = consulted" and w': "w_claims w' = w_claims w2"
  have "w_claims w2 = w_claims w1" "set consulted \<subseteq> set (swept_dirs (su_resolve su) (su_env su) c)"
  proof (atomize (full), cases "incl \<and> (rc_kill_orphan_cuda cfg \<or> rc_enforce_vram cfg)")
    case True
    with step have "sweep_card cfg su c w1 = Some (killed, consulted, convicted, void, w2)" by simp
    from sweep_card_frame [OF this]
    show "w_claims w2 = w_claims w1 \<and> set consulted \<subseteq> set (swept_dirs (su_resolve su) (su_env su) c)" by simp
  next
    case False
    with step show "w_claims w2 = w_claims w1 \<and> set consulted \<subseteq> set (swept_dirs (su_resolve su) (su_env su) c)" by simp
  qed
  moreover from this have "d \<in> set (swept_dirs (su_resolve su) (su_env su) c)"
    using assms(2) res exempting_dirs_swept [of "su_resolve su" "su_env su" c] by auto
  ultimately show ?thesis
    using sweep_stale_records w' w1 by simp
qed

text \<open>A box whose runner and whose shells disagree about the claim directory, with a dead and a
  live record in the one the runner was not configured for.\<close>

definition split_box :: surroundings where
  "split_box = \<lparr>su_os = quiet_box, su_env = None, su_resolve = (\<lambda>p. Some p), su_deny = (\<lambda>p. None),
     su_sweep = calm_ladder, su_kill = (\<lambda>c. stubborn), su_now = ''2025-01-01T00:00:00Z''\<rparr>"

definition shell_claims :: claims where
  "shell_claims = write_record (admitted_only\<lparr>lr_path := DEFAULT_CLAIM_DIR @ [''k.lock.d'', ''10.aa.json'']\<rparr>)
     (write_record (admitted_only\<lparr>lr_path := DEFAULT_CLAIM_DIR @ [''k.lock.d'', ''99.bb.json''], lr_pid := 99\<rparr>) [])"

definition split_world :: world where
  "split_world = \<lparr>w_jobs = after_crash, w_claims = shell_claims,
     w_work = [([''a''], True), ([''a'', ''x.part''], False)],
     w_kills = None, w_strikes = Some [([''k''], 1)]\<rparr>"

lemma split_reap: "reap example_cfg split_box {} False split_world \<noteq> None"
  by code_simp

lemma exempting_directories_are_swept_witness:
  "\<exists>res w'. reap example_cfg split_box {} False split_world = Some (res, w')
     \<and> set (all_records DEFAULT_CLAIM_DIR (w_claims w'))
         = {r \<in> set (all_records DEFAULT_CLAIM_DIR shell_claims). pid_alive quiet_box (lr_pid r)}"
proof -
  obtain res w' where r: "reap example_cfg split_box {} False split_world = Some (res, w')"
    using split_reap by auto
  have "DEFAULT_CLAIM_DIR \<in> set (all_claim_dirs (su_resolve split_box) (su_env split_box) None)"
    by (simp add: split_box_def all_claim_dirs_def claim_dir_def location_def)
  then have "DEFAULT_CLAIM_DIR \<in> set (all_claim_dirs (su_resolve split_box) (su_env split_box) None)
      \<union> set (rr_exemption_dirs res)" by simp
  from exempting_directories_are_swept [OF r this] r show ?thesis
    by (simp add: split_box_def split_world_def)
qed

text \<open>C24: a reap that measures nothing - one off the timer, one that cannot see the card's
  processes, or one with both consumers switched off - kills and convicts nobody, names no ledger as consulted, writes no
  kill log and reports no measurement of the scopes; the blind one on the timer also clears
  every banked strike, the others, which were not to measure, keep all of them.\<close>

theorem blind_reap_convicts_nobody:
  assumes "reap cfg su active incl w = Some (res, w')"
    and "\<not> incl \<or> compute_apps (su_os su) = None \<or> \<not> (rc_kill_orphan_cuda cfg \<or> rc_enforce_vram cfg)"
  shows "rr_killed res = [] \<and> rr_convicted res = [] \<and> rr_exemption_dirs res = []
     \<and> rr_void_scopes res = None \<and> w_kills w' = w_kills w
     \<and> w_strikes w' = (if incl \<and> (rc_kill_orphan_cuda cfg \<or> rc_enforce_vram cfg)
                        then map_option (\<lambda>s. []) (w_strikes w) else w_strikes w)"
  using assms(1)
proof (rule reap_parts)
  fix c killed consulted convicted void w1 w2
  assume w1: "w_strikes w1 = w_strikes w" "w_kills w1 = w_kills w"
    and step: "(if incl \<and> (rc_kill_orphan_cuda cfg \<or> rc_enforce_vram cfg)
      then sweep_card cfg su c w1 else Some ([], [], [], None, w1)) = Some (killed, consulted, convicted, void, w2)"
    and res: "rr_killed res = killed" "rr_exemption_dirs res = consulted" "rr_convicted res = convicted"
      "rr_void_scopes res = void" "w_strikes w' = w_strikes w2" "w_kills w' = w_kills w2"
  show ?thesis
  proof (cases "incl \<and> (rc_kill_orphan_cuda cfg \<or> rc_enforce_vram cfg)")
    case True
    then have "sweep_card cfg su c w1 = Some ([], [], [], None, w1\<lparr>w_strikes := map_option (\<lambda>s. []) (w_strikes w1)\<rparr>)"
      using assms(2) by (simp add: sweep_card_def)
    with True step w1 res show ?thesis by auto
  next
    case False
    with step have "killed = []" "consulted = []" "convicted = []" "void = None" "w2 = w1" by auto
    with w1 res show ?thesis unfolding if_not_P [OF False] by simp
  qed
qed

lemma blind_reap_convicts_nobody_witness:
  "\<exists>res w'. reap example_cfg split_box {} False split_world = Some (res, w')
     \<and> rr_killed res = [] \<and> w_strikes w' = Some [([''k''], 1)]"
proof -
  obtain res w' where r: "reap example_cfg split_box {} False split_world = Some (res, w')"
    using split_reap by auto
  from blind_reap_convicts_nobody [OF r] r show ?thesis by (simp add: split_world_def)
qed

end
