(* ===== verification/Executor.thy ===== *)
theory Executor
  imports Reaper
begin

text \<open>
  \<open>src/gpuqueue/executor.py\<close>: starting, polling and killing one job's process.  What \<open>Popen\<close>,
  \<open>poll\<close>, \<open>getpgid\<close> and \<open>killpg\<close> answer are arguments.  The bytes of the error log are read
  as characters, one each: decoding what is not ASCII is not modelled.
\<close>

definition STDERR_TAIL_BYTES :: nat where
  "STDERR_TAIL_BYTES = 4000"

definition looks_like_oom :: "string \<Rightarrow> bool" where
  "looks_like_oom text = list_ex (\<lambda>p. contains p (lower text))
     [''cuda out of memory'', ''outofmemoryerror'', ''cublas_status_alloc_failed'']"

definition tail_of :: "string option \<Rightarrow> string" where
  "tail_of err_log = (case err_log of None \<Rightarrow> [] | Some data \<Rightarrow> last_n STDERR_TAIL_BYTES data)"

definition env_for :: "project_config option \<Rightarrow> (string \<times> string) list \<Rightarrow> (string \<times> string) list
    \<Rightarrow> (string \<times> string) list" where
  "env_for project extra env =
    (let env' = (case project of None \<Rightarrow> env
       | Some p \<Rightarrow> (case pc_venv p of None \<Rightarrow> env
          | Some venv \<Rightarrow> AList.update ''VIRTUAL_ENV'' (path_text venv)
              (AList.update ''PATH'' (path_text (venv @ [''bin'']) @ '':'' @
                 (case map_of env ''PATH'' of None \<Rightarrow> [] | Some p \<Rightarrow> p)) env)))
     in fold (\<lambda>(k, v) e. AList.update k v e) extra env')"

record job_result =
  jr_exit_code :: int
  jr_timed_out :: bool
  jr_oom :: bool
  jr_stderr_tail :: string

record running_job =
  rj_spec :: jobspec
  rj_pid :: pid
  rj_deadline :: pyfloat

section \<open>Starting\<close>

text \<open>
  \<open>Popen\<close> raises OSError (with its errno and text), raises something else - a command that is
  empty or not made of strings - or starts a process.
\<close>

datatype popen = PopenOSError errno string | PopenRaises | PopenStarted pid

datatype start = StartFailed errno string | StartRaises "pid option" | Started running_job

text \<open>\<open>time.monotonic() + spec.timeout_s\<close>: a timeout that is not a number raises, after the
  process has been started.\<close>

fun seconds :: "pyval \<Rightarrow> pyfloat option" where
  "seconds (PInt i) = Some (Finite (of_int i))"
| "seconds (PBool b) = Some (Finite (if b then 1 else 0))"
| "seconds (PFloat x) = Some x"
| "seconds _ = None"

definition start_job :: "popen \<Rightarrow> time \<Rightarrow> jobspec \<Rightarrow> start" where
  "start_job launched now s = (case launched of
      PopenOSError e text \<Rightarrow> StartFailed e text
    | PopenRaises \<Rightarrow> StartRaises None
    | PopenStarted p \<Rightarrow> (case seconds (js_timeout_s s) of
          None \<Rightarrow> StartRaises (Some p)
        | Some t \<Rightarrow> Started \<lparr>rj_spec = s, rj_pid = p, rj_deadline = add_float (Finite now) t\<rparr>))"

section \<open>Killing a process group\<close>

text \<open>One rung: whether \<open>killpg\<close> succeeded, when its grace began, what \<open>poll\<close> then answered.\<close>

type_synonym group_rung = "bool \<times> time \<times> (time \<times> int option) list"

record group_seen =
  gs_pgid_ok :: bool
  gs_term :: group_rung
  gs_kill :: group_rung

fun wait_exit :: "time \<Rightarrow> (time \<times> int option) list \<Rightarrow> int option option" where
  "wait_exit deadline [] = None"
| "wait_exit deadline ((now, code) # seen) =
     (if now < deadline
      then (case code of Some c \<Rightarrow> Some (Some c) | None \<Rightarrow> wait_exit deadline seen)
      else Some None)"

definition group_climb :: "signal \<Rightarrow> time \<Rightarrow> group_rung \<Rightarrow> (signal list \<times> int option) option
    \<Rightarrow> (signal list \<times> int option) option" where
  "group_climb sig grace r next_rung = (case r of (ok, start, seen) \<Rightarrow>
     if \<not> ok then Some ([], None)
     else (case wait_exit (start + grace) seen of
         None \<Rightarrow> None
       | Some (Some c) \<Rightarrow> Some ([sig], Some c)
       | Some None \<Rightarrow> map_option (\<lambda>(sent, code). (sig # sent, code)) next_rung))"

text \<open>The signals sent to the group and the return code, if the process was seen to end.\<close>

definition kill_group :: "group_seen \<Rightarrow> (signal list \<times> int option) option" where
  "kill_group g = (if \<not> gs_pgid_ok g then Some ([], None)
     else group_climb SIGTERM 10 (gs_term g) (group_climb SIGKILL 5 (gs_kill g) (Some ([], None))))"

section \<open>Polling\<close>

record poll_seen =
  ps_code :: "int option"
  ps_now :: time
  ps_group :: group_seen
  ps_log :: "string option"

definition result_of :: "int option \<Rightarrow> string option \<Rightarrow> bool \<Rightarrow> job_result" where
  "result_of code err_log timed_out = \<lparr>jr_exit_code = (case code of None \<Rightarrow> -1 | Some c \<Rightarrow> c),
     jr_timed_out = timed_out, jr_oom = looks_like_oom (tail_of err_log), jr_stderr_tail = tail_of err_log\<rparr>"

text \<open>The outer \<open>None\<close>: the observations do not decide; otherwise the signals sent to the group
  and the answer, \<open>None\<close> for a job that is still running.\<close>

definition poll_job :: "running_job \<Rightarrow> poll_seen \<Rightarrow> (signal list \<times> job_result option) option" where
  "poll_job r p = (case ps_code p of
      Some c \<Rightarrow> Some ([], Some (result_of (Some c) (ps_log p) False))
    | None \<Rightarrow> if time_lt (ps_now p) (rj_deadline r) then Some ([], None)
        else map_option (\<lambda>(sent, code). (sent, Some (result_of code (ps_log p) True))) (kill_group (ps_group p)))"

definition kill_job :: "running_job \<Rightarrow> poll_seen \<Rightarrow> job_result option" where
  "kill_job r p = (case ps_code p of
      Some c \<Rightarrow> Some (result_of (Some c) (ps_log p) False)
    | None \<Rightarrow> map_option (\<lambda>(sent, code). result_of code (ps_log p) False) (kill_group (ps_group p)))"

section \<open>The wall clock is enforced\<close>

definition group_rung_over :: "time \<Rightarrow> group_rung \<Rightarrow> bool" where
  "group_rung_over grace r = (case r of (ok, start, seen) \<Rightarrow> list_ex (\<lambda>(now, c). start + grace \<le> now) seen)"

lemma wait_exit_decides:
  "i < length seen \<Longrightarrow> deadline \<le> fst (seen ! i) \<Longrightarrow> wait_exit deadline seen \<noteq> None"
proof (induction deadline seen arbitrary: i rule: wait_exit.induct)
  case (2 deadline now code seen)
  then show ?case by (cases i) (auto split: option.splits)
qed simp

lemma group_climb_decides:
  assumes "group_rung_over grace r" and "next_rung \<noteq> None"
  shows "group_climb sig grace r next_rung \<noteq> None"
proof -
  obtain ok start seen where r: "r = (ok, start, seen)" by (cases r)
  with assms(1) obtain i where "i < length seen" "start + grace \<le> fst (seen ! i)"
    by (auto simp: group_rung_over_def list_ex_iff in_set_conv_nth)
  then have "wait_exit (start + grace) seen \<noteq> None" by (rule wait_exit_decides)
  then obtain b where "wait_exit (start + grace) seen = Some b" by blast
  with r assms(2) show ?thesis by (cases b) (auto simp: group_climb_def)
qed

text \<open>The process was seen to end within the grace of a rung.\<close>

definition ended_within :: "time \<Rightarrow> group_rung \<Rightarrow> bool" where
  "ended_within grace r = (case r of (ok, start, seen) \<Rightarrow>
     list_ex (\<lambda>(now, code). code \<noteq> None) (takeWhile (\<lambda>(now, code). now < start + grace) seen))"

lemma wait_exit_ended:
  "wait_exit (start + grace) seen = Some b \<Longrightarrow> ended_within grace (ok, start, seen) \<longleftrightarrow> b \<noteq> None"
  by (induction "start + grace" seen rule: wait_exit.induct)
    (auto simp: ended_within_def split: if_splits option.splits)

lemma group_climb_sent:
  assumes "group_climb sig grace r next_rung = Some (sent, code)"
  shows "sent = (if \<not> fst r then [] else if ended_within grace r then [sig] else sig # fst (the next_rung))"
proof -
  obtain ok start seen where r: "r = (ok, start, seen)" by (cases r)
  show ?thesis
    using assms wait_exit_ended [of start grace seen _ ok]
    by (auto simp: r group_climb_def split: if_splits option.splits)
qed

text \<open>C26: polling a job answers "still running" exactly while its process runs and its deadline
  has not passed; a process that has ended is never reported as timed out and sent nothing; one
  past its deadline is reported as timed out and killed: its group is sent SIGTERM and, unless it
  was seen to end within ten seconds, SIGKILL (nothing more once the group is gone); the answer
  comes once both graces have run out at the latest.\<close>

theorem deadline_enforced:
  assumes "group_rung_over 10 (gs_term (ps_group p))" and "group_rung_over 5 (gs_kill (ps_group p))"
  shows "(poll_job r p = Some ([], None) \<longleftrightarrow> ps_code p = None \<and> time_lt (ps_now p) (rj_deadline r))
     \<and> (\<exists>sent answer. poll_job r p = Some (sent, answer) \<and>
          (case ps_code p of
             Some c \<Rightarrow> sent = [] \<and> (\<exists>res. answer = Some res \<and> \<not> jr_timed_out res \<and> jr_exit_code res = c)
           | None \<Rightarrow> if time_lt (ps_now p) (rj_deadline r) then answer = None
               else (\<exists>res. answer = Some res \<and> jr_timed_out res)
                 \<and> sent = (if \<not> gs_pgid_ok (ps_group p) \<or> \<not> fst (gs_term (ps_group p)) then []
                     else if ended_within 10 (gs_term (ps_group p)) \<or> \<not> fst (gs_kill (ps_group p)) then [SIGTERM]
                     else [SIGTERM, SIGKILL])))"
proof -
  let ?kill = "group_climb SIGKILL 5 (gs_kill (ps_group p)) (Some ([], None))"
  have "?kill \<noteq> None" using group_climb_decides [OF assms(2)] by simp
  then obtain sent2 code2 where k2: "?kill = Some (sent2, code2)" by auto
  have "kill_group (ps_group p) \<noteq> None"
    using group_climb_decides [OF assms(1)] by (simp add: kill_group_def k2)
  then obtain sent code where k: "kill_group (ps_group p) = Some (sent, code)" by auto
  have "sent = (if \<not> gs_pgid_ok (ps_group p) \<or> \<not> fst (gs_term (ps_group p)) then []
      else if ended_within 10 (gs_term (ps_group p)) \<or> \<not> fst (gs_kill (ps_group p)) then [SIGTERM]
      else [SIGTERM, SIGKILL])"
  proof (cases "gs_pgid_ok (ps_group p)")
    case True
    then have "group_climb SIGTERM 10 (gs_term (ps_group p)) (Some (sent2, code2)) = Some (sent, code)"
      using k by (simp add: kill_group_def k2)
    from group_climb_sent [OF this] group_climb_sent [OF k2] True show ?thesis by (simp split: if_splits)
  qed (use k in \<open>simp add: kill_group_def\<close>)
  with k show ?thesis
    by (cases "ps_code p") (simp_all add: poll_job_def result_of_def)
qed

definition hung_poll :: poll_seen where
  "hung_poll = \<lparr>ps_code = None, ps_now = 3600, ps_group =
     \<lparr>gs_pgid_ok = True, gs_term = (True, 3600, [(3600, None), (3610, None)]),
      gs_kill = (True, 3610, [(3610, Some (-9)), (3615, Some (-9))])\<rparr>,
     ps_log = Some ''RuntimeError: CUDA out of memory.''\<rparr>"

definition hung_job :: running_job where
  "hung_job = \<lparr>rj_spec = example_spec, rj_pid = 11, rj_deadline = Finite 3600\<rparr>"

definition deaf_poll :: poll_seen where
  "deaf_poll = hung_poll\<lparr>ps_group := (ps_group hung_poll)\<lparr>gs_kill := (True, 3610, [(3610, None), (3615, None)])\<rparr>\<rparr>"

lemma deadline_enforced_witness:
  "\<exists>res. poll_job hung_job deaf_poll = Some ([SIGTERM, SIGKILL], Some res) \<and> jr_timed_out res"
proof -
  have a: "group_rung_over 10 (gs_term (ps_group deaf_poll))" "group_rung_over 5 (gs_kill (ps_group deaf_poll))"
    by code_simp+
  have b: "ps_code deaf_poll = None" "\<not> time_lt (ps_now deaf_poll) (rj_deadline hung_job)"
    "gs_pgid_ok (ps_group deaf_poll)" "fst (gs_term (ps_group deaf_poll))" "fst (gs_kill (ps_group deaf_poll))"
    "\<not> ended_within 10 (gs_term (ps_group deaf_poll))"
    by code_simp+
  show ?thesis using deadline_enforced [OF a, of hung_job] b by auto
qed

text \<open>A job whose \<open>timeout_s\<close> is not a number - a pending file repaired by hand, which the
  reader does not validate - has its process started and then raises out of \<open>start_job\<close> with
  an exception its caller does not handle: nobody supervises the process.\<close>

lemma unreadable_timeout_leaks_process:
  assumes "\<not> (\<exists>i b x. js_timeout_s s \<in> {PInt i, PBool b, PFloat x})"
  shows "start_job (PopenStarted p) now s = StartRaises (Some p)"
proof -
  have "seconds (js_timeout_s s) = None"
    using assms by (cases "js_timeout_s s" rule: seconds.cases) auto
  then show ?thesis by (simp add: start_job_def)
qed

lemma unreadable_timeout_leaks_process_witness:
  "start_job (PopenStarted 77) 0 (example_spec\<lparr>js_timeout_s := PStr ''3600''\<rparr>) = StartRaises (Some 77)"
  by (rule unreadable_timeout_leaks_process) simp

end
