(* ===== verification/Runner.thy ===== *)
theory Runner
  imports Recovery Executor "HOL-Library.Product_Lexorder"
begin

text \<open>
  \<open>src/gpuqueue/runner.py\<close>: the single-threaded loop that admits pending jobs onto the lanes,
  supervises them and settles them.  \<open>Raised\<close> is an exception that leaves the phase and ends
  the process; the state beside it is what it leaves.  Git, \<open>Popen\<close>, \<open>nvidia-smi\<close>, the clock
  and the mutex answer through the environment of a phase.  The log, the deferral messages,
  the bug filer and the text of a failure are not modelled: a failed job carries
  \<open>wording\<close> of its reason.
\<close>

definition GPUID_STRIKES :: int where
  "GPUID_STRIKES = 3"

definition PREFLIGHT_TTL_S :: time where
  "PREFLIGHT_TTL_S = 10"

datatype failure = UnknownProject string | NoUsableGpu gpuid_error | CanNeverFit pyval "mib option"
  | InvalidShare pyval | CheckoutFailed string | CannotExecute string | ConvictedOfOveruse mib mib
  | TimedOutAfter pyval | OutOfMemory string | ExitedWith int string
  | ArtifactMissing string | ArtifactError string

record active =
  av_running :: running_job
  av_project :: project_config
  av_workdir :: path
  av_claim :: "ledger_record option"
  av_started :: time

text \<open>What the runner does outside its files: work trees made and removed, processes started, and
  the calls of \<open>kill_job\<close>, in order.\<close>

datatype effect = TreeMade path | TreeRemoved path | ProcessStarted string pid | JobKilled pid

record daemon =
  dm_world :: world
  dm_active :: "(string \<times> active) list"
  dm_stopping :: bool
  dm_last_cuda_sweep :: "time option"
  dm_usable_cache :: "mib option"
  dm_usable_asked :: bool
  dm_card_key :: "string option"
  dm_convicted :: "(string \<times> conviction) list"
  dm_last_conviction :: "time option"
  dm_stuck_claims :: "path set"
  dm_void_scopes :: "path set"
  dm_gpuid_strikes :: int
  dm_preflight_at :: "time option"
  dm_preflight_result :: "app list option"
  dm_effects :: "effect list"

datatype 'a outcome = Fine 'a | Raised daemon

definition and_then :: "'a outcome \<Rightarrow> ('a \<Rightarrow> 'b outcome) \<Rightarrow> 'b outcome" where
  "and_then x f = (case x of Fine a \<Rightarrow> f a | Raised d \<Rightarrow> Raised d)"

lemma and_then_simps [simp]: "and_then (Fine a) f = f a" "and_then (Raised d) f = Raised d"
  by (simp_all add: and_then_def)

definition with_jobs :: "(jobs \<Rightarrow> jobs) \<Rightarrow> daemon \<Rightarrow> daemon" where
  "with_jobs f d = d\<lparr>dm_world := (dm_world d)\<lparr>w_jobs := f (w_jobs (dm_world d))\<rparr>\<rparr>"

definition did :: "effect \<Rightarrow> daemon \<Rightarrow> daemon" where
  "did x d = d\<lparr>dm_effects := dm_effects d @ [x]\<rparr>"

definition with_claims :: "(claims \<Rightarrow> claims) \<Rightarrow> daemon \<Rightarrow> daemon" where
  "with_claims f d = d\<lparr>dm_world := (dm_world d)\<lparr>w_claims := f (w_claims (dm_world d))\<rparr>\<rparr>"

section \<open>Failing a job, releasing a card\<close>

definition fail_running :: "(failure \<Rightarrow> string) \<Rightarrow> path \<Rightarrow> jobspec \<Rightarrow> failure \<Rightarrow> daemon \<Rightarrow> daemon" where
  "fail_running wording qroot s why = with_jobs (finish qroot
     (s\<lparr>js_error := Some (wording why), js_exit_code := Some (-1), js_pid := None\<rparr>) False)"

definition fail_pending :: "(failure \<Rightarrow> string) \<Rightarrow> path \<Rightarrow> jobspec \<Rightarrow> failure \<Rightarrow> daemon \<Rightarrow> daemon outcome" where
  "fail_pending wording qroot s why d = (case claim qroot (js_id s) (w_jobs (dm_world d)) of
      (Gone, fs) \<Rightarrow> Fine (with_jobs (\<lambda>_. fs) d)
    | (ClaimRaises, fs) \<Rightarrow> Raised (with_jobs (\<lambda>_. fs) d)
    | (Claimed s', fs) \<Rightarrow> Fine (fail_running wording qroot s' why (with_jobs (\<lambda>_. fs) d)))"

definition exit_claim :: "ledger_record option \<Rightarrow> daemon \<Rightarrow> daemon" where
  "exit_claim r = (case r of None \<Rightarrow> (\<lambda>d. d) | Some rec \<Rightarrow> with_claims (remove_record rec))"

section \<open>The card\<close>

definition usable_mb :: "runner_config \<Rightarrow> snapshot \<Rightarrow> daemon \<Rightarrow> mib option \<times> daemon" where
  "usable_mb cfg os d =
    (if dm_usable_asked d then (dm_usable_cache d, d)
     else (case (case rc_gpu_vram_mb cfg of Some t \<Rightarrow> Some t | None \<Rightarrow> total_vram_mb os 0) of
         None \<Rightarrow> (None, d)
       | Some t \<Rightarrow> (let u = (if t - rc_gpu_vram_reserve_mb cfg \<le> 0 then None
                             else Some (t - rc_gpu_vram_reserve_mb cfg))
                   in (u, d\<lparr>dm_usable_asked := True, dm_usable_cache := u\<rparr>))))"

definition in_lane :: "string \<Rightarrow> daemon \<Rightarrow> nat" where
  "in_lane lane d = length (filter (\<lambda>(i, a). js_lane (rj_spec (av_running a)) = lane) (dm_active d))"

definition capacity :: "runner_config \<Rightarrow> string \<Rightarrow> daemon \<Rightarrow> int" where
  "capacity cfg lane d =
     (if lane = ''cpu'' then rc_cpu_slots cfg else rc_gpu_max_jobs cfg) - int (in_lane lane d)"

definition preflight_cached :: "runner_config \<Rightarrow> time \<Rightarrow> snapshot \<Rightarrow> string option \<Rightarrow> daemon
    \<Rightarrow> app list option \<times> daemon" where
  "preflight_cached cfg now os env d =
    (if (case dm_preflight_at d of None \<Rightarrow> False | Some t \<Rightarrow> now - t < PREFLIGHT_TTL_S)
     then (dm_preflight_result d, d)
     else (let result = (case preflight os {} env (rc_claim_dir cfg) None (w_claims (dm_world d)) of
                 Strangers apps \<Rightarrow> Some apps | _ \<Rightarrow> None)
           in (result, d\<lparr>dm_preflight_at := Some now, dm_preflight_result := result\<rparr>)))"

definition card_key_cached :: "snapshot \<Rightarrow> daemon \<Rightarrow> (gpuid_error + string) \<times> daemon" where
  "card_key_cached os d = (case dm_card_key d of Some k \<Rightarrow> (Inr k, d)
     | None \<Rightarrow> (case gpu_key os 0 of Inl e \<Rightarrow> (Inl e, d)
                | Inr k \<Rightarrow> (Inr k, d\<lparr>dm_card_key := Some k\<rparr>)))"

datatype card_state = NotAsked | CardReady string | CardContended "app list" | CardUnknown gpuid_error

definition ready_card :: "runner_config \<Rightarrow> time \<Rightarrow> snapshot \<Rightarrow> string option \<Rightarrow> daemon
    \<Rightarrow> card_state \<times> daemon" where
  "ready_card cfg now os env d = (case preflight_cached cfg now os env d of
      (Some apps, d1) \<Rightarrow> (CardContended apps, d1)
    | (None, d1) \<Rightarrow> (case card_key_cached os d1 of
          (Inl e, d2) \<Rightarrow> (CardUnknown e, d2) | (Inr k, d2) \<Rightarrow> (CardReady k, d2)))"

text \<open>What one job meets when it is admitted: the machine, the mutex, the token and time stamp of
  its record, git's answer for its work tree, \<open>Popen\<close>'s, and the clock after it.\<close>

record job_env =
  je_os :: snapshot
  je_mutex :: mutex_result
  je_token :: string
  je_stamp :: string
  je_workdir :: "string + path"
  je_popen :: popen
  je_now :: time

record pass_env =
  pe_now :: time
  pe_os :: snapshot
  pe_env :: "string option"
  pe_job :: "string \<Rightarrow> job_env"
  pe_wording :: "failure \<Rightarrow> string"

datatype taken = NotTaken | Taken ledger_record | TakenClosed | TakenMutex

definition owner_name_of :: "jobspec \<Rightarrow> string" where
  "owner_name_of s = ''gpuq:'' @ js_id s"

definition card_args :: "runner_config \<Rightarrow> string option \<Rightarrow> jobspec \<Rightarrow> claim_args" where
  "card_args cfg env s = \<lparr>ca_key = [], ca_owner = PStr (owner_name_of s), ca_cmd = js_cmd s,
     ca_dir = (case rc_claim_dir cfg of None \<Rightarrow> claim_dir env | Some p \<Rightarrow> p), ca_share = None,
     ca_own_usage = False, ca_max_holders = None, ca_scope_pid = None, ca_scope_cgroup = PNone\<rparr>"

definition attempt_of :: "job_env \<Rightarrow> claims \<Rightarrow> attempt" where
  "attempt_of j fs = \<lparr>at_os = je_os j, at_mutex = je_mutex j, at_token = je_token j, at_now = je_stamp j,
     at_files = fs, at_config = NoFile\<rparr>"

definition take_card :: "runner_config \<Rightarrow> pass_env \<Rightarrow> jobspec \<Rightarrow> string \<Rightarrow> daemon
    \<Rightarrow> (taken \<times> daemon) outcome" where
  "take_card cfg e s key d =
    (let j = pe_job e (js_id s); qroot = rc_queue_root cfg;
         (usable, d1) = usable_mb cfg (je_os j) d;
         failed = (\<lambda>why. and_then (fail_pending (pe_wording e) qroot s why d1) (\<lambda>d2. Fine (NotTaken, d2)))
     in if exceeds_capacity (js_vram_mb s) usable then failed (CanNeverFit (js_vram_mb s) usable)
        else (case gpu_claim (je_os j) NoFile key (js_vram_mb s) False (card_args cfg (pe_env e) s)
                     (Some usable) (Some (Some (rc_gpu_max_jobs cfg)))
                     [attempt_of j (w_claims (dm_world d1))] of
            None \<Rightarrow> Fine (NotTaken, d1)
          | Some (Inr (r, fs)) \<Rightarrow> Fine (Taken r, with_claims (\<lambda>_. fs) d1)
          | Some (Inl (NotADeclaration v)) \<Rightarrow> failed (InvalidShare v)
          | Some (Inl (NoCard x)) \<Rightarrow> Raised d1
          | Some (Inl (ClaimFailed MutexTimeout)) \<Rightarrow> Fine (TakenMutex, d1)
          | Some (Inl (ClaimFailed CardClosed)) \<Rightarrow> Fine (TakenClosed, d1)
          | Some (Inl (ClaimFailed (OSRaised x))) \<Rightarrow> Raised d1
          | Some (Inl (ClaimFailed _)) \<Rightarrow> Fine (NotTaken, d1)))"

definition card_pin :: "snapshot \<Rightarrow> jobspec \<Rightarrow> (string \<times> string) list" where
  "card_pin os s = (if js_lane s \<noteq> ''gpu'' then []
     else (case cuda_visible_value os 0 of None \<Rightarrow> [] | Some v \<Rightarrow> [(''CUDA_VISIBLE_DEVICES'', v)]))"

definition job_environment :: "runner_config \<Rightarrow> snapshot \<Rightarrow> jobspec \<Rightarrow> (string \<times> string) list" where
  "job_environment cfg os s =
     fold (\<lambda>(k, v) e. AList.update k v e) (card_pin os s)
       [(''GPUQ_JOB_ID'', js_id s), (''GPUQ_QUEUE_ROOT'', path_text (rc_queue_root cfg))]"

section \<open>Admission\<close>

definition launch :: "runner_config \<Rightarrow> pass_env \<Rightarrow> jobspec \<Rightarrow> project_config \<Rightarrow> ledger_record option
    \<Rightarrow> daemon \<Rightarrow> (bool \<times> daemon) outcome" where
  "launch cfg e s project rec d =
    (let j = pe_job e (js_id s); qroot = rc_queue_root cfg in
     (case je_workdir j of
        Inl text \<Rightarrow> Fine (False, fail_running (pe_wording e) qroot s (CheckoutFailed text) (exit_claim rec d))
      | Inr workdir \<Rightarrow>
        (case start_job (je_popen j) (je_now j) s of
           StartRaises None \<Rightarrow> Raised (did (TreeMade workdir) d)
         | StartRaises (Some p) \<Rightarrow> Raised (did (ProcessStarted (js_id s) p) (did (TreeMade workdir) d))
         | StartFailed x text \<Rightarrow>
             Fine (False, fail_running (pe_wording e) qroot s (CannotExecute text)
               (did (TreeRemoved workdir) (exit_claim rec (did (TreeMade workdir) d))))
         | Started r \<Rightarrow>
           (let s' = s\<lparr>js_pid := Some (rj_pid r), js_runner_pid := Some (own_pid (je_os j))\<rparr>;
                rec' = map_option (\<lambda>x. x\<lparr>lr_usage_pid := Some (rj_pid r)\<rparr>) rec;
                d1 = with_jobs (update qroot s' Running) (did (ProcessStarted (js_id s) (rj_pid r)) (did (TreeMade workdir) d));
                d2 = d1\<lparr>dm_active := AList.update (js_id s')
                  \<lparr>av_running = r\<lparr>rj_spec := s'\<rparr>, av_project = project, av_workdir = workdir,
                   av_claim = rec', av_started = je_now j\<rparr> (dm_active d1)\<rparr>
            in Fine (True, (case rec of None \<Rightarrow> d2
                 | Some x \<Rightarrow> with_claims (\<lambda>fs. snd (set_usage_pid x (Some (rj_pid r)) fs)) d2))))))"

record pass =
  pa_daemon :: daemon
  pa_blocked :: bool
  pa_closed :: bool
  pa_started :: "string list"

definition claim_and_launch :: "runner_config \<Rightarrow> pass_env \<Rightarrow> jobspec \<Rightarrow> project_config
    \<Rightarrow> ledger_record option \<Rightarrow> pass \<Rightarrow> pass outcome" where
  "claim_and_launch cfg e s project rec p =
    (case claim (rc_queue_root cfg) (js_id s) (w_jobs (dm_world (pa_daemon p))) of
       (Gone, fs) \<Rightarrow> Fine (p\<lparr>pa_daemon := exit_claim rec (with_jobs (\<lambda>_. fs) (pa_daemon p))\<rparr>)
     | (ClaimRaises, fs) \<Rightarrow> Raised (with_jobs (\<lambda>_. fs) (pa_daemon p))
     | (Claimed s', fs) \<Rightarrow>
         and_then (launch cfg e s' project rec (with_jobs (\<lambda>_. fs) (pa_daemon p))) (\<lambda>(ok, d).
           Fine (p\<lparr>pa_daemon := d, pa_started := pa_started p @ (if ok then [js_id s'] else [])\<rparr>)))"

definition admit_gpu :: "runner_config \<Rightarrow> pass_env \<Rightarrow> card_state \<Rightarrow> jobspec \<Rightarrow> project_config
    \<Rightarrow> pass \<Rightarrow> pass outcome" where
  "admit_gpu cfg e cst s project p =
    (let go = (\<lambda>key. and_then (take_card cfg e s key (pa_daemon p)) (\<lambda>(t, d). (case t of
           NotTaken \<Rightarrow> Fine (p\<lparr>pa_daemon := d\<rparr>)
         | TakenClosed \<Rightarrow> Fine (p\<lparr>pa_daemon := d, pa_closed := True\<rparr>)
         | TakenMutex \<Rightarrow> Fine (p\<lparr>pa_daemon := d, pa_blocked := True\<rparr>)
         | Taken r \<Rightarrow> claim_and_launch cfg e s project (Some r) (p\<lparr>pa_daemon := d\<rparr>))))
     in if pa_blocked p \<or> pa_closed p then Fine p
        else (case cst of
            CardContended apps \<Rightarrow> Fine p
          | CardUnknown x \<Rightarrow> if dm_gpuid_strikes (pa_daemon p) < GPUID_STRIKES then Fine p
              else and_then (fail_pending (pe_wording e) (rc_queue_root cfg) s (NoUsableGpu x) (pa_daemon p))
                     (\<lambda>d. Fine (p\<lparr>pa_daemon := d\<rparr>))
          | CardReady key \<Rightarrow> go key
          | NotAsked \<Rightarrow> go []))"

definition admit_one :: "runner_config \<Rightarrow> pass_env \<Rightarrow> card_state \<Rightarrow> jobspec \<Rightarrow> pass \<Rightarrow> pass outcome" where
  "admit_one cfg e cst s p =
    (case map_of (rc_projects cfg) (js_project s) of
       None \<Rightarrow> and_then (fail_pending (pe_wording e) (rc_queue_root cfg) s (UnknownProject (js_project s))
                 (pa_daemon p)) (\<lambda>d. Fine (p\<lparr>pa_daemon := d\<rparr>))
     | Some project \<Rightarrow>
         if capacity cfg (js_lane s) (pa_daemon p) \<le> 0 then Fine p
         else if js_lane s = ''gpu'' then admit_gpu cfg e cst s project p
         else claim_and_launch cfg e s project None p)"

fun admit_loop :: "runner_config \<Rightarrow> pass_env \<Rightarrow> card_state \<Rightarrow> jobspec list \<Rightarrow> pass \<Rightarrow> pass outcome" where
  "admit_loop cfg e cst [] p = Fine p"
| "admit_loop cfg e cst (s # ss) p = and_then (admit_one cfg e cst s p) (admit_loop cfg e cst ss)"

definition pending_in_order :: "path \<Rightarrow> jobs \<Rightarrow> jobspec list" where
  "pending_in_order qroot fs = sort_key (\<lambda>s. (js_submitted_at s, js_id s)) (list_state qroot Pending fs)"

definition count_strike :: "card_state \<Rightarrow> daemon \<Rightarrow> daemon" where
  "count_strike cst d = (case cst of CardUnknown x \<Rightarrow> d\<lparr>dm_gpuid_strikes := dm_gpuid_strikes d + 1\<rparr>
     | _ \<Rightarrow> d\<lparr>dm_gpuid_strikes := 0\<rparr>)"

definition admit :: "runner_config \<Rightarrow> pass_env \<Rightarrow> daemon \<Rightarrow> (string list \<times> daemon) outcome" where
  "admit cfg e d =
    (if dm_stopping d then Fine ([], d)
     else (let pending = pending_in_order (rc_queue_root cfg) (w_jobs (dm_world d));
               (cst, d1) = (if list_ex (\<lambda>s. js_lane s = ''gpu'') pending \<and> capacity cfg ''gpu'' d > 0
                             then ready_card cfg (pe_now e) (pe_os e) (pe_env e) d else (NotAsked, d));
               d2 = count_strike cst d1
           in and_then (admit_loop cfg e cst pending
                 \<lparr>pa_daemon = d2, pa_blocked = False, pa_closed = False, pa_started = []\<rparr>)
                (\<lambda>p. Fine (pa_started p, pa_daemon p))))"

end
