(* ===== verification/Supervisor.thy ===== *)
theory Supervisor
  imports Runner
begin

text \<open>
  The other half of \<open>src/gpuqueue/runner.py\<close>: collecting what has finished, settling it, the
  reap phase with its memories, the shutdown, and one tick.
\<close>

section \<open>Settling\<close>

text \<open>What the collection meets: the poll of each job, the clock when it settles, which declared
  artifacts exist and what committing them raises.\<close>

record collect_env =
  ce_poll :: "string \<Rightarrow> poll_seen"
  ce_now :: time
  ce_exists :: "path \<Rightarrow> string \<Rightarrow> bool"
  ce_commit :: "string \<Rightarrow> string option"
  ce_wording :: "failure \<Rightarrow> string"

definition conviction_window :: "runner_config \<Rightarrow> pyfloat" where
  "conviction_window cfg =
     add_float (twice (rc_orphan_cuda_interval_s cfg)) (twice (rc_poll_interval_s cfg))"

definition hit_by_co_tenant :: "runner_config \<Rightarrow> time \<Rightarrow> jobspec \<Rightarrow> active \<Rightarrow> job_result \<Rightarrow> daemon \<Rightarrow> bool" where
  "hit_by_co_tenant cfg now s a res d =
    (if map_of (dm_convicted d) (js_id s) \<noteq> None then False
     else if jr_timed_out res then False
     else if \<not> jr_oom res then False
     else (case dm_last_conviction d of None \<Rightarrow> False
        | Some t \<Rightarrow> if js_attempts s \<ge> MAX_ATTEMPTS then False
            else if t \<le> av_started a then False
            else time_le (now - t) (conviction_window cfg)))"

definition artifact_failure :: "collect_env \<Rightarrow> jobspec \<Rightarrow> active \<Rightarrow> failure option" where
  "artifact_failure e s a =
    (if js_artifacts s = [] then None
     else (case find (\<lambda>rel. \<not> ce_exists e (av_workdir a) rel) (js_artifacts s) of
         Some rel \<Rightarrow> Some (ArtifactMissing rel)
       | None \<Rightarrow> if pc_commit_artifacts (av_project a)
           then map_option ArtifactError (ce_commit e (js_id s)) else None))"

definition describe_failure :: "jobspec \<Rightarrow> job_result \<Rightarrow> daemon \<Rightarrow> failure \<times> daemon" where
  "describe_failure s res d = (case map_of (dm_convicted d) (js_id s) of
      Some c \<Rightarrow> (ConvictedOfOveruse (cv_declared c) (cv_used c),
                 d\<lparr>dm_convicted := AList.delete (js_id s) (dm_convicted d)\<rparr>)
    | None \<Rightarrow> (if jr_timed_out res then TimedOutAfter (js_timeout_s s)
               else if jr_oom res then OutOfMemory (jr_stderr_tail res)
               else ExitedWith (jr_exit_code res) (jr_stderr_tail res), d))"

definition finish_settled :: "collect_env \<Rightarrow> path \<Rightarrow> jobspec \<Rightarrow> bool \<Rightarrow> path \<Rightarrow> job_result \<Rightarrow> daemon \<Rightarrow> daemon" where
  "finish_settled e qroot s ok workdir res d =
    (if \<not> ok \<and> js_error s = None
     then (let (why, d1) = describe_failure s res d
           in with_jobs (finish qroot (s\<lparr>js_error := Some (ce_wording e why)\<rparr>) ok) (did (TreeRemoved workdir) d1))
     else with_jobs (finish qroot s ok) (did (TreeRemoved workdir) d))"

definition settle :: "runner_config \<Rightarrow> collect_env \<Rightarrow> active \<Rightarrow> job_result \<Rightarrow> daemon \<Rightarrow> daemon" where
  "settle cfg e a res d0 =
    (let qroot = rc_queue_root cfg;
         d = exit_claim (av_claim a) d0;
         s = (rj_spec (av_running a))\<lparr>js_pid := None, js_exit_code := Some (jr_exit_code res)\<rparr>;
         ok = (jr_exit_code res = 0 \<and> \<not> jr_timed_out res \<and> map_of (dm_convicted d) (js_id s) = None)
     in if \<not> ok \<and> hit_by_co_tenant cfg (ce_now e) s a res d
        then with_jobs (\<lambda>fs. snd (requeue qroot s fs)) (did (TreeRemoved (av_workdir a)) d)
        else (case (if ok then artifact_failure e s a else None) of
            Some why \<Rightarrow> finish_settled e qroot (s\<lparr>js_error := Some (ce_wording e why)\<rparr>) False (av_workdir a) res d
          | None \<Rightarrow> finish_settled e qroot s ok (av_workdir a) res d))"

text \<open>Observations that do not decide a poll count as "still running".\<close>

definition polled :: "collect_env \<Rightarrow> string \<Rightarrow> active \<Rightarrow> job_result option" where
  "polled e i a = (case poll_job (av_running a) (ce_poll e i) of
     Some (sent, Some res) \<Rightarrow> Some res | _ \<Rightarrow> None)"

definition collect_one :: "runner_config \<Rightarrow> collect_env \<Rightarrow> string \<times> active
    \<Rightarrow> string list \<times> daemon \<Rightarrow> string list \<times> daemon" where
  "collect_one cfg e = (\<lambda>(i, a) (finished, d). (case polled e i a of
      None \<Rightarrow> (finished, d)
    | Some res \<Rightarrow> (finished @ [i], settle cfg e a res (d\<lparr>dm_active := AList.delete i (dm_active d)\<rparr>))))"

definition collect :: "runner_config \<Rightarrow> collect_env \<Rightarrow> daemon \<Rightarrow> string list \<times> daemon" where
  "collect cfg e d = fold (collect_one cfg e) (dm_active d) ([], d)"

section \<open>The reap phase\<close>

record reap_env =
  re_now :: time
  re_surroundings :: surroundings
  re_stamp :: time

definition sweep_due :: "runner_config \<Rightarrow> time \<Rightarrow> daemon \<Rightarrow> bool" where
  "sweep_due cfg now d = (case dm_last_cuda_sweep d of None \<Rightarrow> True
     | Some t \<Rightarrow> time_ge (now - t) (rc_orphan_cuda_interval_s cfg))"

text \<open>\<open>c["owner"].startswith\<close> raises on an owner that is not a string.\<close>

fun note_convictions :: "time \<Rightarrow> conviction list \<Rightarrow> daemon \<Rightarrow> daemon outcome" where
  "note_convictions stamp [] d = Fine d"
| "note_convictions stamp (c # cs) d =
     (let d1 = (if cv_killed c then d\<lparr>dm_last_conviction := Some stamp\<rparr> else d) in
      case cv_owner c of
        PStr owner \<Rightarrow> note_convictions stamp cs
          (if starts_with owner ''gpuq:''
           then d1\<lparr>dm_convicted := AList.update (drop 5 owner) c (dm_convicted d1)\<rparr> else d1)
      | _ \<Rightarrow> Raised d1)"

definition reap_phase :: "runner_config \<Rightarrow> reap_env \<Rightarrow> daemon \<Rightarrow> daemon outcome option" where
  "reap_phase cfg e d =
    (let sweep = sweep_due cfg (re_now e) d in
     map_option (\<lambda>(res, w).
       (let d1 = d\<lparr>dm_world := w, dm_stuck_claims := set (map (\<lambda>(r, x). lr_path r) (rr_stuck res))\<rparr>;
            d2 = (case rr_void_scopes res of None \<Rightarrow> d1 | Some v \<Rightarrow> d1\<lparr>dm_void_scopes := set v\<rparr>)
        in and_then (note_convictions (re_stamp e) (rr_convicted res) d2)
             (\<lambda>d3. Fine (if sweep then d3\<lparr>dm_last_cuda_sweep := Some (re_now e)\<rparr> else d3))))
       (reap cfg (re_surroundings e) (set (map fst (dm_active d))) sweep (dm_world d)))"

text \<open>What is newly reported: the paths the memory of the last tick did not have.\<close>

definition newly_stuck :: "daemon \<Rightarrow> reap_result \<Rightarrow> path set" where
  "newly_stuck d res = set (map (\<lambda>(r, x). lr_path r) (rr_stuck res)) - dm_stuck_claims d"

definition newly_void :: "daemon \<Rightarrow> reap_result \<Rightarrow> path set" where
  "newly_void d res = (case rr_void_scopes res of None \<Rightarrow> {} | Some v \<Rightarrow> set v - dm_void_scopes d)"

section \<open>Shutdown and one tick\<close>

definition stop :: "daemon \<Rightarrow> daemon" where
  "stop d = d\<lparr>dm_stopping := True\<rparr>"

text \<open>Each of the three steps is guarded in the code, so that one that raises does not stop the
  next; here none raises.\<close>

definition shutdown_one :: "runner_config \<Rightarrow> string \<times> active \<Rightarrow> daemon \<Rightarrow> daemon" where
  "shutdown_one cfg = (\<lambda>(i, a) d. with_jobs (update (rc_queue_root cfg) ((rj_spec (av_running a))\<lparr>js_pid := None\<rparr>) Running)
     (did (TreeRemoved (av_workdir a)) (exit_claim (av_claim a)
       (did (JobKilled (rj_pid (av_running a))) (d\<lparr>dm_active := AList.delete i (dm_active d)\<rparr>)))))"

definition shutdown :: "runner_config \<Rightarrow> daemon \<Rightarrow> daemon" where
  "shutdown cfg d = fold (shutdown_one cfg) (dm_active d) d"

definition tick :: "runner_config \<Rightarrow> reap_env \<Rightarrow> collect_env \<Rightarrow> pass_env \<Rightarrow> daemon
    \<Rightarrow> (string list \<times> string list \<times> daemon) outcome option" where
  "tick cfg re ce pe d = map_option (\<lambda>o1. and_then o1 (\<lambda>d1.
     let (finished, d2) = collect cfg ce d1 in
     and_then (admit cfg pe d2) (\<lambda>(started, d3). Fine (finished, started, d3)))) (reap_phase cfg re d)"

end
