(* ===== verification/Settlement.thy ===== *)
theory Settlement
  imports Supervisor
begin

text \<open>
  What becomes of a job the runner of \<open>src/gpuqueue/runner.py\<close> launches, settles or is stopped
  with, and of the card it held.
\<close>

lemma with_jobs_simps [simp]:
  "w_jobs (dm_world (with_jobs f d)) = f (w_jobs (dm_world d))"
  "w_claims (dm_world (with_jobs f d)) = w_claims (dm_world d)"
  "dm_active (with_jobs f d) = dm_active d" "dm_convicted (with_jobs f d) = dm_convicted d"
  "dm_last_conviction (with_jobs f d) = dm_last_conviction d"
  by (simp_all add: with_jobs_def)

lemma with_claims_simps [simp]:
  "w_claims (dm_world (with_claims f d)) = f (w_claims (dm_world d))"
  "w_jobs (dm_world (with_claims f d)) = w_jobs (dm_world d)"
  "dm_active (with_claims f d) = dm_active d" "dm_convicted (with_claims f d) = dm_convicted d"
  "dm_last_conviction (with_claims f d) = dm_last_conviction d"
  by (simp_all add: with_claims_def)

lemma did_simps [simp]:
  "dm_world (did x d) = dm_world d" "dm_active (did x d) = dm_active d"
  "dm_convicted (did x d) = dm_convicted d" "dm_last_conviction (did x d) = dm_last_conviction d"
  "dm_stopping (did x d) = dm_stopping d" "dm_gpuid_strikes (did x d) = dm_gpuid_strikes d"
  "dm_effects (did x d) = dm_effects d @ [x]"
  by (simp_all add: did_def)

lemma effects_kept [simp]:
  "dm_effects (with_jobs f d) = dm_effects d" "dm_effects (with_claims g d) = dm_effects d"
  "dm_effects (exit_claim r d) = dm_effects d"
  by (simp_all add: with_jobs_def with_claims_def exit_claim_def split: option.splits)

lemma exit_claim_simps [simp]:
  "w_jobs (dm_world (exit_claim r d)) = w_jobs (dm_world d)"
  "w_claims (dm_world (exit_claim r d))
     = (case r of None \<Rightarrow> w_claims (dm_world d) | Some x \<Rightarrow> remove_record x (w_claims (dm_world d)))"
  "dm_active (exit_claim r d) = dm_active d" "dm_convicted (exit_claim r d) = dm_convicted d"
  "dm_last_conviction (exit_claim r d) = dm_last_conviction d"
  by (simp_all add: exit_claim_def split: option.splits)

abbreviation jobs_of :: "daemon \<Rightarrow> jobs" where
  "jobs_of d \<equiv> w_jobs (dm_world d)"

abbreviation claims_of :: "daemon \<Rightarrow> claims" where
  "claims_of d \<equiv> w_claims (dm_world d)"

lemma load_after_exit: "load (lr_path r) (claims_of (exit_claim (Some r) d)) = None"
  by (simp add: load_gone remove_record_def store_laws)

section \<open>Settling\<close>

definition judged :: "active \<Rightarrow> job_result \<Rightarrow> jobspec" where
  "judged a res = (rj_spec (av_running a))\<lparr>js_pid := None, js_exit_code := Some (jr_exit_code res)\<rparr>"

definition clean_exit :: "job_result \<Rightarrow> bool" where
  "clean_exit res = (jr_exit_code res = 0 \<and> \<not> jr_timed_out res)"

text \<open>Where a job that has ended goes, and why it failed if it did.\<close>

datatype verdict = Retried | Finished | FailedFor "failure option"

definition verdict_of :: "runner_config \<Rightarrow> collect_env \<Rightarrow> active \<Rightarrow> job_result \<Rightarrow> daemon \<Rightarrow> verdict" where
  "verdict_of cfg e a res d =
    (let s = judged a res; convicted = map_of (dm_convicted d) (js_id s) in
     if clean_exit res \<and> convicted = None
     then (case artifact_failure e s a of None \<Rightarrow> Finished | Some why \<Rightarrow> FailedFor (Some why))
     else if hit_by_co_tenant cfg (ce_now e) s a res d then Retried
     else FailedFor (if js_error s \<noteq> None then None else Some (fst (describe_failure s res d))))"

lemma hit_exit [simp]: "hit_by_co_tenant cfg now s a res (exit_claim r d) = hit_by_co_tenant cfg now s a res d"
  by (simp add: hit_by_co_tenant_def)

lemma describe_exit [simp]:
  "fst (describe_failure s res (exit_claim r d)) = fst (describe_failure s res d)"
  by (simp add: describe_failure_def split: option.splits)

lemma describe_world [simp]: "dm_world (snd (describe_failure s res d)) = dm_world d"
  by (simp add: describe_failure_def split: option.splits)

lemma finish_settled_jobs:
  "job_at qroot (jobs_of (finish_settled e qroot s ok w res d)) st i =
     job_at qroot (finish qroot (if ok \<or> js_error s \<noteq> None then s
        else s\<lparr>js_error := Some (ce_wording e (fst (describe_failure s res d)))\<rparr>) ok (jobs_of d)) st i"
  by (auto simp: finish_settled_def Let_def split_beta)

lemma finish_settled_claims: "claims_of (finish_settled e qroot s ok w res d) = claims_of d"
  by (auto simp: finish_settled_def Let_def split_beta)

definition stamped :: "collect_env \<Rightarrow> failure option \<Rightarrow> jobspec \<Rightarrow> jobspec" where
  "stamped e why s = (case why of None \<Rightarrow> s | Some f \<Rightarrow> s\<lparr>js_error := Some (ce_wording e f)\<rparr>)"

lemma settle_board:
  "job_at qroot (jobs_of (settle cfg e a res d)) st i =
     (case verdict_of cfg e a res d of
        Retried \<Rightarrow> job_at qroot (snd (requeue qroot (judged a res) (jobs_of d))) st i
      | Finished \<Rightarrow> job_at qroot (finish qroot (judged a res) True (jobs_of d)) st i
      | FailedFor why \<Rightarrow> job_at qroot (finish qroot (stamped e why (judged a res)) False (jobs_of d)) st i)"
  if "qroot = rc_queue_root cfg"
proof -
  let ?s = "judged a res" and ?d = "exit_claim (av_claim a) d"
  have settle: "settle cfg e a res d =
     (let ok = (clean_exit res \<and> map_of (dm_convicted d) (js_id ?s) = None) in
      if \<not> ok \<and> hit_by_co_tenant cfg (ce_now e) ?s a res d
      then with_jobs (\<lambda>fs. snd (requeue qroot ?s fs)) (did (TreeRemoved (av_workdir a)) ?d)
      else (case (if ok then artifact_failure e ?s a else None) of
          Some why \<Rightarrow> finish_settled e qroot (?s\<lparr>js_error := Some (ce_wording e why)\<rparr>) False (av_workdir a) res ?d
        | None \<Rightarrow> finish_settled e qroot ?s ok (av_workdir a) res ?d))"
    by (simp only: settle_def Let_def judged_def clean_exit_def that hit_exit exit_claim_simps conj_assoc)
  show ?thesis
    unfolding settle verdict_of_def Let_def
    by (auto simp: finish_settled_jobs stamped_def split: option.splits)
qed

lemma reordered:
  "s\<lparr>js_exit_code := c, js_attempts := n, js_pid := None\<rparr> = s\<lparr>js_pid := None, js_exit_code := c, js_attempts := n\<rparr>"
  for s :: jobspec by (cases s) simp

lemma settled_clean:
  "verdict_of cfg e a res d = Finished \<longleftrightarrow> jr_exit_code res = 0 \<and> \<not> jr_timed_out res
     \<and> map_of (dm_convicted d) (js_id (rj_spec (av_running a))) = None \<and> artifact_failure e (judged a res) a = None"
  by (auto simp: verdict_of_def clean_exit_def Let_def judged_def split: option.splits if_splits)

lemma settled_retried:
  "verdict_of cfg e a res d = Retried \<longleftrightarrow> jr_exit_code res \<noteq> 0 \<and> jr_oom res \<and> \<not> jr_timed_out res
     \<and> map_of (dm_convicted d) (js_id (rj_spec (av_running a))) = None
     \<and> js_attempts (rj_spec (av_running a)) < MAX_ATTEMPTS
     \<and> (\<exists>t. dm_last_conviction d = Some t \<and> av_started a < t
          \<and> time_le (ce_now e - t) (conviction_window cfg))"
  by (auto simp: verdict_of_def clean_exit_def Let_def judged_def hit_by_co_tenant_def split: option.splits if_splits)

lemma settle_moves:
  assumes "s = rj_spec (av_running a)" and "qroot = rc_queue_root cfg"
  shows "job_at qroot (jobs_of (settle cfg e a res d)) Running (js_id s) = None"
    and "verdict_of cfg e a res d = Finished \<Longrightarrow>
      job_at qroot (jobs_of (settle cfg e a res d)) Done (js_id s) = Some (JobDoc (judged a res))"
    and "verdict_of cfg e a res d = Retried \<Longrightarrow>
      job_at qroot (jobs_of (settle cfg e a res d)) Pending (js_id s)
        = Some (JobDoc ((judged a res)\<lparr>js_attempts := js_attempts s + 1\<rparr>))"
    and "verdict_of cfg e a res d = FailedFor why \<Longrightarrow>
      \<exists>t. job_at qroot (jobs_of (settle cfg e a res d)) Failed (js_id s) = Some (JobDoc t) \<and> js_error t \<noteq> None"
proof -
  have id: "js_id (judged a res) = js_id s" "js_id (stamped e why (judged a res)) = js_id s"
    "js_attempts (judged a res) = js_attempts s" for why
    by (simp_all add: judged_def stamped_def assms(1) split: option.splits)
  show "job_at qroot (jobs_of (settle cfg e a res d)) Running (js_id s) = None"
    unfolding settle_board [OF assms(2)]
    by (simp add: job_at_finish job_at_requeue id split: verdict.splits)
  show "job_at qroot (jobs_of (settle cfg e a res d)) Done (js_id s) = Some (JobDoc (judged a res))"
    if "verdict_of cfg e a res d = Finished"
    using that by (simp add: settle_board [OF assms(2)] job_at_finish id)
  show "job_at qroot (jobs_of (settle cfg e a res d)) Pending (js_id s)
      = Some (JobDoc ((judged a res)\<lparr>js_attempts := js_attempts s + 1\<rparr>))"
    if "verdict_of cfg e a res d = Retried"
    using that by (simp add: settle_board [OF assms(2)] job_at_requeue id judged_def assms(1) reordered)
  show "\<exists>t. job_at qroot (jobs_of (settle cfg e a res d)) Failed (js_id s) = Some (JobDoc t) \<and> js_error t \<noteq> None"
    if "verdict_of cfg e a res d = FailedFor why"
  proof -
    have "js_error (stamped e why (judged a res)) \<noteq> None"
      using that by (auto simp: verdict_of_def stamped_def Let_def split: if_splits option.splits)
    with that show ?thesis by (simp add: settle_board [OF assms(2)] job_at_finish id)
  qed
qed

lemma settle_claims: "claims_of (settle cfg e a res d) = claims_of (exit_claim (av_claim a) d)"
  by (simp add: settle_def Let_def finish_settled_claims split: option.splits)

text \<open>C4: settling a job whose process has ended frees its card, moves it out of \<open>running/\<close> and
  files it in one place.  It goes to \<open>done/\<close> when it exited cleanly, was not convicted of over-use
  and every declared artifact is there and committed; back to \<open>pending/\<close>, with one more attempt,
  when it did not exit cleanly but ran out of memory (and did not time out), was not convicted
  itself, has an attempt left, and a holder was convicted after it had started and no longer ago
  than the conviction window; and to \<open>failed/\<close>, with an error, in every other case - an out of
  memory with no conviction to blame among them.\<close>

theorem settle_outcome:
  assumes "s = rj_spec (av_running a)" and "d' = settle cfg e a res d" and "qroot = rc_queue_root cfg"
  shows "job_at qroot (jobs_of d') Running (js_id s) = None
     \<and> (if jr_exit_code res = 0 \<and> \<not> jr_timed_out res \<and> map_of (dm_convicted d) (js_id s) = None
            \<and> artifact_failure e (judged a res) a = None
        then job_at qroot (jobs_of d') Done (js_id s) = Some (JobDoc (judged a res))
        else if jr_exit_code res \<noteq> 0 \<and> jr_oom res \<and> \<not> jr_timed_out res
            \<and> map_of (dm_convicted d) (js_id s) = None \<and> js_attempts s < MAX_ATTEMPTS
            \<and> (\<exists>t. dm_last_conviction d = Some t \<and> av_started a < t
                 \<and> time_le (ce_now e - t) (conviction_window cfg))
        then job_at qroot (jobs_of d') Pending (js_id s)
            = Some (JobDoc ((judged a res)\<lparr>js_attempts := js_attempts s + 1\<rparr>))
        else (\<exists>t. job_at qroot (jobs_of d') Failed (js_id s) = Some (JobDoc t) \<and> js_error t \<noteq> None))
     \<and> (case av_claim a of None \<Rightarrow> claims_of d' = claims_of d
        | Some r \<Rightarrow> claims_of d' = remove_record r (claims_of d) \<and> load (lr_path r) (claims_of d') = None)"
proof -
  note moves = settle_moves [OF assms(1,3), of e res d, folded assms(2)]
  have "case av_claim a of None \<Rightarrow> claims_of d' = claims_of d
        | Some r \<Rightarrow> claims_of d' = remove_record r (claims_of d) \<and> load (lr_path r) (claims_of d') = None"
    using settle_claims [of cfg e a res d] load_after_exit by (auto simp: assms(2) split: option.splits)
  with moves show ?thesis
    unfolding assms(1) settled_clean [of cfg e a res d, symmetric] settled_retried [of cfg e a res d, symmetric]
    by (cases "verdict_of cfg e a res d") (simp_all add: assms(1))
qed

definition example_active :: active where
  "example_active = \<lparr>av_running = \<lparr>rj_spec = example_spec\<lparr>js_pid := Some 11, js_runner_pid := Some 10\<rparr>,
       rj_pid = 11, rj_deadline = Finite 3600\<rparr>,
     av_project = the (map_of (rc_projects example_cfg) ''wgan''), av_workdir = [''/'', ''w''],
     av_claim = Some (admitted_only\<lparr>lr_usage_pid := Some 11\<rparr>), av_started = 0\<rparr>"

definition example_daemon :: daemon where
  "example_daemon = \<lparr>dm_world = \<lparr>w_jobs = write_spec (path_for (rc_queue_root example_cfg) Running ''wgan-1'')
         (rj_spec (av_running example_active)) [],
       w_claims = write_record (admitted_only\<lparr>lr_usage_pid := Some 11\<rparr>) [], w_work = [],
       w_kills = None, w_strikes = Some []\<rparr>,
     dm_active = [(''wgan-1'', example_active)], dm_stopping = False, dm_last_cuda_sweep = None,
     dm_usable_cache = Some 7680, dm_usable_asked = True, dm_card_key = Some ''GPU-ab'',
     dm_convicted = [], dm_last_conviction = Some 100, dm_stuck_claims = {}, dm_void_scopes = {},
     dm_gpuid_strikes = 0, dm_preflight_at = None, dm_preflight_result = None, dm_effects = []\<rparr>"

definition calm_collect :: collect_env where
  "calm_collect = \<lparr>ce_poll = (\<lambda>i. hung_poll), ce_now = 150, ce_exists = (\<lambda>w r. True),
     ce_commit = (\<lambda>i. None), ce_wording = (\<lambda>f. ''failed'')\<rparr>"

text \<open>The clean exit is filed under \<open>done/\<close>; running out of memory 50 seconds after a co-tenant's
  conviction is tried again.\<close>

lemma settle_outcome_witness:
  "job_at (rc_queue_root example_cfg) (jobs_of (settle example_cfg calm_collect example_active
      (result_of (Some 0) None False) example_daemon)) Done ''wgan-1''
     = Some (JobDoc (judged example_active (result_of (Some 0) None False)))
   \<and> job_at (rc_queue_root example_cfg) (jobs_of (settle example_cfg calm_collect example_active
      (result_of (Some 1) (Some ''CUDA out of memory'') False) example_daemon)) Pending ''wgan-1'' \<noteq> None
   \<and> job_at (rc_queue_root example_cfg) (jobs_of (settle example_cfg calm_collect example_active
      (result_of (Some 1) (Some ''CUDA out of memory'') False)
      (example_daemon\<lparr>dm_last_conviction := None\<rparr>))) Failed ''wgan-1'' \<noteq> None"
proof -
  have vals: "artifact_failure calm_collect (judged example_active (result_of (Some 0) None False)) example_active = None"
    "jr_exit_code (result_of (Some 0) None False) = 0" "\<not> jr_timed_out (result_of (Some 0) None False)"
    "jr_exit_code (result_of (Some 1) (Some ''CUDA out of memory'') False) = 1"
    "jr_oom (result_of (Some 1) (Some ''CUDA out of memory'') False)"
    "\<not> jr_timed_out (result_of (Some 1) (Some ''CUDA out of memory'') False)"
    "js_attempts (rj_spec (av_running example_active)) < MAX_ATTEMPTS"
    "dm_last_conviction example_daemon = Some 100" "av_started example_active < 100"
    "time_le (ce_now calm_collect - 100) (conviction_window example_cfg)"
    "dm_convicted example_daemon = []" "js_id (rj_spec (av_running example_active)) = ''wgan-1''" by code_simp+
  show ?thesis
    using settle_outcome [OF refl refl refl, of example_cfg calm_collect example_active
        "result_of (Some 0) None False" example_daemon]
      settle_outcome [OF refl refl refl, of example_cfg calm_collect example_active
        "result_of (Some 1) (Some ''CUDA out of memory'') False" example_daemon]
      settle_outcome [OF refl refl refl, of example_cfg calm_collect example_active
        "result_of (Some 1) (Some ''CUDA out of memory'') False" "example_daemon\<lparr>dm_last_conviction := None\<rparr>"]
      vals
    by simp blast
qed

end
