(* ===== verification/Supervision.thy ===== *)
theory Supervision
  imports Settlement
begin

text \<open>
  What the runner of \<open>src/gpuqueue/runner.py\<close> keeps true over its whole life, with submitters
  and cancellers at work beside it: every job it supervises is in \<open>running/\<close> under its own
  name and specification, no job is both pending and running, and no lane holds more jobs than
  its limit.
\<close>

section \<open>Outcomes\<close>

text \<open>\<open>J\<close> of a phase that returns, \<open>R\<close> of the state an exception leaves.\<close>

definition holds :: "('a \<Rightarrow> bool) \<Rightarrow> (daemon \<Rightarrow> bool) \<Rightarrow> 'a outcome \<Rightarrow> bool" where
  "holds J R x = (case x of Fine a \<Rightarrow> J a | Raised d \<Rightarrow> R d)"

lemma holds_simps [simp]: "holds J R (Fine a) = J a" "holds J R (Raised d) = R d"
  by (simp_all add: holds_def)

lemma holds_then:
  "holds J R x \<Longrightarrow> (\<And>a. J a \<Longrightarrow> holds K R (f a)) \<Longrightarrow> holds K R (and_then x f)"
  by (cases x) simp_all

lemma holds_weaken: "holds J R x \<Longrightarrow> (\<And>a. J a \<Longrightarrow> K a) \<Longrightarrow> holds K R x"
  by (cases x) simp_all

section \<open>The invariant\<close>

definition filed_under :: "path \<Rightarrow> qstate \<Rightarrow> jobs \<Rightarrow> bool" where
  "filed_under qroot st fs \<longleftrightarrow> (\<forall>i s. job_at qroot fs st i = Some (JobDoc s) \<longrightarrow> js_id s = i)"

definition apart :: "path \<Rightarrow> jobs \<Rightarrow> bool" where
  "apart qroot fs \<longleftrightarrow> (\<forall>i. job_at qroot fs Running i \<noteq> None \<longrightarrow> job_at qroot fs Pending i = None)"

definition board_ok :: "path \<Rightarrow> jobs \<Rightarrow> bool" where
  "board_ok qroot fs \<longleftrightarrow> filed_under qroot Pending fs \<and> filed_under qroot Running fs \<and> apart qroot fs"

lemma filed_underI [intro?]:
  "(\<And>i s. job_at qroot fs st i = Some (JobDoc s) \<Longrightarrow> js_id s = i) \<Longrightarrow> filed_under qroot st fs"
  by (simp add: filed_under_def)

lemma filed_underD: "filed_under qroot st fs \<Longrightarrow> job_at qroot fs st i = Some (JobDoc s) \<Longrightarrow> js_id s = i"
  by (simp add: filed_under_def)

lemma apartI [intro?]:
  "(\<And>i f. job_at qroot fs Running i = Some f \<Longrightarrow> job_at qroot fs Pending i = None) \<Longrightarrow> apart qroot fs"
  by (auto simp: apart_def)

lemma apartD: "apart qroot fs \<Longrightarrow> job_at qroot fs Running i = Some f \<Longrightarrow> job_at qroot fs Pending i = None"
  by (simp add: apart_def)

definition limit :: "runner_config \<Rightarrow> string \<Rightarrow> int" where
  "limit cfg lane = (if lane = ''cpu'' then rc_cpu_slots cfg else rc_gpu_max_jobs cfg)"

definition tracked :: "path \<Rightarrow> jobs \<Rightarrow> (string \<times> active) list \<Rightarrow> bool" where
  "tracked qroot fs acts \<longleftrightarrow> distinct (map fst acts)
     \<and> list_all (\<lambda>(i, a). js_id (rj_spec (av_running a)) = i
          \<and> (js_lane (rj_spec (av_running a)) = ''gpu'' \<longrightarrow> av_claim a \<noteq> None)
          \<and> job_at qroot fs Running i = Some (JobDoc (rj_spec (av_running a)))) acts"

definition lane_load :: "string \<Rightarrow> (string \<times> active) list \<Rightarrow> nat" where
  "lane_load lane acts = length (filter (\<lambda>(i, a). js_lane (rj_spec (av_running a)) = lane) acts)"

definition within_limits :: "runner_config \<Rightarrow> daemon \<Rightarrow> bool" where
  "within_limits cfg d = (\<forall>lane. int (in_lane lane d) \<le> limit cfg lane)"

definition supervised :: "runner_config \<Rightarrow> daemon \<Rightarrow> bool" where
  "supervised cfg d \<longleftrightarrow> board_ok (rc_queue_root cfg) (jobs_of d)
     \<and> tracked (rc_queue_root cfg) (jobs_of d) (dm_active d) \<and> within_limits cfg d"

abbreviation board_safe :: "runner_config \<Rightarrow> daemon \<Rightarrow> bool" where
  "board_safe cfg d \<equiv> board_ok (rc_queue_root cfg) (jobs_of d)"

lemma board_okD:
  assumes "board_ok qroot fs"
  shows "job_at qroot fs Pending i = Some (JobDoc s) \<Longrightarrow> js_id s = i"
    and "job_at qroot fs Running i = Some (JobDoc s) \<Longrightarrow> js_id s = i"
    and "job_at qroot fs Running i = Some f \<Longrightarrow> job_at qroot fs Pending i = None"
    and "job_at qroot fs Pending i = Some f \<Longrightarrow> job_at qroot fs Running i = None"
proof -
  have parts: "filed_under qroot Pending fs" "filed_under qroot Running fs" "apart qroot fs"
    using assms by (simp_all add: board_ok_def)
  show "job_at qroot fs Pending i = Some (JobDoc s) \<Longrightarrow> js_id s = i" by (rule filed_underD [OF parts(1)])
  show "job_at qroot fs Running i = Some (JobDoc s) \<Longrightarrow> js_id s = i" by (rule filed_underD [OF parts(2)])
  show "job_at qroot fs Running i = Some f \<Longrightarrow> job_at qroot fs Pending i = None" by (rule apartD [OF parts(3)])
  then show "job_at qroot fs Pending i = Some f \<Longrightarrow> job_at qroot fs Running i = None"
    using apartD [OF parts(3)] by (cases "job_at qroot fs Running i") auto
qed

lemma tracked_at:
  "tracked qroot fs acts \<Longrightarrow> (i, a) \<in> set acts \<Longrightarrow>
     js_id (rj_spec (av_running a)) = i \<and> job_at qroot fs Running i = Some (JobDoc (rj_spec (av_running a)))
     \<and> (js_lane (rj_spec (av_running a)) = ''gpu'' \<longrightarrow> av_claim a \<noteq> None)"
  by (auto simp: tracked_def list_all_iff)

lemma tracked_frame:
  assumes "tracked qroot fs acts" and "\<And>i. i \<in> fst ` set acts \<Longrightarrow> job_at qroot fs' Running i = job_at qroot fs Running i"
  shows "tracked qroot fs' acts"
proof -
  have "job_at qroot fs' Running i = Some (JobDoc (rj_spec (av_running a)))" if "(i, a) \<in> set acts" for i a
    using tracked_at [OF assms(1) that] assms(2) [of i] that by (force simp: image_iff)
  then show ?thesis using assms(1) by (auto simp: tracked_def list_all_iff)
qed

lemma tracked_other:
  assumes "tracked qroot fs acts" and "k \<notin> fst ` set acts"
    and "\<And>i. i \<noteq> k \<Longrightarrow> job_at qroot fs' Running i = job_at qroot fs Running i"
  shows "tracked qroot fs' acts"
  using assms(1)
proof (rule tracked_frame)
  fix i
  assume "i \<in> fst ` set acts"
  with assms(2) have "i \<noteq> k" by blast
  then show "job_at qroot fs' Running i = job_at qroot fs Running i" by (rule assms(3))
qed

lemma supervised_tracked: "supervised cfg d \<Longrightarrow> tracked (rc_queue_root cfg) (jobs_of d) (dm_active d)"
  by (simp add: supervised_def)

section \<open>What each transition does to the board\<close>

lemma board_ok_claim:
  assumes "board_ok qroot fs"
  shows "board_ok qroot (snd (claim qroot i fs))"
proof (cases "job_at qroot fs Pending i = None")
  case False
  note at = job_at_claim [OF False] and old = board_okD [OF assms]
  show ?thesis
    unfolding board_ok_def
    by (intro conjI filed_underI apartI) (auto simp: at split: if_splits dest: old)
qed (simp add: claim_none_unchanged assms)

lemma board_ok_finish:
  assumes "board_ok qroot fs"
  shows "board_ok qroot (finish qroot s ok fs)"
  unfolding board_ok_def
  by (intro conjI filed_underI apartI) (auto simp: job_at_finish split: if_splits dest: board_okD [OF assms])

lemma board_ok_requeue:
  assumes "board_ok qroot fs"
  shows "board_ok qroot (snd (requeue qroot s fs))"
  unfolding board_ok_def
  by (intro conjI filed_underI apartI) (auto simp: job_at_requeue split: if_splits dest: board_okD [OF assms])

lemma board_ok_update:
  assumes "board_ok qroot fs" and "job_at qroot fs Pending (js_id s) = None"
  shows "board_ok qroot (update qroot s Running fs)"
  unfolding board_ok_def
  by (intro conjI filed_underI apartI)
    (auto simp: job_at_update assms(2) split: if_splits dest: board_okD [OF assms(1)])

lemma board_ok_filed: "board_ok qroot fs \<Longrightarrow> filed_by_id qroot fs"
  by (simp add: filed_by_id_def board_okD)

lemma board_ok_recovered:
  assumes "board_ok qroot fs"
  shows "board_ok qroot (fst (requeue_orphans os qroot active fs))"
proof -
  note at = recovered_board [OF board_ok_filed [OF assms]] and old = board_okD [OF assms]
  show ?thesis
    unfolding board_ok_def
  proof (intro conjI filed_underI apartI)
    fix i s
    show "js_id s = i" if "job_at qroot (fst (requeue_orphans os qroot active fs)) Pending i = Some (JobDoc s)"
      using that unfolding at
      by (auto simp: settled_def split: option.splits job_file.splits if_splits dest: old)
    show "js_id s = i" if "job_at qroot (fst (requeue_orphans os qroot active fs)) Running i = Some (JobDoc s)"
      using that unfolding at
      by (auto simp: settled_def split: option.splits job_file.splits if_splits dest: old)
  next
    fix i f
    show "job_at qroot (fst (requeue_orphans os qroot active fs)) Pending i = None"
      if "job_at qroot (fst (requeue_orphans os qroot active fs)) Running i = Some f"
      using that unfolding at
      by (auto simp: settled_def split: option.splits job_file.splits if_splits dest: old)
  qed
qed

lemma recovered_tracked:
  assumes "board_ok qroot fs" and "tracked qroot fs acts" and "fst ` set acts \<subseteq> active"
  shows "tracked qroot (fst (requeue_orphans os qroot active fs)) acts"
  using assms(2)
proof (rule tracked_frame)
  fix i
  assume "i \<in> fst ` set acts"
  then have "i \<in> active" using assms(3) by auto
  then have "spared os active s" if "job_at qroot fs Running i = Some (JobDoc s)" for s
    using board_okD(2) [OF assms(1) that] by (simp add: spared_def)
  then show "job_at qroot (fst (requeue_orphans os qroot active fs)) Running i = job_at qroot fs Running i"
    unfolding recovered_board [OF board_ok_filed [OF assms(1)]]
    by (auto split: option.splits job_file.splits)
qed

section \<open>The reap phase\<close>

lemma reap_jobs:
  assumes "reap cfg su active incl w = Some (res, w')"
  shows "w_jobs w' = fst (requeue_orphans (su_os su) (rc_queue_root cfg) active (w_jobs w))"
proof -
  obtain d where d: "d = (case rc_claim_dir cfg of None \<Rightarrow> claim_dir (su_env su) | Some p \<Rightarrow> p)" by blast
  obtain claims' stale stuck where s: "sweep_stale (su_os su) (su_deny su) (swept_dirs (su_resolve su) (su_env su) d)
      (w_claims w) = (claims', stale, stuck)" using prod_cases3 by blast
  obtain jobs' requeued failed where j: "requeue_orphans (su_os su) (rc_queue_root cfg) active (w_jobs w)
      = (jobs', requeued, failed)" using prod_cases3 by blast
  let ?w1 = "w\<lparr>w_claims := claims', w_jobs := jobs'\<rparr>"
  obtain killed consulted convicted void w2 where
    x: "(if incl \<and> (rc_kill_orphan_cuda cfg \<or> rc_enforce_vram cfg) then sweep_card cfg su d ?w1
        else Some ([], [], [], None, ?w1)) = Some (killed, consulted, convicted, void, w2)"
    and w': "w_jobs w' = w_jobs w2"
    using assms unfolding reap_def d [symmetric] Let_def s j prod.case
    by (fastforce simp: bind_eq_Some_conv split_beta)
  have "w_jobs w2 = jobs'"
    using x by (auto split: if_splits dest: sweep_card_frame(2))
  with w' j show ?thesis by simp
qed

definition same_work :: "daemon \<Rightarrow> daemon \<Rightarrow> bool" where
  "same_work d d' \<longleftrightarrow> dm_world d' = dm_world d \<and> dm_active d' = dm_active d"

lemma note_convictions_work: "holds (same_work d) (same_work d) (note_convictions stamp cs d)"
proof (induction cs arbitrary: d)
  case (Cons c cs)
  have step: "holds (same_work d) (same_work d) (note_convictions stamp cs d')" if "same_work d d'" for d'
    using Cons.IH [of d'] that by (simp add: holds_def same_work_def split: outcome.splits)
  have "same_work d d" "same_work d (d\<lparr>dm_last_conviction := x\<rparr>)" "same_work d (d\<lparr>dm_convicted := y\<rparr>)"
    "same_work d (d\<lparr>dm_last_conviction := x, dm_convicted := y\<rparr>)" for x y
    by (simp_all add: same_work_def)
  then show ?case by (cases "cv_owner c") (simp_all add: Let_def step)
qed (simp add: same_work_def)

lemma supervised_same_work: "same_work d d' \<Longrightarrow> supervised cfg d \<Longrightarrow> supervised cfg d'"
  by (simp add: same_work_def supervised_def within_limits_def in_lane_def)

lemma supervised_safe: "supervised cfg d \<Longrightarrow> board_safe cfg d"
  by (simp add: supervised_def)

lemma reap_phase_supervised:
  assumes "supervised cfg d" and "reap_phase cfg e d = Some x"
  shows "holds (supervised cfg) (board_safe cfg) x"
proof -
  obtain res w where r: "reap cfg (re_surroundings e) (set (map fst (dm_active d))) (sweep_due cfg (re_now e) d)
      (dm_world d) = Some (res, w)"
    and x: "x = (let d1 = d\<lparr>dm_world := w, dm_stuck_claims := set (map (\<lambda>(r, x). lr_path r) (rr_stuck res))\<rparr>;
            d2 = (case rr_void_scopes res of None \<Rightarrow> d1 | Some v \<Rightarrow> d1\<lparr>dm_void_scopes := set v\<rparr>)
        in and_then (note_convictions (re_stamp e) (rr_convicted res) d2)
             (\<lambda>d3. Fine (if sweep_due cfg (re_now e) d then d3\<lparr>dm_last_cuda_sweep := Some (re_now e)\<rparr> else d3)))"
    using assms(2) by (auto simp: reap_phase_def Let_def)
  let ?d = "d\<lparr>dm_world := w\<rparr>"
  have jobs: "w_jobs w = fst (requeue_orphans (su_os (re_surroundings e)) (rc_queue_root cfg)
      (set (map fst (dm_active d))) (jobs_of d))"
    using reap_jobs [OF r] .
  have d: "board_ok (rc_queue_root cfg) (jobs_of d)" "tracked (rc_queue_root cfg) (jobs_of d) (dm_active d)"
    using assms(1) by (simp_all add: supervised_def)
  have ok: "supervised cfg ?d"
    using assms(1) board_ok_recovered [OF d(1)] recovered_tracked [OF d, of "set (map fst (dm_active d))"]
    by (simp add: supervised_def jobs within_limits_def in_lane_def)
  define d2 where "d2 = (case rr_void_scopes res of None \<Rightarrow>
       d\<lparr>dm_world := w, dm_stuck_claims := set (map (\<lambda>(r, x). lr_path r) (rr_stuck res))\<rparr>
     | Some v \<Rightarrow> d\<lparr>dm_world := w, dm_stuck_claims := set (map (\<lambda>(r, x). lr_path r) (rr_stuck res)),
                  dm_void_scopes := set v\<rparr>)"
  have d2: "same_work ?d d2" by (simp add: same_work_def d2_def split: option.splits)
  have "x = and_then (note_convictions (re_stamp e) (rr_convicted res) d2)
     (\<lambda>d3. Fine (if sweep_due cfg (re_now e) d then d3\<lparr>dm_last_cuda_sweep := Some (re_now e)\<rparr> else d3))"
    unfolding x d2_def Let_def by (simp split: option.splits)
  then show ?thesis
    using note_convictions_work [of d2 "re_stamp e" "rr_convicted res"] d2 ok
    by (cases "note_convictions (re_stamp e) (rr_convicted res) d2")
      (auto intro!: supervised_safe intro: supervised_same_work [OF _ ok] simp: same_work_def)
qed

section \<open>Collection\<close>

lemma settle_active: "dm_active (settle cfg e a res d) = dm_active d"
  by (simp add: settle_def finish_settled_def describe_failure_def Let_def split_beta split: option.splits)

lemma judged_id [simp]: "js_id (judged a res) = js_id (rj_spec (av_running a))"
  by (simp add: judged_def)

lemma stamped_id [simp]: "js_id (stamped e why s) = js_id s"
  by (simp add: stamped_def split: option.splits)

lemma settle_others:
  "i \<noteq> js_id (rj_spec (av_running a)) \<Longrightarrow>
     job_at (rc_queue_root cfg) (jobs_of (settle cfg e a res d)) st i = job_at (rc_queue_root cfg) (jobs_of d) st i"
  by (simp add: settle_board [OF refl] job_at_requeue job_at_finish split: verdict.splits)

lemma board_ok_cong:
  assumes "board_ok qroot fs" and "\<And>st i. job_at qroot fs' st i = job_at qroot fs st i"
  shows "board_ok qroot fs'"
  using assms by (simp add: board_ok_def filed_under_def apart_def)

lemma board_ok_settle:
  assumes "board_safe cfg d"
  shows "board_safe cfg (settle cfg e a res d)"
proof (cases "verdict_of cfg e a res d")
  case Retried
  then show ?thesis
    by (intro board_ok_cong [OF board_ok_requeue [OF assms, of "judged a res"]]) (simp add: settle_board [OF refl])
next
  case Finished
  then show ?thesis
    by (intro board_ok_cong [OF board_ok_finish [OF assms, of "judged a res" True]]) (simp add: settle_board [OF refl])
next
  case (FailedFor why)
  then show ?thesis
    by (intro board_ok_cong [OF board_ok_finish [OF assms, of "stamped e why (judged a res)" False]])
      (simp add: settle_board [OF refl])
qed

lemma set_delete: "set (AList.delete k xs) = {p \<in> set xs. fst p \<noteq> k}"
  by (induction xs) auto

lemma fst_delete: "fst ` set (AList.delete k xs) = fst ` set xs - {k}"
  by (force simp: set_delete)

lemma tracked_delete: "tracked qroot fs acts \<Longrightarrow> tracked qroot fs (AList.delete k acts)"
  by (auto simp: tracked_def set_delete list_all_iff AList.distinct_delete)

lemma lane_load_delete: "lane_load lane (AList.delete k acts) \<le> lane_load lane acts"
  by (induction acts) (auto simp: lane_load_def)

lemma in_lane_load: "in_lane lane d = lane_load lane (dm_active d)"
  by (simp add: in_lane_def lane_load_def)

lemma supervised_settle:
  assumes "supervised cfg d" and "(i, a) \<in> set (dm_active d)"
  shows "supervised cfg (settle cfg e a res (d\<lparr>dm_active := AList.delete i (dm_active d)\<rparr>))"
proof -
  let ?d = "d\<lparr>dm_active := AList.delete i (dm_active d)\<rparr>" and ?q = "rc_queue_root cfg"
  have t: "tracked ?q (jobs_of d) (dm_active d)" and b: "board_safe cfg d"
    and w: "within_limits cfg d" using assms(1) by (simp_all add: supervised_def)
  have id: "js_id (rj_spec (av_running a)) = i" using tracked_at [OF t assms(2)] by simp
  have "tracked ?q (jobs_of (settle cfg e a res ?d)) (AList.delete i (dm_active d))"
    using tracked_delete [OF t]
    by (rule tracked_frame) (auto simp: fst_delete settle_others id)
  moreover have "board_safe cfg ?d" using b by simp
  moreover have "within_limits cfg (settle cfg e a res ?d)"
  proof -
    have "int (lane_load lane (AList.delete i (dm_active d))) \<le> limit cfg lane" for lane
      using w lane_load_delete [of lane i "dm_active d"]
      by (auto simp: within_limits_def in_lane_load intro: order_trans [rotated])
    then show ?thesis by (simp add: within_limits_def in_lane_load settle_active)
  qed
  ultimately show ?thesis by (simp add: supervised_def settle_active board_ok_settle)
qed

lemma collect_supervised:
  assumes "supervised cfg d"
  shows "supervised cfg (snd (collect cfg e d))"
proof -
  have "supervised cfg (snd (fold (collect_one cfg e) acts (fin, d)))"
    if "supervised cfg d" "set acts \<subseteq> set (dm_active d)" "distinct (map fst acts)" for acts fin d
    using that
  proof (induction acts arbitrary: fin d)
    case (Cons x acts)
    obtain i a where x: "x = (i, a)" by (cases x)
    show ?case
    proof (cases "polled e i a")
      case None
      with Cons x show ?thesis by (simp add: collect_one_def)
    next
      case (Some res)
      let ?d = "settle cfg e a res (d\<lparr>dm_active := AList.delete i (dm_active d)\<rparr>)"
      have "supervised cfg ?d"
        using supervised_settle [OF Cons.prems(1)] Cons.prems(2) x by simp
      moreover have "set acts \<subseteq> set (dm_active ?d)"
        using Cons.prems(2,3) x by (force simp: settle_active set_delete)
      ultimately show ?thesis
        using Cons.IH [of ?d] Cons.prems(3) Some x by (simp add: collect_one_def)
    qed
  qed simp
  then show ?thesis
    using assms by (simp add: collect_def supervised_def tracked_def)
qed

section \<open>Admission\<close>

definition same_jobs :: "daemon \<Rightarrow> daemon \<Rightarrow> bool" where
  "same_jobs d d' \<longleftrightarrow> jobs_of d' = jobs_of d \<and> dm_active d' = dm_active d"

lemma supervised_same_jobs: "same_jobs d d' \<Longrightarrow> supervised cfg d \<Longrightarrow> supervised cfg d'"
  by (simp add: same_jobs_def supervised_def within_limits_def in_lane_def)

text \<open>A step about the job \<open>i\<close>: it keeps the invariant and moves no other job.\<close>

definition advance :: "runner_config \<Rightarrow> string \<Rightarrow> daemon \<Rightarrow> daemon \<Rightarrow> bool" where
  "advance cfg i d d' \<longleftrightarrow> supervised cfg d' \<and>
     (\<forall>st j. j \<noteq> i \<longrightarrow> job_at (rc_queue_root cfg) (jobs_of d') st j = job_at (rc_queue_root cfg) (jobs_of d) st j)"

lemma advance_same: "supervised cfg d \<Longrightarrow> same_jobs d d' \<Longrightarrow> advance cfg i d d'"
  using supervised_same_jobs by (simp add: advance_def same_jobs_def)

lemma advance_after_same: "same_jobs d d1 \<Longrightarrow> advance cfg i d1 d' \<Longrightarrow> advance cfg i d d'"
  by (simp add: advance_def same_jobs_def)

text \<open>The job \<open>s\<close> waits in \<open>pending/\<close>.\<close>

definition waits :: "runner_config \<Rightarrow> jobspec \<Rightarrow> daemon \<Rightarrow> bool" where
  "waits cfg s d \<longleftrightarrow> job_at (rc_queue_root cfg) (jobs_of d) Pending (js_id s) = Some (JobDoc s)"

lemma waits_same: "same_jobs d d' \<Longrightarrow> waits cfg s d' = waits cfg s d"
  by (simp add: waits_def same_jobs_def)

lemma waiting_not_active:
  assumes "supervised cfg d" and "waits cfg s d"
  shows "js_id s \<notin> fst ` set (dm_active d)"
proof
  assume "js_id s \<in> fst ` set (dm_active d)"
  then obtain a where "(js_id s, a) \<in> set (dm_active d)" by force
  then have "job_at (rc_queue_root cfg) (jobs_of d) Running (js_id s) = Some (JobDoc (rj_spec (av_running a)))"
    using assms(1) tracked_at unfolding supervised_def by blast
  then show False
    using board_okD(3) [OF supervised_safe [OF assms(1)]] assms(2) by (simp add: waits_def)
qed

text \<open>The state right after \<open>claim\<close> has won the rename.\<close>

definition claimed :: "runner_config \<Rightarrow> jobspec \<Rightarrow> daemon \<Rightarrow> daemon" where
  "claimed cfg s d = with_jobs (\<lambda>fs. snd (claim (rc_queue_root cfg) (js_id s) fs)) d"

lemma claim_waiting:
  assumes "waits cfg s d"
  shows "claim (rc_queue_root cfg) (js_id s) (jobs_of d) = (Claimed s, jobs_of (claimed cfg s d))"
    and "job_at (rc_queue_root cfg) (jobs_of (claimed cfg s d)) st j =
      (if j = js_id s \<and> st = Running then Some (JobDoc s)
       else if j = js_id s \<and> st = Pending then None
       else job_at (rc_queue_root cfg) (jobs_of d) st j)"
proof -
  have at: "job_at (rc_queue_root cfg) (jobs_of d) Pending (js_id s) = Some (JobDoc s)"
    using assms by (simp add: waits_def)
  then have "fst (claim (rc_queue_root cfg) (js_id s) (jobs_of d)) = Claimed s"
    by (simp add: claim_Claimed)
  then show "claim (rc_queue_root cfg) (js_id s) (jobs_of d) = (Claimed s, jobs_of (claimed cfg s d))"
    by (cases "claim (rc_queue_root cfg) (js_id s) (jobs_of d)") (simp add: claimed_def)
  show "job_at (rc_queue_root cfg) (jobs_of (claimed cfg s d)) st j =
      (if j = js_id s \<and> st = Running then Some (JobDoc s)
       else if j = js_id s \<and> st = Pending then None
       else job_at (rc_queue_root cfg) (jobs_of d) st j)"
    using at by (simp add: claimed_def job_at_claim)
qed

lemma claimed_supervised:
  assumes "supervised cfg d" and "waits cfg s d"
  shows "advance cfg (js_id s) d (claimed cfg s d)"
proof -
  have "board_safe cfg (claimed cfg s d)"
    using board_ok_claim [OF supervised_safe [OF assms(1)]] by (simp add: claimed_def)
  moreover have "tracked (rc_queue_root cfg) (jobs_of (claimed cfg s d)) (dm_active d)"
    by (rule tracked_other [OF supervised_tracked [OF assms(1)] waiting_not_active [OF assms]])
      (simp add: claim_waiting(2) [OF assms(2)])
  ultimately have "supervised cfg (claimed cfg s d)"
    using assms(1) by (simp add: supervised_def within_limits_def in_lane_def) (simp add: claimed_def)
  then show ?thesis by (simp add: advance_def claim_waiting(2) [OF assms(2)])
qed

lemma finish_claimed:
  assumes "supervised cfg d" and "waits cfg s d" and "js_id t = js_id s"
    and "jobs_of d' = finish (rc_queue_root cfg) t ok (jobs_of (claimed cfg s d))" and "dm_active d' = dm_active d"
  shows "advance cfg (js_id s) d d'"
proof -
  have c: "advance cfg (js_id s) d (claimed cfg s d)" by (rule claimed_supervised [OF assms(1,2)])
  then have s: "supervised cfg (claimed cfg s d)" by (simp add: advance_def)
  have "board_safe cfg d'"
    using board_ok_finish [OF supervised_safe [OF s]] assms(4) by simp
  moreover have "tracked (rc_queue_root cfg) (jobs_of d') (dm_active d)"
    by (rule tracked_other [OF supervised_tracked [OF assms(1)] waiting_not_active [OF assms(1,2)]])
      (simp add: assms(3,4) job_at_finish claim_waiting(2) [OF assms(2)])
  ultimately have "supervised cfg d'"
    using assms(1,5) by (simp add: supervised_def within_limits_def in_lane_def)
  then show ?thesis using c assms(3,4) by (simp add: advance_def job_at_finish)
qed

lemma fail_pending_advance:
  assumes "supervised cfg d" and "waits cfg s d"
  shows "holds (advance cfg (js_id s) d) (board_safe cfg) (fail_pending wording (rc_queue_root cfg) s why d)"
proof -
  have "advance cfg (js_id s) d (fail_running wording (rc_queue_root cfg) s why
      (with_jobs (\<lambda>_. jobs_of (claimed cfg s d)) d))"
    by (rule finish_claimed [OF assms]) (auto simp: fail_running_def)
  then show ?thesis by (simp add: fail_pending_def claim_waiting(1) [OF assms(2)])
qed

lemma with_claimed: "with_jobs (\<lambda>_. jobs_of (claimed cfg s d)) d = claimed cfg s d"
  by (simp add: with_jobs_def claimed_def)

lemma update_new: "k \<notin> fst ` set acts \<Longrightarrow> AList.update k a acts = acts @ [(k, a)]"
  by (induction acts) auto

text \<open>One more supervised job, where its lane has room.\<close>

lemma launched_supervised:
  assumes "supervised cfg d" and "waits cfg s d" and "int (in_lane (js_lane s) d) < limit cfg (js_lane s)"
    and "js_id t = js_id s" and "js_lane t = js_lane s"
    and "rj_spec (av_running a) = t" "js_lane s = ''gpu'' \<longrightarrow> av_claim a \<noteq> None"
    and "jobs_of d' = update (rc_queue_root cfg) t Running (jobs_of (claimed cfg s d))"
    and "dm_active d' = AList.update (js_id s) a (dm_active d)"
  shows "advance cfg (js_id s) d d'"
proof -
  let ?q = "rc_queue_root cfg"
  note new = waiting_not_active [OF assms(1,2)]
  have acts: "dm_active d' = dm_active d @ [(js_id s, a)]"
    using assms(9) update_new [OF new] by simp
  have c: "supervised cfg (claimed cfg s d)"
    using claimed_supervised [OF assms(1,2)] by (simp add: advance_def)
  have "board_safe cfg d'"
    unfolding assms(8)
    by (rule board_ok_update [OF supervised_safe [OF c]]) (simp add: assms(4) claim_waiting(2) [OF assms(2)])
  moreover have "tracked ?q (jobs_of d') (dm_active d)"
    by (rule tracked_other [OF supervised_tracked [OF assms(1)] new])
      (simp add: assms(4,8) job_at_update claim_waiting(2) [OF assms(2)])
  then have "tracked ?q (jobs_of d') (dm_active d')"
    using new assms(4,5,6,7) by (simp add: acts tracked_def assms(8) job_at_update)
  moreover have "int (in_lane lane d') \<le> limit cfg lane" for lane
    using assms(1,3,5,6) by (auto simp: supervised_def within_limits_def in_lane_def acts)
  ultimately have "supervised cfg d'" by (simp add: supervised_def within_limits_def)
  then show ?thesis
    by (simp add: advance_def assms(4,8) job_at_update claim_waiting(2) [OF assms(2)])
qed

lemma start_job_spec: "start_job po now s = Started r \<Longrightarrow> rj_spec r = s"
  by (auto simp: start_job_def split: popen.splits option.splits)

lemma launch_advance:
  assumes "supervised cfg d" and "waits cfg s d" and "int (in_lane (js_lane s) d) < limit cfg (js_lane s)"
    and "js_lane s = ''gpu'' \<longrightarrow> rec \<noteq> None"
  shows "holds (\<lambda>(ok, d'). advance cfg (js_id s) d d') (board_safe cfg)
    (launch cfg e s project rec (claimed cfg s d))"
proof -
  let ?q = "rc_queue_root cfg" and ?c = "claimed cfg s d"
  have lost: "advance cfg (js_id s) d (fail_running (pe_wording e) ?q s why (exit_claim rec ?c))" for why
    by (rule finish_claimed [OF assms(1,2)]) (auto simp: fail_running_def claimed_def)
  have undone: "advance cfg (js_id s) d
      (fail_running (pe_wording e) ?q s why (did x (exit_claim rec (did y ?c))))" for why x y
    by (rule finish_claimed [OF assms(1,2)]) (auto simp: fail_running_def claimed_def)
  have safe: "board_safe cfg ?c"
    using claimed_supervised [OF assms(1,2)] supervised_safe by (simp add: advance_def)
  have act: "dm_active ?c = dm_active d" by (simp add: claimed_def)
  show ?thesis
  proof (cases "je_workdir (pe_job e (js_id s))")
    case (Inr w)
    show ?thesis
    proof (cases "start_job (je_popen (pe_job e (js_id s))) (je_now (pe_job e (js_id s))) s")
      case (Started r)
      have "advance cfg (js_id s) d (snd (True, d'))"
        if "launch cfg e s project rec ?c = Fine (True, d')" for d'
        using that Inr Started act assms(4) unfolding snd_conv
        by (cases rec; intro launched_supervised [OF assms(1-3), of "s\<lparr>js_pid := Some (rj_pid r),
              js_runner_pid := Some (own_pid (je_os (pe_job e (js_id s))))\<rparr>"])
          (auto simp: launch_def Let_def)
      then show ?thesis
        using Inr Started by (simp add: launch_def Let_def)
    qed (use Inr undone safe in \<open>simp_all add: launch_def Let_def split: option.splits\<close>)
  qed (use lost in \<open>simp add: launch_def Let_def\<close>)
qed

lemma claim_and_launch_advance:
  assumes "supervised cfg (pa_daemon p)" and "waits cfg s (pa_daemon p)"
    and "int (in_lane (js_lane s) (pa_daemon p)) < limit cfg (js_lane s)"
    and "js_lane s = ''gpu'' \<longrightarrow> rec \<noteq> None"
  shows "holds (\<lambda>p'. advance cfg (js_id s) (pa_daemon p) (pa_daemon p')) (board_safe cfg)
    (claim_and_launch cfg e s project rec p)"
  using launch_advance [OF assms, of e project]
  unfolding claim_and_launch_def claim_waiting(1) [OF assms(2)]
  by (auto simp: with_claimed split_beta intro!: holds_then)

lemma usable_mb_same: "same_jobs d (snd (usable_mb cfg os d))"
  by (simp add: same_jobs_def usable_mb_def Let_def split: option.splits)

lemma with_claims_same: "same_jobs d (with_claims f d)"
  by (simp add: same_jobs_def)

lemma same_jobs_trans: "same_jobs d d1 \<Longrightarrow> same_jobs d1 d2 \<Longrightarrow> same_jobs d d2"
  by (simp add: same_jobs_def)

definition taken_ok :: "runner_config \<Rightarrow> jobspec \<Rightarrow> daemon \<Rightarrow> taken \<times> daemon \<Rightarrow> bool" where
  "taken_ok cfg s d = (\<lambda>(t, d'). if t = NotTaken then advance cfg (js_id s) d d' else same_jobs d d')"

lemma take_card_ok:
  assumes "supervised cfg d" and "waits cfg s d"
  shows "holds (taken_ok cfg s d) (board_safe cfg) (take_card cfg e s key d)"
proof -
  let ?j = "pe_job e (js_id s)"
  obtain usable d1 where u: "usable_mb cfg (je_os ?j) d = (usable, d1)" by fastforce
  then have same: "same_jobs d d1" using usable_mb_same [of d cfg "je_os ?j"] by simp
  then have d1: "supervised cfg d1" "waits cfg s d1"
    using assms by (simp_all add: supervised_same_jobs waits_same)
  have failed: "holds (taken_ok cfg s d) (board_safe cfg)
      (and_then (fail_pending (pe_wording e) (rc_queue_root cfg) s why d1) (\<lambda>d2. Fine (NotTaken, d2)))" for why
    by (rule holds_then [OF fail_pending_advance [OF d1]])
      (simp add: taken_ok_def advance_after_same [OF same])
  have kept: "taken_ok cfg s d (t, with_claims f d1)" "taken_ok cfg s d (t, d1)" for t f
    using same advance_same [OF assms(1)] same_jobs_trans [OF same with_claims_same]
    by (simp_all add: taken_ok_def)
  note parts = take_card_def Let_def u prod.case
  show ?thesis
  proof (cases "exceeds_capacity (js_vram_mb s) usable")
    case True
    then show ?thesis using failed by (simp only: parts if_True)
  next
    case False
    show ?thesis
    proof (cases "gpu_claim (je_os ?j) NoFile key (js_vram_mb s) False (card_args cfg (pe_env e) s)
                     (Some usable) (Some (Some (rc_gpu_max_jobs cfg))) [attempt_of ?j (claims_of d1)]")
      case None
      then show ?thesis using False kept by (simp only: parts if_False option.case holds_simps)
    next
      case (Some x)
      show ?thesis
      proof (cases x)
        case (Inl r)
        show ?thesis
        proof (cases r)
          case (ClaimFailed c)
          then show ?thesis using False Some Inl kept supervised_safe [OF d1(1)]
            by (cases c) (simp_all only: parts if_False option.case sum.case claim_error.case claim_refusal.case
                holds_simps)
        qed (use False Some Inl failed supervised_safe [OF d1(1)] in
          \<open>simp_all only: parts if_False option.case sum.case claim_error.case holds_simps\<close>)
      next
        case (Inr r)
        then show ?thesis using False Some kept
          by (cases r) (simp only: parts if_False option.case sum.case holds_simps)
      qed
    qed
  qed
qed

definition pass_ok :: "runner_config \<Rightarrow> string \<Rightarrow> pass \<Rightarrow> pass \<Rightarrow> bool" where
  "pass_ok cfg i p p' = advance cfg i (pa_daemon p) (pa_daemon p')"

lemma admit_gpu_ok:
  assumes "supervised cfg (pa_daemon p)" and "waits cfg s (pa_daemon p)"
    and "int (in_lane (js_lane s) (pa_daemon p)) < limit cfg (js_lane s)"
  shows "holds (pass_ok cfg (js_id s) p) (board_safe cfg) (admit_gpu cfg e cst s project p)"
proof -
  let ?d = "pa_daemon p"
  have stay: "pass_ok cfg (js_id s) p p" using advance_same [OF assms(1)] by (simp add: pass_ok_def same_jobs_def)
  have launch: "holds (pass_ok cfg (js_id s) p) (board_safe cfg)
      (claim_and_launch cfg e s project (Some r) (p\<lparr>pa_daemon := d\<rparr>))" if "same_jobs ?d d" for r d
  proof -
    have "supervised cfg d" "waits cfg s d"
      using supervised_same_jobs [OF that assms(1)] waits_same [OF that] assms(2) by simp_all
    moreover have "in_lane (js_lane s) d = in_lane (js_lane s) ?d"
      using that by (simp add: in_lane_def same_jobs_def)
    ultimately have "holds (\<lambda>p'. advance cfg (js_id s) d (pa_daemon p')) (board_safe cfg)
        (claim_and_launch cfg e s project (Some r) (p\<lparr>pa_daemon := d\<rparr>))"
      using claim_and_launch_advance [of cfg "p\<lparr>pa_daemon := d\<rparr>" s "Some r" e project] assms(3) by simp
    then show ?thesis
      by (rule holds_weaken) (simp add: pass_ok_def advance_after_same [OF that])
  qed
  have go: "holds (pass_ok cfg (js_id s) p) (board_safe cfg)
      (and_then (take_card cfg e s key ?d) (\<lambda>(t, d). (case t of
           NotTaken \<Rightarrow> Fine (p\<lparr>pa_daemon := d\<rparr>)
         | TakenClosed \<Rightarrow> Fine (p\<lparr>pa_daemon := d, pa_closed := True\<rparr>)
         | TakenMutex \<Rightarrow> Fine (p\<lparr>pa_daemon := d, pa_blocked := True\<rparr>)
         | Taken r \<Rightarrow> claim_and_launch cfg e s project (Some r) (p\<lparr>pa_daemon := d\<rparr>))))" for key
    by (rule holds_then [OF take_card_ok [OF assms(1,2)]])
      (auto simp: taken_ok_def pass_ok_def advance_same [OF assms(1)] launch split: taken.splits if_splits)
  have fail: "holds (pass_ok cfg (js_id s) p) (board_safe cfg)
      (and_then (fail_pending (pe_wording e) (rc_queue_root cfg) s why ?d) (\<lambda>d. Fine (p\<lparr>pa_daemon := d\<rparr>)))" for why
    by (rule holds_then [OF fail_pending_advance [OF assms(1,2)]]) (simp add: pass_ok_def)
  show ?thesis
    unfolding admit_gpu_def Let_def
    by (simp add: stay go fail split: card_state.splits)
qed

lemma admit_one_ok:
  assumes "supervised cfg (pa_daemon p)" and "waits cfg s (pa_daemon p)"
  shows "holds (pass_ok cfg (js_id s) p) (board_safe cfg) (admit_one cfg e cst s p)"
proof -
  have room: "int (in_lane (js_lane s) (pa_daemon p)) < limit cfg (js_lane s)"
    if "\<not> capacity cfg (js_lane s) (pa_daemon p) \<le> 0"
    using that by (simp add: capacity_def limit_def split: if_splits)
  have stay: "pass_ok cfg (js_id s) p p" using advance_same [OF assms(1)] by (simp add: pass_ok_def same_jobs_def)
  have launch: "holds (pass_ok cfg (js_id s) p) (board_safe cfg) (claim_and_launch cfg e s project None p)"
    if "\<not> capacity cfg (js_lane s) (pa_daemon p) \<le> 0" "js_lane s \<noteq> ''gpu''" for project
    using claim_and_launch_advance [OF assms room [OF that(1)]] that(2) unfolding pass_ok_def by simp
  have fail: "holds (pass_ok cfg (js_id s) p) (board_safe cfg)
      (and_then (fail_pending (pe_wording e) (rc_queue_root cfg) s why (pa_daemon p)) (\<lambda>d. Fine (p\<lparr>pa_daemon := d\<rparr>)))" for why
    by (rule holds_then [OF fail_pending_advance [OF assms]]) (simp add: pass_ok_def)
  show ?thesis
    unfolding admit_one_def
    using stay launch fail admit_gpu_ok [OF assms room] by (auto split: option.splits)
qed

lemma admit_loop_ok:
  assumes "supervised cfg (pa_daemon p)" and "distinct (map js_id ss)"
    and "\<And>s. s \<in> set ss \<Longrightarrow> waits cfg s (pa_daemon p)"
  shows "holds (\<lambda>p'. supervised cfg (pa_daemon p')) (board_safe cfg) (admit_loop cfg e cst ss p)"
  using assms
proof (induction ss arbitrary: p)
  case (Cons s ss)
  have one: "holds (pass_ok cfg (js_id s) p) (board_safe cfg) (admit_one cfg e cst s p)"
    using Cons.prems(1,3) by (intro admit_one_ok) simp_all
  show ?case
    unfolding admit_loop.simps
  proof (rule holds_then [OF one])
    fix p'
    assume p': "pass_ok cfg (js_id s) p p'"
    have "waits cfg t (pa_daemon p')" if "t \<in> set ss" for t
    proof -
      have "js_id t \<noteq> js_id s" using Cons.prems(2) that by (metis distinct.simps(2) image_eqI list.simps(9) set_map)
      then show ?thesis using p' Cons.prems(3) [of t] that by (simp add: pass_ok_def advance_def waits_def)
    qed
    moreover have "supervised cfg (pa_daemon p')" using p' by (simp add: pass_ok_def advance_def)
    ultimately show "holds (\<lambda>p'. supervised cfg (pa_daemon p')) (board_safe cfg) (admit_loop cfg e cst ss p')"
      using Cons.prems(2) by (intro Cons.IH) simp_all
  qed
qed simp

lemma pending_waits:
  assumes "board_safe cfg d"
  shows "distinct (map js_id (pending_in_order (rc_queue_root cfg) (jobs_of d)))"
    and "s \<in> set (pending_in_order (rc_queue_root cfg) (jobs_of d)) \<Longrightarrow> waits cfg s d"
proof -
  let ?ls = "list_state (rc_queue_root cfg) Pending (jobs_of d)"
  have "distinct (map js_id ?ls)"
    by (rule distinct_listed) (rule board_okD(1) [OF assms])
  then show "distinct (map js_id (pending_in_order (rc_queue_root cfg) (jobs_of d)))"
    by (simp add: pending_in_order_def distinct_map)
  show "waits cfg s d" if "s \<in> set (pending_in_order (rc_queue_root cfg) (jobs_of d))"
    using that board_okD(1) [OF assms] by (auto simp: pending_in_order_def in_list_state waits_def)
qed

lemma preflight_cached_same: "same_jobs d (snd (preflight_cached cfg now os env d))"
  by (simp add: same_jobs_def preflight_cached_def Let_def)

lemma card_key_cached_same: "same_jobs d (snd (card_key_cached os d))"
  by (simp add: same_jobs_def card_key_cached_def split: option.splits sum.splits)

lemma ready_card_same: "same_jobs d (snd (ready_card cfg now os env d))"
proof -
  obtain r d1 where p: "preflight_cached cfg now os env d = (r, d1)" by fastforce
  obtain k d2 where k: "card_key_cached os d1 = (k, d2)" by fastforce
  have "same_jobs d d1" "same_jobs d1 d2"
    using preflight_cached_same [of d cfg now os env] card_key_cached_same [of d1 os] p k by simp_all
  then show ?thesis
    using same_jobs_trans by (auto simp: ready_card_def p k split: option.splits sum.splits)
qed

lemma count_strike_same: "same_jobs d (count_strike cst d)"
  by (simp add: same_jobs_def count_strike_def split: card_state.splits)

lemma admit_supervised:
  assumes "supervised cfg d"
  shows "holds (\<lambda>(started, d'). supervised cfg d') (board_safe cfg) (admit cfg e d)"
proof (cases "dm_stopping d")
  case False
  let ?ss = "pending_in_order (rc_queue_root cfg) (jobs_of d)"
  obtain cst d1 where r: "(if list_ex (\<lambda>s. js_lane s = ''gpu'') ?ss \<and> capacity cfg ''gpu'' d > 0
      then ready_card cfg (pe_now e) (pe_os e) (pe_env e) d else (NotAsked, d)) = (cst, d1)" by fastforce
  have "same_jobs d d1"
    using r ready_card_same [of d cfg "pe_now e" "pe_os e" "pe_env e"] by (auto simp: same_jobs_def split: if_splits)
  then have same: "same_jobs d (count_strike cst d1)"
    using count_strike_same same_jobs_trans by blast
  let ?p = "\<lparr>pa_daemon = count_strike cst d1, pa_blocked = False, pa_closed = False, pa_started = []\<rparr>"
  have "holds (\<lambda>p'. supervised cfg (pa_daemon p')) (board_safe cfg) (admit_loop cfg e cst ?ss ?p)"
    using pending_waits [OF supervised_safe [OF assms]] supervised_same_jobs [OF same assms] waits_same [OF same]
    by (intro admit_loop_ok) simp_all
  then have "holds (\<lambda>(started, d'). supervised cfg d') (board_safe cfg)
      (and_then (admit_loop cfg e cst ?ss ?p) (\<lambda>p. Fine (pa_started p, pa_daemon p)))"
    by (rule holds_then) simp
  then show ?thesis using False r by (simp add: admit_def Let_def)
qed (simp add: admit_def assms)

lemma tick_supervised:
  assumes "supervised cfg d" and "tick cfg re ce pe d = Some x"
  shows "holds (\<lambda>(finished, started, d'). supervised cfg d') (board_safe cfg) x"
proof -
  obtain o1 where o1: "reap_phase cfg re d = Some o1" and x: "x = and_then o1 (\<lambda>d1.
     let (finished, d2) = collect cfg ce d1 in
     and_then (admit cfg pe d2) (\<lambda>(started, d3). Fine (finished, started, d3)))"
    using assms(2) by (auto simp: tick_def)
  show ?thesis
    unfolding x
  proof (rule holds_then [OF reap_phase_supervised [OF assms(1) o1]])
    fix d1
    assume d1: "supervised cfg d1"
    obtain fin d2 where c: "collect cfg ce d1 = (fin, d2)" by fastforce
    then have "supervised cfg d2" using collect_supervised [OF d1, of ce] by simp
    then have "holds (\<lambda>(finished, started, d'). supervised cfg d') (board_safe cfg)
        (and_then (admit cfg pe d2) (\<lambda>(started, d3). Fine (fin, started, d3)))"
      by (auto intro!: holds_then [OF admit_supervised])
    then show "holds (\<lambda>(finished, started, d'). supervised cfg d') (board_safe cfg)
        (let (finished, d2) = collect cfg ce d1 in
         and_then (admit cfg pe d2) (\<lambda>(started, d3). Fine (finished, started, d3)))"
      by (simp add: c)
  qed
qed

section \<open>Shutdown\<close>

definition interrupted :: "active \<Rightarrow> jobspec" where
  "interrupted a = (rj_spec (av_running a))\<lparr>js_pid := None\<rparr>"

lemma shutdown_one_parts:
  "job_at (rc_queue_root cfg) (jobs_of (shutdown_one cfg (i, a) d)) st j =
     (if j = js_id (rj_spec (av_running a)) \<and> st = Running then Some (JobDoc (interrupted a))
      else job_at (rc_queue_root cfg) (jobs_of d) st j)"
  "claims_of (shutdown_one cfg (i, a) d)
     = (case av_claim a of None \<Rightarrow> claims_of d | Some r \<Rightarrow> remove_record r (claims_of d))"
  "dm_active (shutdown_one cfg (i, a) d) = AList.delete i (dm_active d)"
  by (simp_all add: shutdown_one_def job_at_update interrupted_def split: option.splits)

lemma load_removed: "load q (remove_record r fs) = (if q = lr_path r then None else load q fs)"
proof (cases "q = lr_path r")
  case False
  then have "load q (remove_record r fs) = load q fs"
    by (intro load_cong) (simp add: remove_record_def store_laws)
  with False show ?thesis by simp
qed (simp add: load_gone remove_record_def store_laws)

lemma fold_shutdown_jobs:
  "distinct (map fst acts) \<Longrightarrow> list_all (\<lambda>(i, a). js_id (rj_spec (av_running a)) = i) acts \<Longrightarrow>
   job_at (rc_queue_root cfg) (jobs_of (fold (shutdown_one cfg) acts d)) st j =
     (case map_of acts j of Some a \<Rightarrow> if st = Running then Some (JobDoc (interrupted a))
          else job_at (rc_queue_root cfg) (jobs_of d) st j
      | None \<Rightarrow> job_at (rc_queue_root cfg) (jobs_of d) st j)"
proof (induction acts arbitrary: d)
  case (Cons x acts)
  obtain i a where x: "x = (i, a)" by (cases x)
  have "map_of acts i = None" "js_id (rj_spec (av_running a)) = i"
    using Cons.prems x by (simp_all add: map_of_eq_None_iff)
  then show ?case
    using Cons.IH [of "shutdown_one cfg (i, a) d"] Cons.prems
    by (auto simp: x shutdown_one_parts(1) split: option.splits)
qed simp

definition held_paths :: "(string \<times> active) list \<Rightarrow> path list" where
  "held_paths acts = map lr_path (List.map_filter (\<lambda>(i, a). av_claim a) acts)"

lemma held_paths_simps [simp]:
  "held_paths [] = []"
  "held_paths ((i, a) # acts) =
     (case av_claim a of None \<Rightarrow> held_paths acts | Some r \<Rightarrow> lr_path r # held_paths acts)"
  by (simp_all add: held_paths_def split: option.splits)

lemma fold_shutdown_claims:
  "load q (claims_of (fold (shutdown_one cfg) acts d)) =
     (if q \<in> set (held_paths acts) then None else load q (claims_of d))"
proof (induction acts arbitrary: d)
  case (Cons x acts)
  obtain i a where x: "x = (i, a)" by (cases x)
  show ?case
    using Cons.IH [of "shutdown_one cfg (i, a) d"]
    by (auto simp: x shutdown_one_parts(2) load_removed split: option.splits)
qed simp

lemma fold_shutdown_active:
  "set (dm_active (fold (shutdown_one cfg) acts d)) = {x \<in> set (dm_active d). fst x \<notin> fst ` set acts}"
proof (induction acts arbitrary: d)
  case (Cons x acts)
  obtain i a where x: "x = (i, a)" by (cases x)
  show ?case using Cons.IH [of "shutdown_one cfg (i, a) d"] by (auto simp: x shutdown_one_parts(3) set_delete)
qed simp

lemma shutdown_jobs:
  assumes "tracked (rc_queue_root cfg) (jobs_of d) (dm_active d)"
  shows "job_at (rc_queue_root cfg) (jobs_of (shutdown cfg d)) st j =
     (case map_of (dm_active d) j of Some a \<Rightarrow> if st = Running then Some (JobDoc (interrupted a))
          else job_at (rc_queue_root cfg) (jobs_of d) st j
      | None \<Rightarrow> job_at (rc_queue_root cfg) (jobs_of d) st j)"
  using assms unfolding shutdown_def tracked_def
  by (intro fold_shutdown_jobs) (auto simp: list_all_iff)

lemma shutdown_active: "dm_active (shutdown cfg d) = []"
proof -
  have "set (dm_active (shutdown cfg d)) = {}"
    using fold_shutdown_active [of cfg "dm_active d" d] by (auto simp: shutdown_def)
  then show ?thesis by simp
qed

lemma board_ok_shutdown:
  assumes "supervised cfg d"
  shows "board_safe cfg (shutdown cfg d)"
proof -
  note t = supervised_tracked [OF assms] and old = board_okD [OF supervised_safe [OF assms]]
  have at: "job_at (rc_queue_root cfg) (jobs_of d) Running i = Some (JobDoc (rj_spec (av_running a)))"
    "js_id (interrupted a) = i" if "map_of (dm_active d) i = Some a" for i a
    using tracked_at [OF t map_of_SomeD [OF that]] by (simp_all add: interrupted_def)
  show ?thesis
    unfolding board_ok_def
    by (intro conjI filed_underI apartI)
      (auto simp: shutdown_jobs [OF t] at split: option.splits dest: old at(1))
qed

section \<open>The life of a runner\<close>

text \<open>
  A runner starts with nothing supervised on a queue without duplicates; it ticks; an exception
  ends it in the middle of a tick, a signal stops it or kills it between two, and supervisor
  starts another one on what it left.  Between its ticks others submit, cancel and claim.
\<close>

inductive life :: "runner_config \<Rightarrow> daemon \<Rightarrow> bool" for cfg where
  born: "dm_active d = [] \<Longrightarrow> board_safe cfg d \<Longrightarrow> life cfg d"
| ticked: "life cfg d \<Longrightarrow> tick cfg re ce pe d = Some (Fine (finished, started, d')) \<Longrightarrow> life cfg d'"
| crashed: "life cfg d \<Longrightarrow> tick cfg re ce pe d = Some (Raised d1) \<Longrightarrow> dm_active d' = [] \<Longrightarrow>
     jobs_of d' = jobs_of d1 \<Longrightarrow> life cfg d'"
| killed: "life cfg d \<Longrightarrow> dm_active d' = [] \<Longrightarrow> jobs_of d' = jobs_of d \<Longrightarrow> life cfg d'"
| stopped: "life cfg d \<Longrightarrow> dm_active d' = [] \<Longrightarrow> jobs_of d' = jobs_of (shutdown cfg d) \<Longrightarrow> life cfg d'"
| submitted: "life cfg d \<Longrightarrow> life cfg (with_jobs (\<lambda>fs. snd (submit (rc_queue_root cfg) s fs)) d)"
| cancelled: "life cfg d \<Longrightarrow> life cfg (with_jobs (\<lambda>fs. snd (cancel (rc_queue_root cfg) i fs)) d)"
| claims_change: "life cfg d \<Longrightarrow> life cfg (with_claims f d)"
| signalled: "life cfg d \<Longrightarrow> life cfg (stop d)"

lemma supervised_new:
  assumes "well_configured cfg" and "dm_active d = []" and "board_safe cfg d"
  shows "supervised cfg d"
  using assms by (simp add: supervised_def tracked_def within_limits_def in_lane_def limit_def well_configured_def)

lemma supervised_board_change:
  assumes "supervised cfg d" and "board_ok (rc_queue_root cfg) (f (jobs_of d))"
    and "\<And>i g. job_at (rc_queue_root cfg) (jobs_of d) Running i = Some g \<Longrightarrow>
           job_at (rc_queue_root cfg) (f (jobs_of d)) Running i = Some g"
  shows "supervised cfg (with_jobs f d)"
proof -
  have "tracked (rc_queue_root cfg) (f (jobs_of d)) (dm_active d)"
    using supervised_tracked [OF assms(1)] assms(3) by (auto simp: tracked_def list_all_iff)
  then show ?thesis using assms(1,2) by (simp add: supervised_def within_limits_def in_lane_def)
qed

lemma submit_board:
  "board_ok qroot fs \<Longrightarrow> board_ok qroot (snd (submit qroot s fs))"
  "job_at qroot fs Running i = Some g \<Longrightarrow> job_at qroot (snd (submit qroot s fs)) Running i = Some g"
proof -
  from submit_cases [of qroot s fs "fst (submit qroot s fs)" "snd (submit qroot s fs)"]
  consider "snd (submit qroot s fs) = fs"
    | "\<forall>st. job_at qroot fs st (js_id s) = None"
      "snd (submit qroot s fs) = write_spec (path_for qroot Pending (js_id s)) s fs" by auto
  then have "(board_ok qroot fs \<longrightarrow> board_ok qroot (snd (submit qroot s fs))) \<and>
    (job_at qroot fs Running i = Some g \<longrightarrow> job_at qroot (snd (submit qroot s fs)) Running i = Some g)"
  proof cases
    case 2
    have "board_ok qroot (snd (submit qroot s fs))" if "board_ok qroot fs"
      unfolding board_ok_def
      by (intro conjI filed_underI apartI)
        (auto simp: 2 job_at_write split: if_splits dest: board_okD [OF that])
    then show ?thesis by (auto simp: 2 job_at_write)
  qed simp
  then show "board_ok qroot fs \<Longrightarrow> board_ok qroot (snd (submit qroot s fs))"
    "job_at qroot fs Running i = Some g \<Longrightarrow> job_at qroot (snd (submit qroot s fs)) Running i = Some g" by auto
qed

lemma cancel_board:
  "board_ok qroot fs \<Longrightarrow> board_ok qroot (snd (cancel qroot i fs))"
  "job_at qroot fs Running j = Some g \<Longrightarrow> job_at qroot (snd (cancel qroot i fs)) Running j = Some g"
proof -
  from cancel_cases [of qroot i fs "fst (cancel qroot i fs)" "snd (cancel qroot i fs)"]
  consider "snd (cancel qroot i fs) = fs"
    | s where "\<And>st i'. job_at qroot (snd (cancel qroot i fs)) st i' =
           (if i' = i \<and> st = Failed then Some (JobDoc (s\<lparr>js_error := Some ''cancelled''\<rparr>))
            else if i' = i \<and> st = Pending then None else job_at qroot fs st i')" by auto
  then have "(board_ok qroot fs \<longrightarrow> board_ok qroot (snd (cancel qroot i fs))) \<and>
    (job_at qroot fs Running j = Some g \<longrightarrow> job_at qroot (snd (cancel qroot i fs)) Running j = Some g)"
  proof cases
    case (2 s)
    have "board_ok qroot (snd (cancel qroot i fs))" if "board_ok qroot fs"
      unfolding board_ok_def
      by (intro conjI filed_underI apartI) (auto simp: 2 split: if_splits dest: board_okD [OF that])
    then show ?thesis by (auto simp: 2)
  qed simp
  then show "board_ok qroot fs \<Longrightarrow> board_ok qroot (snd (cancel qroot i fs))"
    "job_at qroot fs Running j = Some g \<Longrightarrow> job_at qroot (snd (cancel qroot i fs)) Running j = Some g" by auto
qed

lemma life_supervised:
  assumes "well_configured cfg" and "life cfg d"
  shows "supervised cfg d"
  using assms(2)
proof (induction rule: life.induct)
  case (born d)
  then show ?case by (rule supervised_new [OF assms(1)])
next
  case (ticked d re ce pe finished started d')
  then show ?case using tick_supervised [OF ticked.IH ticked.hyps(2)] by simp
next
  case (crashed d re ce pe d1 d')
  have "board_safe cfg d1" using tick_supervised [OF crashed.IH crashed.hyps(2)] by simp
  then show ?case using crashed.hyps(3,4) by (intro supervised_new [OF assms(1)]) simp_all
next
  case (killed d d')
  then show ?case using supervised_safe by (intro supervised_new [OF assms(1)]) simp_all
next
  case (stopped d d')
  then show ?case using board_ok_shutdown by (intro supervised_new [OF assms(1)]) simp_all
next
  case (submitted d s)
  then show ?case
    by (intro supervised_board_change submit_board) (simp_all add: supervised_safe)
next
  case (cancelled d i)
  then show ?case
    by (intro supervised_board_change cancel_board) (simp_all add: supervised_safe)
next
  case (claims_change d f)
  then show ?case using supervised_same_jobs [OF with_claims_same] by blast
next
  case (signalled d)
  then show ?case by (simp add: supervised_def within_limits_def in_lane_def stop_def)
qed

definition idle_daemon :: daemon where
  "idle_daemon = example_daemon\<lparr>dm_active := [],
     dm_world := \<lparr>w_jobs = [], w_claims = [], w_work = [], w_kills = None, w_strikes = Some []\<rparr>\<rparr>"

definition calm_pass :: pass_env where
  "calm_pass = \<lparr>pe_now = 0, pe_os = quiet_box, pe_env = None, pe_job = (\<lambda>i. \<lparr>je_os = quiet_box,
       je_mutex = Locked, je_token = ''c0ffee'', je_stamp = ''2026-09-01T00:00:00Z'',
       je_workdir = Inr [''/'', ''w''], je_popen = PopenStarted 11, je_now = 0\<rparr>),
     pe_wording = (\<lambda>f. ''failed'')\<rparr>"

definition calm_reap :: reap_env where
  "calm_reap = \<lparr>re_now = 0, re_surroundings = split_box, re_stamp = 0\<rparr>"

definition first_tick :: "daemon option" where
  "first_tick = (case tick example_cfg calm_reap calm_collect calm_pass
       (with_jobs (\<lambda>fs. snd (submit (rc_queue_root example_cfg) example_spec fs)) idle_daemon) of
     Some (Fine (finished, started, d)) \<Rightarrow> Some d | _ \<Rightarrow> None)"

lemma first_tick_runs: "map_option (\<lambda>d. map fst (dm_active d)) first_tick = Some [''wgan-1'']"
  by code_simp

lemma first_tick_life:
  obtains d a where "first_tick = Some d" and "life example_cfg d" and "map_of (dm_active d) ''wgan-1'' = Some a"
proof -
  from first_tick_runs obtain d where d: "first_tick = Some d" "map fst (dm_active d) = [''wgan-1'']"
    by (cases first_tick) auto
  have "board_safe example_cfg idle_daemon"
    by (simp add: idle_daemon_def board_ok_def filed_under_def apart_def job_at_def read_file_def)
  then have "life example_cfg idle_daemon" by (intro life.born) (simp_all add: idle_daemon_def)
  then have start: "life example_cfg (with_jobs (\<lambda>fs. snd (submit (rc_queue_root example_cfg) example_spec fs)) idle_daemon)"
    by (rule life.submitted)
  from d(1) have "life example_cfg d"
    unfolding first_tick_def
    by (auto split: option.splits outcome.splits intro: life.ticked [OF start])
  moreover obtain a where "map_of (dm_active d) ''wgan-1'' = Some a"
    using d(2) by (cases "dm_active d") auto
  ultimately show thesis using d(1) that by blast
qed

lemma example_cfg_well: "well_configured example_cfg"
  by code_simp

text \<open>C2: at every moment of a runner's life between two phases, whatever submitters, cancellers
  and other claimants do and however often it crashed, was killed or restarted: each job it
  supervises is in \<open>running/\<close> under its own name with the specification it was launched with,
  is supervised once and holds a claim on the card if its lane is the GPU's, no job is pending and running at the same time, and no lane holds more
  jobs than the configuration allows.\<close>

theorem runner_supervises:
  assumes "well_configured cfg" and "life cfg d"
  shows "distinct (map fst (dm_active d))
     \<and> (map_of (dm_active d) i = Some a \<longrightarrow> js_id (rj_spec (av_running a)) = i
          \<and> (js_lane (rj_spec (av_running a)) = ''gpu'' \<longrightarrow> av_claim a \<noteq> None)
          \<and> job_at (rc_queue_root cfg) (jobs_of d) Running i = Some (JobDoc (rj_spec (av_running a))))
     \<and> (job_at (rc_queue_root cfg) (jobs_of d) Pending i = None
          \<or> job_at (rc_queue_root cfg) (jobs_of d) Running i = None)
     \<and> int (in_lane lane d) \<le> (if lane = ''cpu'' then rc_cpu_slots cfg else rc_gpu_max_jobs cfg)"
proof (intro conjI impI)
  have s: "supervised cfg d" by (rule life_supervised [OF assms])
  note t = supervised_tracked [OF s]
  show "distinct (map fst (dm_active d))" using t by (simp add: tracked_def)
  show "int (in_lane lane d) \<le> (if lane = ''cpu'' then rc_cpu_slots cfg else rc_gpu_max_jobs cfg)"
    using s by (simp add: supervised_def within_limits_def limit_def)
  show "job_at (rc_queue_root cfg) (jobs_of d) Pending i = None
      \<or> job_at (rc_queue_root cfg) (jobs_of d) Running i = None"
    using board_okD(3) [OF supervised_safe [OF s]] by blast
  show "js_id (rj_spec (av_running a)) = i"
    and "job_at (rc_queue_root cfg) (jobs_of d) Running i = Some (JobDoc (rj_spec (av_running a)))"
    if "map_of (dm_active d) i = Some a"
    using tracked_at [OF t map_of_SomeD [OF that]] by simp_all
  show "av_claim a \<noteq> None" if "map_of (dm_active d) i = Some a" "js_lane (rj_spec (av_running a)) = ''gpu''"
    using tracked_at [OF t map_of_SomeD [OF that(1)]] that(2) by simp
qed

lemma runner_supervises_witness:
  "\<exists>d. first_tick = Some d \<and> job_at (rc_queue_root example_cfg) (jobs_of d) Running ''wgan-1'' \<noteq> None
     \<and> in_lane ''gpu'' d \<le> 3"
proof (rule first_tick_life)
  fix d a
  assume "first_tick = Some d" "life example_cfg d" "map_of (dm_active d) ''wgan-1'' = Some a"
  then show ?thesis
    using runner_supervises [OF example_cfg_well, of d "''wgan-1''" a "''gpu''"]
    by (auto simp: example_cfg_def)
qed

text \<open>C12: a shutdown leaves the runner with nothing to supervise, every job it interrupted in
  \<open>running/\<close> with no pid and every claim it held released; the next runner's reap then
  requeues the job once - or fails it, if this was its second attempt.\<close>

theorem interrupted_jobs_retried_once:
  assumes "well_configured cfg" and "life cfg d" and "map_of (dm_active d) i = Some a"
    and "d' = shutdown cfg d" and "s = rj_spec (av_running a)"
    and "fs = fst (requeue_orphans os (rc_queue_root cfg) {} (jobs_of d'))"
  shows "dm_active d' = [] \<and> list_all (\<lambda>q. load q (claims_of d') = None) (held_paths (dm_active d))
     \<and> job_at (rc_queue_root cfg) (jobs_of d') Running i = Some (JobDoc (s\<lparr>js_pid := None\<rparr>))
     \<and> job_at (rc_queue_root cfg) fs Running i = None
     \<and> (if js_attempts s < 1
        then job_at (rc_queue_root cfg) fs Pending i = Some (JobDoc (s\<lparr>js_pid := None, js_attempts := js_attempts s + 1\<rparr>))
        else job_at (rc_queue_root cfg) fs Failed i
           = Some (JobDoc (s\<lparr>js_pid := None, js_error := Some (abandoned_text (js_attempts s))\<rparr>)))"
proof -
  have sup: "supervised cfg d" by (rule life_supervised [OF assms(1,2)])
  have at: "job_at (rc_queue_root cfg) (jobs_of d') Running i = Some (JobDoc (s\<lparr>js_pid := None\<rparr>))"
    using assms(3) by (simp add: assms(4,5) shutdown_jobs [OF supervised_tracked [OF sup]] interrupted_def)
  have dead: "\<not> spared os {} (s\<lparr>js_pid := None\<rparr>)" by (simp add: spared_def job_process_alive_def)
  note reaped = recovered_board [OF board_ok_filed [OF board_ok_shutdown [OF sup]], folded assms(4), of os "{}"]
  have swap: "s\<lparr>js_attempts := n, js_pid := None\<rparr> = s\<lparr>js_pid := None, js_attempts := n\<rparr>" for n
    by (cases s) simp
  have "dm_active d' = []" by (simp add: assms(4) shutdown_active)
  moreover have "list_all (\<lambda>q. load q (claims_of d') = None) (held_paths (dm_active d))"
    by (simp add: list_all_iff assms(4) shutdown_def fold_shutdown_claims)
  ultimately show ?thesis
    using at dead by (simp add: assms(6) reaped settled_def MAX_ATTEMPTS_def swap)
qed

lemma interrupted_jobs_retried_once_witness:
  "\<exists>d. first_tick = Some d \<and> job_at (rc_queue_root example_cfg)
     (jobs_of (shutdown example_cfg d)) Running ''wgan-1'' \<noteq> None"
proof (rule first_tick_life)
  fix d a
  assume "first_tick = Some d" "life example_cfg d" "map_of (dm_active d) ''wgan-1'' = Some a"
  then show ?thesis
    using interrupted_jobs_retried_once [OF example_cfg_well _ _ refl refl refl, of d "''wgan-1''" a quiet_box]
    by auto
qed

end
