(* ===== verification/Admission.thy ===== *)
theory Admission
  imports Supervision
begin

text \<open>
  What one launch and one admission pass of \<open>src/gpuqueue/runner.py\<close> come to.
\<close>

section \<open>A launch\<close>

lemma load_charged:
  "load (lr_path r) (write_record (r\<lparr>lr_usage_pid := u\<rparr>) fs) = Some (r\<lparr>lr_usage_pid := u\<rparr>)"
  using load_written [of "r\<lparr>lr_usage_pid := u\<rparr>" fs] by simp

text \<open>What the launch can leave when something raises that nobody catches: the work tree, and with it
  the process when \<open>Popen\<close> succeeded and \<open>timeout_s\<close> is not a number.\<close>

fun left_behind :: "string \<Rightarrow> path \<Rightarrow> popen \<Rightarrow> effect list" where
  "left_behind i w (PopenStarted p) = [TreeMade w, ProcessStarted i p]"
| "left_behind i w _ = [TreeMade w]"

lemma launch_raised:
  assumes "je_workdir (pe_job e (js_id s)) = Inr w"
    and "start_job (je_popen (pe_job e (js_id s))) (je_now (pe_job e (js_id s))) s = StartRaises x"
  shows "\<exists>d'. launch cfg e s project rec d = Raised d' \<and> dm_world d' = dm_world d \<and> dm_active d' = dm_active d
    \<and> dm_effects d' = dm_effects d @ left_behind (js_id s) w (je_popen (pe_job e (js_id s)))"
  using assms by (auto simp: launch_def start_job_def split: popen.splits option.splits)

lemma launch_lost:
  assumes "d' = fail_running wording qroot s why d1" and "claims_of d1 = claims_of (exit_claim rec d)"
    and "jobs_of d1 = jobs_of d" and "dm_active d1 = dm_active d"
  shows "dm_active d' = dm_active d" and "job_at qroot (jobs_of d') Running (js_id s) = None"
    and "\<exists>t. job_at qroot (jobs_of d') Failed (js_id s) = Some (JobDoc t)
       \<and> js_error t \<noteq> None \<and> js_exit_code t = Some (-1)"
    and "case rec of None \<Rightarrow> claims_of d' = claims_of d | Some r \<Rightarrow> load (lr_path r) (claims_of d') = None"
    and "dm_effects d' = dm_effects d1"
  using assms(2-4) unfolding assms(1)
  by (simp_all add: fail_running_def job_at_finish load_removed split: option.splits)

lemma launch_started:
  assumes "je_workdir (pe_job e (js_id s)) = Inr w" and "je_popen (pe_job e (js_id s)) = PopenStarted p"
    and "seconds (js_timeout_s s) = Some t"
  shows "\<exists>d' a. launch cfg e s project rec d = Fine (True, d') \<and> map_of (dm_active d') (js_id s) = Some a
      \<and> rj_pid (av_running a) = p \<and> rj_deadline (av_running a) = add_float (Finite (je_now (pe_job e (js_id s)))) t
      \<and> av_workdir a = w
      \<and> job_at (rc_queue_root cfg) (jobs_of d') Running (js_id s)
          = Some (JobDoc (s\<lparr>js_pid := Some p, js_runner_pid := Some (own_pid (je_os (pe_job e (js_id s))))\<rparr>))
      \<and> (case rec of None \<Rightarrow> av_claim a = None \<and> claims_of d' = claims_of d
          | Some r \<Rightarrow> av_claim a = Some (r\<lparr>lr_usage_pid := Some p\<rparr>)
              \<and> load (lr_path r) (claims_of d') = Some (r\<lparr>lr_usage_pid := Some p\<rparr>))
      \<and> dm_effects d' = dm_effects d @ [TreeMade w, ProcessStarted (js_id s) p]"
  using assms
  by (cases rec) (auto simp: launch_def start_job_def Let_def job_at_update
      set_usage_pid_def load_charged AList.update_conv')

text \<open>C13: launching a claimed job ends in exactly one of three ways.  Its work tree was made and its
  process started: the job is supervised in that tree with a deadline its timeout away, its file in
  \<open>running/\<close> carries the pid and the runner's, and its claim is charged to that pid.  Its work tree
  could not be made, or its command could not be executed and the tree is removed again: the job is
  in \<open>failed/\<close> with an error, nothing is supervised and the card is free.  Or \<open>Popen\<close> raised what
  the code does not catch, or the timeout is not a number: then jobs, claims and the supervised jobs
  are as they were - the claim is not given back -, but the work tree stays, and in the second case
  the process runs on with nobody supervising it.\<close>

theorem launch_outcome:
  "case launch cfg e s project rec d of
     Fine (True, d') \<Rightarrow> \<exists>w p t a. je_workdir (pe_job e (js_id s)) = Inr w
        \<and> je_popen (pe_job e (js_id s)) = PopenStarted p \<and> seconds (js_timeout_s s) = Some t
        \<and> map_of (dm_active d') (js_id s) = Some a
        \<and> rj_pid (av_running a) = p \<and> rj_deadline (av_running a) = add_float (Finite (je_now (pe_job e (js_id s)))) t
        \<and> av_workdir a = w
        \<and> job_at (rc_queue_root cfg) (jobs_of d') Running (js_id s)
            = Some (JobDoc (s\<lparr>js_pid := Some p, js_runner_pid := Some (own_pid (je_os (pe_job e (js_id s))))\<rparr>))
        \<and> (case rec of None \<Rightarrow> av_claim a = None \<and> claims_of d' = claims_of d
            | Some r \<Rightarrow> av_claim a = Some (r\<lparr>lr_usage_pid := Some p\<rparr>)
                \<and> load (lr_path r) (claims_of d') = Some (r\<lparr>lr_usage_pid := Some p\<rparr>))
        \<and> dm_effects d' = dm_effects d @ [TreeMade w, ProcessStarted (js_id s) p]
   | Fine (False, d') \<Rightarrow> dm_active d' = dm_active d
        \<and> job_at (rc_queue_root cfg) (jobs_of d') Running (js_id s) = None
        \<and> (\<exists>t. job_at (rc_queue_root cfg) (jobs_of d') Failed (js_id s) = Some (JobDoc t)
             \<and> js_error t \<noteq> None \<and> js_exit_code t = Some (-1))
        \<and> (case rec of None \<Rightarrow> claims_of d' = claims_of d
            | Some r \<Rightarrow> load (lr_path r) (claims_of d') = None)
        \<and> (case je_workdir (pe_job e (js_id s)) of Inl text \<Rightarrow> dm_effects d' = dm_effects d
            | Inr w \<Rightarrow> (\<exists>x text. je_popen (pe_job e (js_id s)) = PopenOSError x text)
                \<and> dm_effects d' = dm_effects d @ [TreeMade w, TreeRemoved w])
   | Raised d' \<Rightarrow> \<exists>w. je_workdir (pe_job e (js_id s)) = Inr w
        \<and> dm_world d' = dm_world d \<and> dm_active d' = dm_active d
        \<and> (if je_popen (pe_job e (js_id s)) = PopenRaises then dm_effects d' = dm_effects d @ [TreeMade w]
           else \<exists>p. je_popen (pe_job e (js_id s)) = PopenStarted p \<and> seconds (js_timeout_s s) = None
             \<and> dm_effects d' = dm_effects d @ [TreeMade w, ProcessStarted (js_id s) p])"
proof (cases "je_workdir (pe_job e (js_id s))")
  case (Inl msg)
  then have "launch cfg e s project rec d = Fine (False,
      fail_running (pe_wording e) (rc_queue_root cfg) s (CheckoutFailed msg) (exit_claim rec d))" by (simp add: launch_def)
  with Inl launch_lost [OF refl, of "exit_claim rec d" rec d] show ?thesis
    by (simp only: outcome.case prod.case bool.case sum.case) simp
next
  case (Inr w)
  show ?thesis
  proof (cases "je_popen (pe_job e (js_id s))")
    case (PopenStarted p)
    show ?thesis
    proof (cases "seconds (js_timeout_s s)")
      case (Some t)
      from launch_started [OF Inr PopenStarted Some, of cfg project rec d] Inr PopenStarted Some show ?thesis by auto
    next
      case None
      then have "start_job (PopenStarted p) (je_now (pe_job e (js_id s))) s = StartRaises (Some p)"
        by (simp add: start_job_def)
      from launch_raised [OF Inr, unfolded PopenStarted, OF this, of cfg project rec d] Inr PopenStarted None
      show ?thesis by auto
    qed
  next
    case PopenRaises
    have "start_job PopenRaises (je_now (pe_job e (js_id s))) s = StartRaises None" by (simp add: start_job_def)
    from launch_raised [OF Inr, unfolded PopenRaises, OF this, of cfg project rec d] Inr PopenRaises
    show ?thesis by auto
  next
    case (PopenOSError x msg)
    let ?d = "did (TreeRemoved w) (exit_claim rec (did (TreeMade w) d))"
    have "launch cfg e s project rec d = Fine (False, fail_running (pe_wording e) (rc_queue_root cfg) s (CannotExecute msg) ?d)"
      using Inr PopenOSError by (simp add: launch_def start_job_def)
    with Inr PopenOSError launch_lost [OF refl, of ?d rec d] show ?thesis
      by (simp only: outcome.case prod.case bool.case sum.case) (simp split: option.splits)
  qed
qed

section \<open>A card in trouble\<close>

definition card_blocked :: "card_state \<Rightarrow> daemon \<Rightarrow> bool" where
  "card_blocked cst d = (case cst of CardContended apps \<Rightarrow> True
     | CardUnknown x \<Rightarrow> dm_gpuid_strikes d < GPUID_STRIKES | _ \<Rightarrow> False)"

definition ledger_kept :: "daemon \<Rightarrow> daemon \<Rightarrow> bool" where
  "ledger_kept d d' \<longleftrightarrow> claims_of d' = claims_of d \<and> dm_gpuid_strikes d' = dm_gpuid_strikes d"

lemma ledger_kept_refl [simp]: "ledger_kept d d" "ledger_kept d (with_jobs f d)"
  by (simp_all add: ledger_kept_def with_jobs_def)

lemma ledger_kept_trans: "ledger_kept d d1 \<Longrightarrow> ledger_kept d1 d2 \<Longrightarrow> ledger_kept d d2"
  by (simp add: ledger_kept_def)

lemma holds_conj: "holds J R x \<Longrightarrow> holds K (\<lambda>_. True) x \<Longrightarrow> holds (\<lambda>a. J a \<and> K a) R x"
  by (cases x) simp_all

lemma fail_pending_kept: "holds (ledger_kept d) (\<lambda>_. True) (fail_pending wording qroot s why d)"
  by (auto simp: fail_pending_def fail_running_def ledger_kept_def with_jobs_def split: prod.splits claim_result.splits)

lemma launch_kept: "holds (\<lambda>(ok, d'). ledger_kept d d') (\<lambda>_. True) (launch cfg e s project None d)"
  by (auto simp: launch_def Let_def fail_running_def exit_claim_def ledger_kept_def with_jobs_def
      split: sum.splits start.splits option.splits)

lemma claim_and_launch_kept:
  "holds (\<lambda>p'. ledger_kept (pa_daemon p) (pa_daemon p')) (\<lambda>_. True) (claim_and_launch cfg e s project None p)"
proof -
  have go: "holds (\<lambda>p'. ledger_kept (pa_daemon p) (pa_daemon p')) (\<lambda>_. True)
     (and_then (launch cfg e t project None (with_jobs f (pa_daemon p))) (\<lambda>(ok, d). Fine (g ok d)))"
    if "\<And>ok d. pa_daemon (g ok d) = d" for t f and g :: "bool \<Rightarrow> daemon \<Rightarrow> pass"
    by (rule holds_then [OF launch_kept]) (auto simp: that intro: ledger_kept_trans [OF ledger_kept_refl(2)])
  show ?thesis
    unfolding claim_and_launch_def by (auto simp: go exit_claim_def split: prod.splits claim_result.splits)
qed

lemma admit_gpu_blocked: "card_blocked cst (pa_daemon p) \<Longrightarrow> admit_gpu cfg e cst s project p = Fine p"
  by (simp add: admit_gpu_def card_blocked_def split: card_state.splits)

lemma admit_one_kept:
  assumes "card_blocked cst (pa_daemon p)"
  shows "holds (\<lambda>p'. ledger_kept (pa_daemon p) (pa_daemon p')) (\<lambda>_. True) (admit_one cfg e cst s p)"
proof -
  have fail: "holds (\<lambda>p'. ledger_kept (pa_daemon p) (pa_daemon p')) (\<lambda>_. True)
      (and_then (fail_pending wording qroot s why (pa_daemon p)) (\<lambda>d. Fine (p\<lparr>pa_daemon := d\<rparr>)))" for wording qroot why
    by (rule holds_then [OF fail_pending_kept]) simp
  show ?thesis
    unfolding admit_one_def using fail claim_and_launch_kept admit_gpu_blocked [OF assms]
    by (simp split: option.splits)
qed

lemma admit_one_waits:
  assumes "supervised cfg (pa_daemon p)" and "waits cfg t (pa_daemon p)" and "waits cfg s (pa_daemon p)"
    and "js_lane s = ''gpu''" and "map_of (rc_projects cfg) (js_project s) \<noteq> None"
    and "card_blocked cst (pa_daemon p)"
  shows "holds (\<lambda>p'. waits cfg s (pa_daemon p')) (board_safe cfg) (admit_one cfg e cst t p)"
proof (cases "js_id t = js_id s")
  case True
  then have "t = s" using assms(2,3) by (simp add: waits_def)
  then have "admit_one cfg e cst t p = Fine p"
    using assms(4,5) admit_gpu_blocked [OF assms(6)] by (auto simp: admit_one_def split: option.splits)
  then show ?thesis using assms(3) by simp
next
  case False
  then show ?thesis
    using assms(3) by (intro holds_weaken [OF admit_one_ok [OF assms(1,2)]]) (simp add: pass_ok_def advance_def waits_def)
qed

lemma holds_anyway: "holds J R x \<Longrightarrow> holds J (\<lambda>_. True) x"
  by (cases x) simp_all

lemma blocked_kept: "ledger_kept d d' \<Longrightarrow> card_blocked cst d' = card_blocked cst d"
  by (simp add: ledger_kept_def card_blocked_def split: card_state.splits)

lemma admit_loop_waits:
  assumes "supervised cfg (pa_daemon p)" and "distinct (map js_id ss)"
    and "\<And>t. t \<in> set ss \<Longrightarrow> waits cfg t (pa_daemon p)" and "waits cfg s (pa_daemon p)"
    and gpu: "js_lane s = ''gpu''" "map_of (rc_projects cfg) (js_project s) \<noteq> None"
    and "card_blocked cst (pa_daemon p)"
  shows "holds (\<lambda>p'. waits cfg s (pa_daemon p') \<and> ledger_kept (pa_daemon p) (pa_daemon p')) (\<lambda>_. True)
    (admit_loop cfg e cst ss p)"
  using assms(1-4,7)
proof (induction ss arbitrary: p)
  case (Cons t ss)
  let ?x = "admit_one cfg e cst t p"
  have t: "waits cfg t (pa_daemon p)" using Cons.prems(3) by simp
  have "holds (\<lambda>p'. (pass_ok cfg (js_id t) p p' \<and> waits cfg s (pa_daemon p'))
      \<and> ledger_kept (pa_daemon p) (pa_daemon p')) (\<lambda>_. True) ?x"
    using holds_anyway [OF admit_one_ok [OF Cons.prems(1) t]]
      holds_anyway [OF admit_one_waits [OF Cons.prems(1) t Cons.prems(4) gpu Cons.prems(5)]]
      admit_one_kept [OF Cons.prems(5)]
    by (intro holds_conj)
  then show ?case
    unfolding admit_loop.simps
  proof (rule holds_then)
    fix p'
    assume p': "(pass_ok cfg (js_id t) p p' \<and> waits cfg s (pa_daemon p')) \<and> ledger_kept (pa_daemon p) (pa_daemon p')"
    have "waits cfg u (pa_daemon p')" if "u \<in> set ss" for u
    proof -
      have "js_id u \<noteq> js_id t" using Cons.prems(2) that by (metis distinct.simps(2) image_eqI list.simps(9) set_map)
      then show ?thesis using p' Cons.prems(3) [of u] that by (simp add: pass_ok_def advance_def waits_def)
    qed
    then have "holds (\<lambda>q. waits cfg s (pa_daemon q) \<and> ledger_kept (pa_daemon p') (pa_daemon q)) (\<lambda>_. True)
        (admit_loop cfg e cst ss p')"
      using p' Cons.prems(2,5) blocked_kept by (intro Cons.IH) (auto simp: pass_ok_def advance_def)
    then show "holds (\<lambda>q. waits cfg s (pa_daemon q) \<and> ledger_kept (pa_daemon p) (pa_daemon q)) (\<lambda>_. True)
        (admit_loop cfg e cst ss p')"
      using p' ledger_kept_trans by (auto elim!: holds_weaken)
  qed
qed (simp_all)

text \<open>C14: while somebody holds the card without a claim, and during the first two passes in a row
  that cannot identify the card, no pending GPU job of a declared project is started, failed or
  charged: each of them is still pending after the pass, and the ledger is untouched.  From the
  third pass in a row without an identity on, the code fails the jobs it would otherwise start,
  which is outside this statement.\<close>

theorem card_trouble_defers_gpu_jobs:
  assumes "well_configured cfg" and "life cfg d" and "0 < capacity cfg ''gpu'' d"
    and "fst (ready_card cfg (pe_now e) (pe_os e) (pe_env e) d) = cst"
    and "(\<exists>apps. cst = CardContended apps) \<or> (\<exists>x. cst = CardUnknown x) \<and> dm_gpuid_strikes d + 1 < GPUID_STRIKES"
    and "job_at (rc_queue_root cfg) (jobs_of d) Pending (js_id s) = Some (JobDoc s)" and "js_lane s = ''gpu''"
    and "map_of (rc_projects cfg) (js_project s) \<noteq> None"
    and "admit cfg e d = Fine (started, d')"
  shows "job_at (rc_queue_root cfg) (jobs_of d') Pending (js_id s) = Some (JobDoc s) \<and> claims_of d' = claims_of d"
proof (cases "dm_stopping d")
  case False
  let ?ss = "pending_in_order (rc_queue_root cfg) (jobs_of d)"
  have sup: "supervised cfg d" by (rule life_supervised [OF assms(1,2)])
  have s: "waits cfg s d" using assms(6) by (simp add: waits_def)
  then have "s \<in> set ?ss" by (auto simp: pending_in_order_def in_list_state waits_def)
  then have asked: "list_ex (\<lambda>s. js_lane s = ''gpu'') ?ss" using assms(7) by (auto simp: list_ex_iff)
  obtain d1 where r: "ready_card cfg (pe_now e) (pe_os e) (pe_env e) d = (cst, d1)"
    using assms(4) by (cases "ready_card cfg (pe_now e) (pe_os e) (pe_env e) d") simp
  let ?p = "\<lparr>pa_daemon = count_strike cst d1, pa_blocked = False, pa_closed = False, pa_started = []\<rparr>"
  have same: "same_jobs d (count_strike cst d1)"
    using ready_card_same [of d cfg "pe_now e" "pe_os e" "pe_env e"] r same_jobs_trans count_strike_same by simp
  have kept: "ledger_kept d d1"
    using r by (auto simp: ready_card_def preflight_cached_def card_key_cached_def Let_def ledger_kept_def
        split: prod.splits option.splits sum.splits if_splits)
  then have blocked: "card_blocked cst (count_strike cst d1)" "claims_of (count_strike cst d1) = claims_of d"
    using assms(5) by (auto simp: card_blocked_def count_strike_def ledger_kept_def)
  have "holds (\<lambda>p'. waits cfg s (pa_daemon p') \<and> ledger_kept (pa_daemon ?p) (pa_daemon p')) (\<lambda>_. True)
      (admit_loop cfg e cst ?ss ?p)"
    using pending_waits [OF supervised_safe [OF sup]] supervised_same_jobs [OF same sup] waits_same [OF same] s
      assms(7,8) blocked(1) by (intro admit_loop_waits) simp_all
  moreover obtain p' where "admit_loop cfg e cst ?ss ?p = Fine p'" "d' = pa_daemon p'"
    using assms(9) False asked assms(3) r
    by (cases "admit_loop cfg e cst ?ss ?p") (auto simp: admit_def Let_def)
  ultimately show ?thesis using blocked(2) by (simp add: waits_def ledger_kept_def)
qed (use assms(6,9) in \<open>simp add: admit_def\<close>)

definition intruder_pass :: pass_env where
  "intruder_pass = calm_pass\<lparr>pe_os := quiet_box\<lparr>smi_apps := Some ''4242, 900 MiB, python''\<rparr>\<rparr>"

definition waiting_daemon :: daemon where
  "waiting_daemon = with_jobs (\<lambda>fs. snd (submit (rc_queue_root example_cfg) example_spec fs)) idle_daemon"

lemma waiting_life: "life example_cfg waiting_daemon"
proof -
  have "board_safe example_cfg idle_daemon"
    by (simp add: idle_daemon_def board_ok_def filed_under_def apart_def job_at_def read_file_def)
  then show ?thesis
    unfolding waiting_daemon_def by (intro life.submitted life.born) (simp_all add: idle_daemon_def)
qed

lemma card_trouble_defers_gpu_jobs_witness:
  "\<exists>d'. admit example_cfg intruder_pass waiting_daemon = Fine ([], d')
     \<and> job_at (rc_queue_root example_cfg) (jobs_of d') Pending ''wgan-1'' = Some (JobDoc example_spec)"
proof -
  let ?x = "admit example_cfg intruder_pass waiting_daemon"
  have ran: "(case ?x of Fine ([], d') \<Rightarrow> True | _ \<Rightarrow> False)" by code_simp
  then obtain d' where x: "?x = Fine ([], d')" by (auto split: outcome.splits list.splits)
  have trouble: "(case fst (ready_card example_cfg (pe_now intruder_pass) (pe_os intruder_pass) (pe_env intruder_pass)
      waiting_daemon) of CardContended apps \<Rightarrow> True | _ \<Rightarrow> False)" by code_simp
  have rest: "0 < capacity example_cfg ''gpu'' waiting_daemon" "js_lane example_spec = ''gpu''"
    "map_of (rc_projects example_cfg) (js_project example_spec) \<noteq> None"
    "job_at (rc_queue_root example_cfg) (jobs_of waiting_daemon) Pending (js_id example_spec) = Some (JobDoc example_spec)"
    by (code_simp, code_simp, simp add: example_cfg_def example_spec_def, code_simp)
  show ?thesis
    using card_trouble_defers_gpu_jobs [OF example_cfg_well waiting_life rest(1) refl _ rest(4,2,3) x] trouble x
    by (auto split: card_state.splits)
qed

end
