(* ===== verification/QueueBoard.thy ===== *)
theory QueueBoard
  imports Queue
begin

text \<open>
  \<open>src/gpuqueue/queue.py\<close> as clients see it: every call, with \<open>cancel\<close> split into its three file
  operations, against a specification over the board of jobs alone, and what interleaved calls
  of any number of clients come to.
\<close>

section \<open>Calls\<close>

datatype qop = Submit jobspec | Claim string | Update jobspec | Finish jobspec bool | Requeue jobspec
  | CancelRead string | CancelWrite string jobspec | CancelMove string

datatype answer = NoAnswer | Submitted "submit_error + string" | ClaimAnswer claim_result
  | Requeued jobspec | CancelFound "read_error + jobspec" | CancelMoved bool

fun call :: "path \<Rightarrow> qop \<Rightarrow> jobs \<Rightarrow> answer \<times> jobs" where
  "call qroot (Submit s) fs = (let (r, fs') = submit qroot s fs in (Submitted r, fs'))"
| "call qroot (Claim i) fs = (let (r, fs') = claim qroot i fs in (ClaimAnswer r, fs'))"
| "call qroot (Update s) fs = (NoAnswer, update qroot s Running fs)"
| "call qroot (Finish s ok) fs = (NoAnswer, finish qroot s ok fs)"
| "call qroot (Requeue s) fs = (let (s', fs') = requeue qroot s fs in (Requeued s', fs'))"
| "call qroot (CancelRead i) fs = (CancelFound (cancel_read qroot i fs), fs)"
| "call qroot (CancelWrite i s) fs = (NoAnswer, cancel_write qroot i s fs)"
| "call qroot (CancelMove i) fs = (let (r, fs') = cancel_move qroot i fs in (CancelMoved r, fs'))"

text \<open>\<open>cancel\<close> is the three of them in a row.\<close>

lemma cancel_calls:
  "cancel qroot i fs = (case call qroot (CancelRead i) fs of
     (CancelFound (Inr s), fs1) \<Rightarrow>
        (case call qroot (CancelMove i) (snd (call qroot (CancelWrite i s) fs1)) of
           (CancelMoved m, fs2) \<Rightarrow> (Inr m, fs2) | _ \<Rightarrow> undefined)
   | (CancelFound (Inl NotFound), fs1) \<Rightarrow> (Inr False, fs1)
   | (CancelFound (Inl NotASpec), fs1) \<Rightarrow> (Inl NotASpec, fs1)
   | _ \<Rightarrow> undefined)"
  by (auto simp: cancel_def split: sum.splits read_error.splits prod.splits)

section \<open>What each call does to the board\<close>

definition key_active :: "jobspec \<Rightarrow> board \<Rightarrow> string \<Rightarrow> bool" where
  "key_active s b i \<longleftrightarrow> (\<exists>k other. js_dedupe_key s = Some k \<and> k \<noteq> [] \<and> js_id other = i
     \<and> js_dedupe_key other = Some k
     \<and> (\<exists>j. b Pending j = Some (JobDoc other) \<or> b Running j = Some (JobDoc other)))"

definition read_board :: "job_file option \<Rightarrow> read_error + jobspec" where
  "read_board f = (case f of None \<Rightarrow> Inl NotFound | Some (JobDoc s) \<Rightarrow> Inr s | Some _ \<Rightarrow> Inl NotASpec)"

text \<open>The answer and the board after each call, from the board before.\<close>

fun call_allowed :: "qop \<Rightarrow> board \<Rightarrow> answer \<Rightarrow> board \<Rightarrow> bool" where
  "call_allowed (Submit s) b a b' =
     (case validate s of
        Inl e \<Rightarrow> a = Submitted (Inl (Refused e)) \<and> b' = b
      | Inr _ \<Rightarrow>
          if \<exists>i. key_active s b i then (\<exists>i. key_active s b i \<and> a = Submitted (Inr i)) \<and> b' = b
          else if \<exists>st. b st (js_id s) \<noteq> None then a = Submitted (Inl (IdExists (js_id s))) \<and> b' = b
          else a = Submitted (Inr (js_id s)) \<and> b' = posted Pending (js_id s) (JobDoc s) b)"
| "call_allowed (Claim i) b a b' =
     (case b Pending i of
        None \<Rightarrow> a = ClaimAnswer Gone \<and> b' = b
      | Some f \<Rightarrow> a = ClaimAnswer (case read_board (Some f) of Inl _ \<Rightarrow> ClaimRaises | Inr s \<Rightarrow> Claimed s)
          \<and> b' = moved Pending Running i f b)"
| "call_allowed (Update s) b a b' = (a = NoAnswer \<and> b' = posted Running (js_id s) (JobDoc s) b)"
| "call_allowed (Finish s ok) b a b' =
     (a = NoAnswer \<and> b' = moved Running (if ok then Done else Failed) (js_id s) (JobDoc s) b)"
| "call_allowed (Requeue s) b a b' =
     (let s' = s\<lparr>js_attempts := js_attempts s + 1, js_pid := None\<rparr>
      in a = Requeued s' \<and> b' = moved Running Pending (js_id s) (JobDoc s') b)"
| "call_allowed (CancelRead i) b a b' = (a = CancelFound (read_board (b Pending i)) \<and> b' = b)"
| "call_allowed (CancelWrite i s) b a b' =
     (a = NoAnswer \<and> b' = posted Pending i (JobDoc (s\<lparr>js_error := Some ''cancelled''\<rparr>)) b)"
| "call_allowed (CancelMove i) b a b' =
     (case b Pending i of
        None \<Rightarrow> a = CancelMoved False \<and> b' = b
      | Some f \<Rightarrow> a = CancelMoved True \<and> b' = moved Pending Failed i f b)"

lemma read_spec_board: "read_spec (path_for qroot st i) fs = read_board (job_at qroot fs st i)"
  by (simp add: read_spec_def read_board_def job_at_def split: option.split job_file.split)

lemma key_active_listed:
  "(\<exists>other \<in> set (list_state qroot Pending fs @ list_state qroot Running fs).
      js_dedupe_key s = Some k \<and> k \<noteq> [] \<and> js_id other = i \<and> js_dedupe_key other = Some k)
   \<Longrightarrow> key_active s (job_at qroot fs) i"
  by (simp add: key_active_def in_list_state Bex_def) blast

lemma active_duplicate_Some:
  "active_duplicate qroot s fs = Some other \<Longrightarrow> key_active s (job_at qroot fs) (js_id other)"
  by (rule key_active_listed [where k = "the (js_dedupe_key s)"])
    (auto simp: active_duplicate_def ACTIVE_def find_Some_iff set_conv_nth split: option.splits if_splits)

lemma active_duplicate_None:
  "active_duplicate qroot s fs = None \<Longrightarrow> \<not> key_active s (job_at qroot fs) i"
  by (fastforce simp: active_duplicate_def ACTIVE_def key_active_def find_None_all in_list_state Ball_def
      split: option.splits if_splits)

lemma all_states: "st \<in> set STATES"
  by (cases st) (simp_all add: STATES_def)

lemma submit_allowed:
  assumes "submit qroot s fs = (r, fs')"
  shows "call_allowed (Submit s) (job_at qroot fs) (Submitted r) (job_at qroot fs')"
proof (cases "validate s")
  case (Inl e)
  with assms have "r = Inl (Refused e)" "fs' = fs" by (simp_all add: submit_def)
  with Inl show ?thesis by simp
next
  case (Inr u)
  have taken: "(\<exists>st\<in>set STATES. exists_file fs (path_for qroot st (js_id s))) \<longleftrightarrow>
      (\<exists>st. job_at qroot fs st (js_id s) \<noteq> None)"
    using all_states by (simp add: exists_file_def job_at_def Bex_def)
  show ?thesis
  proof (cases "active_duplicate qroot s fs")
    case None
    then have none: "\<not> (\<exists>i. key_active s (job_at qroot fs) i)" using active_duplicate_None by blast
    show ?thesis
    proof (cases "\<exists>st. job_at qroot fs st (js_id s) \<noteq> None")
      case True
      with assms Inr None have "r = Inl (IdExists (js_id s))" "fs' = fs" by (simp_all add: submit_def taken)
      then show ?thesis unfolding call_allowed.simps Inr sum.case if_not_P [OF none] if_P [OF True] by simp
    next
      case False
      with assms Inr None have "r = Inr (js_id s)" "fs' = write_spec (path_for qroot Pending (js_id s)) s fs"
        by (simp_all add: submit_def taken)
      moreover have "job_at qroot (write_spec (path_for qroot Pending (js_id s)) s fs)
          = posted Pending (js_id s) (JobDoc s) (job_at qroot fs)"
        by (auto simp: posted_def fun_eq_iff job_at_write)
      ultimately show ?thesis unfolding call_allowed.simps Inr sum.case if_not_P [OF none] if_not_P [OF False] by simp
    qed
  next
    case (Some other)
    then have dup: "\<exists>i. key_active s (job_at qroot fs) i" using active_duplicate_Some by blast
    from assms Inr Some have "r = Inr (js_id other)" "fs' = fs" by (simp_all add: submit_def)
    then show ?thesis
      using active_duplicate_Some [OF Some] unfolding call_allowed.simps Inr sum.case if_P [OF dup] by blast
  qed
qed

lemma claim_allowed:
  assumes "claim qroot i fs = (r, fs')"
  shows "call_allowed (Claim i) (job_at qroot fs) (ClaimAnswer r) (job_at qroot fs')"
proof (cases "job_at qroot fs Pending i")
  case None
  with assms show ?thesis by (simp add: claim_none_unchanged)
next
  case (Some f)
  then obtain g where g: "rename_file (path_for qroot Pending i) (path_for qroot Running i) fs = Some g"
    by (rule rename_at_Some)
  have "fs' = g \<and> r = (case read_board (Some f) of Inl _ \<Rightarrow> ClaimRaises | Inr s \<Rightarrow> Claimed s)"
    using assms by (auto simp: claim_def g read_spec_board job_at_rename [OF g] Some split: sum.splits)
  then have "fs' = g" "r = (case read_board (Some f) of Inl _ \<Rightarrow> ClaimRaises | Inr s \<Rightarrow> Claimed s)" by blast+
  with Some show ?thesis by (simp add: moved_def fun_eq_iff job_at_rename [OF g])
qed

lemma cancel_move_allowed:
  assumes "cancel_move qroot i fs = (r, fs')"
  shows "call_allowed (CancelMove i) (job_at qroot fs) (CancelMoved r) (job_at qroot fs')"
proof (cases "job_at qroot fs Pending i")
  case None
  with assms show ?thesis by (simp add: cancel_move_def rename_at_None)
next
  case (Some f)
  then obtain g where g: "rename_file (path_for qroot Pending i) (path_for qroot Failed i) fs = Some g"
    by (rule rename_at_Some)
  with assms have "fs' = g" "r" by (simp_all add: cancel_move_def)
  with Some show ?thesis
    by (simp add: moved_def fun_eq_iff job_at_rename [OF g])
qed

lemma call_refines:
  "call_allowed op (job_at qroot fs) (fst (call qroot op fs)) (job_at qroot (snd (call qroot op fs)))"
proof (cases op)
  case (Submit s)
  obtain r g where "submit qroot s fs = (r, g)" by fastforce
  from this submit_allowed [OF this] show ?thesis by (simp add: Submit del: call_allowed.simps)
next
  case (Claim i)
  obtain r g where "claim qroot i fs = (r, g)" by fastforce
  from this claim_allowed [OF this] show ?thesis by (simp add: Claim del: call_allowed.simps)
next
  case (CancelMove i)
  obtain r g where "cancel_move qroot i fs = (r, g)" by fastforce
  from this cancel_move_allowed [OF this] show ?thesis by (simp add: CancelMove del: call_allowed.simps)
next
  case (Requeue s)
  show ?thesis
    by (simp add: Requeue case_prod_beta Let_def moved_def fun_eq_iff job_at_requeue)
qed (simp_all add: posted_def moved_def fun_eq_iff job_at_update job_at_finish cancel_read_def
    cancel_write_def read_spec_board job_at_write)

text \<open>C3: the files implement the board.  Whatever is on the disk (unreadable files included),
  every call - a submission under its lock, a claim, the runner's and the reaper's update, finish
  and requeue, and each of the three file operations of a cancel - gives the answer and leaves
  the board that the call's specification says, and touches no other job: \<open>finish\<close> files a job
  under \<open>done/\<close> when it is told the job went well and under \<open>failed/\<close> when not, \<open>requeue\<close> puts it
  back with one more attempt and no pid, \<open>claim\<close> moves it to \<open>running/\<close>, \<open>submit\<close> posts it unless it
  is invalid, its key is active or its identifier taken.\<close>

theorem queue_refines_board:
  "call_allowed op (job_at qroot fs) (fst (call qroot op fs)) (job_at qroot (snd (call qroot op fs)))"
  by (rule call_refines)

section \<open>One place for a job\<close>

text \<open>
  Any number of clients, their calls and the steps of their cancels in any order.  The runner
  and the reaper rewrite, finish and requeue a job that is in \<open>running/\<close>.  The set has the jobs
  some cancel lost the race for: it wrote the file of a job that had left \<open>pending/\<close>.
\<close>

definition proper :: "qop \<Rightarrow> board \<Rightarrow> bool" where
  "proper op b = (case op of
      Update s \<Rightarrow> b Running (js_id s) \<noteq> None
    | Finish s ok \<Rightarrow> b Running (js_id s) \<noteq> None
    | Requeue s \<Rightarrow> b Running (js_id s) \<noteq> None
    | _ \<Rightarrow> True)"

definition lost_race :: "qop \<Rightarrow> board \<Rightarrow> string set" where
  "lost_race op b = (case op of CancelWrite i s \<Rightarrow> if b Pending i = None then {i} else {} | _ \<Rightarrow> {})"

inductive interleaved :: "path \<Rightarrow> string set \<times> jobs \<Rightarrow> bool" for qroot where
  no_jobs: "interleaved qroot ({}, [])"
| one_call: "interleaved qroot (lost, fs) \<Longrightarrow> proper op (job_at qroot fs)
     \<Longrightarrow> interleaved qroot (lost \<union> lost_race op (job_at qroot fs), snd (call qroot op fs))"

definition in_one :: "board \<Rightarrow> string \<Rightarrow> bool" where
  "in_one b i \<longleftrightarrow> (\<forall>st st'. b st i \<noteq> None \<longrightarrow> b st' i \<noteq> None \<longrightarrow> st = st')"

lemma in_one_posted:
  "in_one b i \<Longrightarrow> b st j \<noteq> None \<or> (\<forall>t. b t j = None) \<Longrightarrow> in_one (posted st j f b) i"
  by (auto simp: in_one_def posted_def)

lemma in_one_moved: "in_one b i \<Longrightarrow> b st j \<noteq> None \<Longrightarrow> in_one (moved st st' j f b) i"
  by (auto simp: in_one_def moved_def)

lemma call_keeps_one:
  assumes "call_allowed op b a b'" "proper op b" "in_one b i" "i \<notin> lost_race op b"
  shows "in_one b' i"
proof (cases op)
  case (Submit s)
  have "b' = b \<or> (\<forall>st. b st (js_id s) = None) \<and> b' = posted Pending (js_id s) (JobDoc s) b"
    using assms(1) unfolding Submit call_allowed.simps by (simp split: sum.splits if_splits)
  with assms(3) show ?thesis by (auto intro: in_one_posted)
next
  case (CancelWrite j s)
  with assms show ?thesis
    by (cases "i = j") (auto simp: lost_race_def in_one_def posted_def split: if_splits)
qed (use assms in \<open>auto simp: proper_def Let_def intro!: in_one_posted in_one_moved split: option.splits\<close>)

lemma interleaved_one:
  "interleaved qroot p \<Longrightarrow> i \<notin> fst p \<Longrightarrow> in_one (job_at qroot (snd p)) i"
proof (induction rule: interleaved.induct)
  case no_jobs
  then show ?case by (simp add: in_one_def job_at_def read_file_def)
next
  case (one_call lost fs op)
  then show ?case
    using call_keeps_one [OF call_refines [of op qroot fs], of i] by auto
qed

text \<open>C8: whatever submitters, runners, reapers and cancellers do, in whatever order and with the
  three file operations of every cancel interleaved with anything, a job is in at most one of the
  four directories, unless a cancel wrote its file after it had left \<open>pending/\<close> (which the code
  does not prevent: see \<open>QueueRaces.cancel_races_claim\<close>).  Every call but \<open>cancel\<close> is one step, and the
  runner and the reaper act on a job that is in \<open>running/\<close>.\<close>

theorem job_in_one_state:
  assumes "interleaved qroot (lost, fs)" and "i \<notin> lost"
    and "job_at qroot fs st i \<noteq> None" and "job_at qroot fs st' i \<noteq> None"
  shows "st = st'"
  using interleaved_one [OF assms(1), of i] assms(2-4) by (auto simp: in_one_def)

definition cancelling :: jobs where
  "cancelling = snd (call [''q''] (CancelWrite ''wgan-1'' example_spec) posted_example)"

lemma cancelling_reached: "interleaved [''q''] ({}, cancelling)"
proof -
  have "interleaved [''q''] ({} \<union> lost_race (Submit example_spec) (job_at [''q''] []), snd (call [''q''] (Submit example_spec) []))"
    by (rule interleaved.one_call [OF interleaved.no_jobs]) (simp add: proper_def)
  then have posted: "interleaved [''q''] ({}, posted_example)"
    by (simp add: posted_example_def lost_race_def case_prod_beta)
  show ?thesis
    using interleaved.one_call [OF posted, of "CancelWrite ''wgan-1'' example_spec"]
    by (simp add: cancelling_def lost_race_def posted_example_at proper_def)
qed

lemma job_in_one_state_witness:
  "\<exists>st. st = Pending \<and> job_at [''q''] cancelling st ''wgan-1'' \<noteq> None"
  using job_in_one_state [OF cancelling_reached, of "''wgan-1''" Pending Pending]
  by (auto simp: cancelling_def cancel_write_def job_at_write)

end
