(* ===== verification/QueueRaces.thy ===== *)
theory QueueRaces
  imports Queue
begin

text \<open>
  \<open>src/gpuqueue/queue.py\<close>, continued: dedupe keys across the life of the queue, and what
  happens between the file operations of one call.  \<open>cancel\<close> is three operations and takes
  no lock, and \<open>submit\<close>'s lock keeps out other submitters but not the runner.
\<close>

section \<open>Dedupe keys\<close>

text \<open>Some active job with identifier \<open>i\<close> carries the key \<open>k\<close>.\<close>

definition keyed :: "string \<Rightarrow> board \<Rightarrow> string \<Rightarrow> bool" where
  "keyed k b i = (\<exists>st\<in>{Pending, Running}. \<exists>s. b st i = Some (JobDoc s) \<and> js_dedupe_key s = Some k)"

lemma keyedI: "st = Pending \<or> st = Running \<Longrightarrow> b st i = Some (JobDoc s) \<Longrightarrow>
    js_dedupe_key s = Some k \<Longrightarrow> keyed k b i"
  by (auto simp: keyed_def)

lemma keyed_moved:
  assumes "b st j = Some f0" and "st = Pending \<or> st = Running"
    and "\<And>s. f = JobDoc s \<Longrightarrow> \<exists>s0. f0 = JobDoc s0 \<and> js_dedupe_key s0 = js_dedupe_key s"
    and "keyed k (moved st st' j f b) i"
  shows "keyed k b i"
  using assms by (auto simp: keyed_def moved_def split: if_splits)

lemma keyed_posted:
  assumes "b Running j = Some (JobDoc s0)" and "js_dedupe_key s0 = js_dedupe_key s"
    and "keyed k (posted Running j (JobDoc s) b) i"
  shows "keyed k b i"
  using assms by (auto simp: keyed_def posted_def split: if_splits)

lemma no_duplicate_not_keyed:
  assumes "active_duplicate qroot s fs = None" and "js_dedupe_key s = Some k" and "k \<noteq> []"
  shows "\<not> keyed k (job_at qroot fs) i"
  using assms
  by (auto simp: active_duplicate_def keyed_def ACTIVE_def find_None_all in_list_state Ball_def)

lemma keyed_step:
  assumes "qstep qroot fs fs'" and "k \<noteq> []" and "keyed k (job_at qroot fs') i"
  shows "keyed k (job_at qroot fs) i
       \<or> (\<forall>j. \<not> keyed k (job_at qroot fs) j \<and> (keyed k (job_at qroot fs') j \<longrightarrow> j = i))"
  using assms(1)
proof (cases rule: qstep.cases)
  case (q_submit s)
  then consider "fs' = fs" | "active_duplicate qroot s fs = None"
      "fs' = write_spec (path_for qroot Pending (js_id s)) s fs"
    using submit_cases by (metis prod.collapse)
  then show ?thesis
  proof cases
    case 2
    have board: "job_at qroot fs' = posted Pending (js_id s) (JobDoc s) (job_at qroot fs)"
      by (auto simp: 2(2) posted_def fun_eq_iff job_at_write)
    show ?thesis
    proof (cases "js_dedupe_key s = Some k")
      case True
      then have none: "\<not> keyed k (job_at qroot fs) j" for j
        using no_duplicate_not_keyed [OF 2(1) _ assms(2)] by blast
      have "keyed k (job_at qroot fs') j \<Longrightarrow> j = js_id s" for j
        using none [of j] unfolding board by (auto simp: keyed_def posted_def split: if_splits)
      then show ?thesis using none assms(3) by blast
    next
      case False
      then show ?thesis
        using assms(3) unfolding board by (auto simp: keyed_def posted_def split: if_splits)
    qed
  qed (use assms(3) in simp)
next
  case (q_claim j)
  show ?thesis
  proof (cases "job_at qroot fs Pending j")
    case (Some f)
    have "keyed k (job_at qroot fs) i"
      by (rule keyed_moved [of _ Pending j f f])
        (use Some assms(3) q_claim in \<open>simp_all add: qb.at_claim [OF Some]\<close>)
    then show ?thesis ..
  qed (use assms(3) q_claim in \<open>simp add: qb.claim_gone\<close>)
next
  case (q_update s s0)
  then show ?thesis
    using assms(3) by (auto simp: qb.at_update same_job_def intro: keyed_posted)
next
  case (q_finish s s0 ok)
  then show ?thesis
    using assms(3) keyed_moved [of "job_at qroot fs" Running "js_id s" "JobDoc s0" "JobDoc s"]
    by (auto simp: qb.at_finish same_job_def)
next
  case (q_requeue s s0)
  then show ?thesis
    using assms(3)
      keyed_moved [of "job_at qroot fs" Running "js_id s" "JobDoc s0" "JobDoc (fst (requeue qroot s fs))"]
    by (auto simp: qb.at_requeue same_job_def)
next
  case (q_cancel j)
  show ?thesis
  proof (cases "fs' = fs")
    case False
    with q_cancel obtain s where s: "job_at qroot fs Pending j = Some (JobDoc s)"
        "job_at qroot fs' = moved Pending Failed j (JobDoc (s\<lparr>js_error := Some ''cancelled''\<rparr>)) (job_at qroot fs)"
      using qb.at_cancel [of qroot j fs] by auto
    have "keyed k (job_at qroot fs) i"
      by (rule keyed_moved [of _ Pending j "JobDoc s" "JobDoc (s\<lparr>js_error := Some ''cancelled''\<rparr>)" _ Failed])
        (use assms(3) s in simp_all)
    then show ?thesis ..
  qed (use assms(3) in simp)
qed

text \<open>C32: no two active jobs of a reachable queue carry the same dedupe key: \<open>submit\<close> returns
  the job that has it instead of posting another, and no other transition copies a key.\<close>

theorem active_keys_unique:
  assumes "queue_reach qroot fs" and "k \<noteq> []"
    and "keyed k (job_at qroot fs) i" and "keyed k (job_at qroot fs) j"
  shows "i = j"
  using assms
proof (induction arbitrary: i j rule: queue_reach.induct)
  case empty_queue
  then show ?case by (auto simp: keyed_def job_at_def read_file_def)
next
  case (more fs fs')
  then show ?case
    using keyed_step [OF more.hyps(2) more.prems(1), of i] keyed_step [OF more.hyps(2) more.prems(1), of j]
    by blast
qed

definition keyed_spec :: jobspec where
  "keyed_spec = example_spec\<lparr>js_dedupe_key := Some ''nightly''\<rparr>"

lemma active_keys_unique_witness:
  "\<exists>i. i = ''wgan-1'' \<and> keyed ''nightly'' (job_at [''q''] (snd (submit [''q''] keyed_spec []))) i"
proof -
  let ?fs = "snd (submit [''q''] keyed_spec [])"
  have "queue_reach [''q''] ?fs"
    by (rule queue_reach.more [OF queue_reach.empty_queue q_submit])
  moreover have "job_at [''q''] ?fs Pending ''wgan-1'' = Some (JobDoc keyed_spec)"
    by code_simp
  then have "keyed ''nightly'' (job_at [''q''] ?fs) ''wgan-1''"
    by (auto simp: keyed_def keyed_spec_def)
  ultimately show ?thesis
    using active_keys_unique [of "[''q'']" ?fs "''nightly''" "''wgan-1''" "''wgan-1''"] by auto
qed

section \<open>submit, between its two listings\<close>

text \<open>
  The check lists \<open>pending/\<close> and then \<open>running/\<close>; the runner may act in between.
  \<open>duplicate_between\<close> is the scan with the files as they are at each of its two listings.
\<close>

definition duplicate_between :: "path \<Rightarrow> string \<Rightarrow> jobs \<Rightarrow> jobs \<Rightarrow> jobspec option" where
  "duplicate_between qroot k fs_pending fs_running =
     find (\<lambda>other. js_dedupe_key other = Some k)
       (list_state qroot Pending fs_pending @ list_state qroot Running fs_running)"

lemma duplicate_between_same:
  "js_dedupe_key s = Some k \<Longrightarrow> k \<noteq> [] \<Longrightarrow> duplicate_between qroot k fs fs = active_duplicate qroot s fs"
  by (simp add: duplicate_between_def active_duplicate_def ACTIVE_def)

text \<open>A requeue between the two listings hides a running job from the dedupe check.  The
  only active job with the key is in \<open>running/\<close> when \<open>pending/\<close> is read and back in
  \<open>pending/\<close> when \<open>running/\<close> is read, so the scan finds no duplicate although the key is
  active throughout.\<close>

lemma requeue_hides_duplicate:
  assumes "one_place (job_at qroot fs)"
    and "job_at qroot fs Running (js_id s) = Some (JobDoc s)"
    and "js_dedupe_key s = Some k"
    and only: "\<And>i. keyed k (job_at qroot fs) i \<Longrightarrow> i = js_id s"
  shows "duplicate_between qroot k fs (snd (requeue qroot s fs)) = None
       \<and> keyed k (job_at qroot (snd (requeue qroot s fs))) (js_id s)"
proof
  have "js_dedupe_key t \<noteq> Some k" if "job_at qroot fs Pending i = Some (JobDoc t)" for t i
    using that only [of i] one_placeD [OF assms(1,2), of Pending] by (auto simp: keyed_def)
  moreover have "js_dedupe_key t \<noteq> Some k"
    if "job_at qroot (snd (requeue qroot s fs)) Running i = Some (JobDoc t)" for t i
    using that only [of i] by (auto simp: keyed_def job_at_requeue split: if_splits)
  ultimately show "duplicate_between qroot k fs (snd (requeue qroot s fs)) = None"
    by (auto simp: duplicate_between_def find_None_all in_list_state)
  show "keyed k (job_at qroot (snd (requeue qroot s fs))) (js_id s)"
    using assms(3) by (auto simp: keyed_def job_at_requeue)
qed

definition running_example :: jobs where
  "running_example = snd (claim [''q''] ''wgan-1'' (snd (submit [''q''] keyed_spec [])))"

lemma running_example_at:
  "job_at [''q''] running_example st i =
     (if st = Running \<and> i = ''wgan-1'' then Some (JobDoc keyed_spec) else None)"
proof -
  have submitted: "job_at [''q''] (snd (submit [''q''] keyed_spec [])) st i =
     (if st = Pending \<and> i = ''wgan-1'' then Some (JobDoc keyed_spec) else None)" for st i
  proof -
    have "snd (submit [''q''] keyed_spec []) =
        write_spec (path_for [''q''] Pending ''wgan-1'') keyed_spec []"
      by code_simp
    then show ?thesis by (simp add: job_at_write) (simp add: job_at_def read_file_def)
  qed
  show ?thesis
    by (cases "i = ''wgan-1''"; cases st)
      (simp_all add: running_example_def job_at_claim submitted)
qed

lemma requeue_hides_duplicate_witness:
  "duplicate_between [''q''] ''nightly'' running_example
      (snd (requeue [''q''] keyed_spec running_example)) = None
   \<and> keyed ''nightly'' (job_at [''q''] (snd (requeue [''q''] keyed_spec running_example))) ''wgan-1''"
proof -
  have id: "js_id keyed_spec = ''wgan-1''" "js_dedupe_key keyed_spec = Some ''nightly''"
    by (simp_all add: keyed_spec_def)
  have "one_place (job_at [''q''] running_example)"
    by (simp add: one_place_def running_example_at)
  moreover have "job_at [''q''] running_example Running (js_id keyed_spec) = Some (JobDoc keyed_spec)"
    by (simp add: running_example_at id)
  moreover have "keyed ''nightly'' (job_at [''q''] running_example) i \<Longrightarrow> i = js_id keyed_spec" for i
    by (auto simp: keyed_def running_example_at id split: if_splits)
  ultimately show ?thesis
    using requeue_hides_duplicate [of "[''q'']" running_example keyed_spec "''nightly''"]
    unfolding id by blast
qed

section \<open>cancel, between its three file operations\<close>

text \<open>A claim between \<open>cancel\<close>'s read and its rewrite leaves the job in two places.  The
  rewrite puts the file back in \<open>pending/\<close>, so the final rename succeeds: \<open>cancel\<close> reports
  the job cancelled and files it under \<open>failed/\<close> while it is running.\<close>

lemma cancel_races_claim:
  assumes "cancel_read qroot i fs = Inr s"
  shows "fst (claim qroot i fs) = Claimed s
       \<and> (case cancel_move qroot i (cancel_write qroot i s (snd (claim qroot i fs))) of
            (cancelled, fs') \<Rightarrow> cancelled
              \<and> job_at qroot fs' Running i = Some (JobDoc s)
              \<and> job_at qroot fs' Failed i = Some (JobDoc (s\<lparr>js_error := Some ''cancelled''\<rparr>)))"
proof -
  have pend: "job_at qroot fs Pending i = Some (JobDoc s)"
    using assms by (simp add: cancel_read_def read_spec_job_at)
  let ?s' = "s\<lparr>js_error := Some ''cancelled''\<rparr>"
  let ?g = "cancel_write qroot i s (snd (claim qroot i fs))"
  have g: "job_at qroot ?g Pending i = Some (JobDoc ?s')" "job_at qroot ?g Running i = Some (JobDoc s)"
    by (simp_all add: cancel_write_def job_at_write job_at_claim pend)
  obtain fs' where mv: "rename_file (path_for qroot Pending i) (path_for qroot Failed i) ?g = Some fs'"
    using g(1) by (rule rename_at_Some)
  show ?thesis
    using g by (simp add: claim_Claimed pend cancel_move_def mv job_at_rename [OF mv])
qed

lemma cancel_races_claim_witness:
  "case cancel_move [''q''] ''wgan-1''
      (cancel_write [''q''] ''wgan-1'' example_spec (snd (claim [''q''] ''wgan-1'' posted_example))) of
     (cancelled, fs') \<Rightarrow> cancelled \<and> job_at [''q''] fs' Running ''wgan-1'' = Some (JobDoc example_spec)"
proof -
  have "cancel_read [''q''] ''wgan-1'' posted_example = Inr example_spec"
    by (simp add: cancel_read_def read_spec_job_at posted_example_at)
  from cancel_races_claim [OF this] show ?thesis by (auto split: prod.splits)
qed

end
