(* ===== verification/Bugreport.thy ===== *)
theory Bugreport
  imports Config
begin

text \<open>
  \<open>src/gpuqueue/bugreport.py\<close>: whose fault an exception is, its signature, and the text of an
  issue with the lines a recurrence rewrites.  SHA-256 and the JSON printer are arguments; the
  time stamps of an issue are read and written as \<open>strptime\<close> and \<open>strftime\<close> do.
\<close>

section \<open>Time stamps\<close>

record datetime =
  dt_year :: nat
  dt_month :: nat
  dt_day :: nat
  dt_hour :: nat
  dt_minute :: nat
  dt_second :: nat

definition leap_year :: "nat \<Rightarrow> bool" where
  "leap_year y = (y mod 4 = 0 \<and> (y mod 100 \<noteq> 0 \<or> y mod 400 = 0))"

definition days_in_month :: "nat \<Rightarrow> nat \<Rightarrow> nat" where
  "days_in_month y m = (if m = 2 then (if leap_year y then 29 else 28)
     else if m \<in> {4, 6, 9, 11} then 30 else 31)"

definition days_before_year :: "nat \<Rightarrow> nat" where
  "days_before_year y = 365 * (y - 1) + (y - 1) div 4 - (y - 1) div 100 + (y - 1) div 400"

definition days_before_month :: "nat \<Rightarrow> nat \<Rightarrow> nat" where
  "days_before_month y m = sum_list (map (days_in_month y) [1..<m])"

definition valid_datetime :: "datetime \<Rightarrow> bool" where
  "valid_datetime d = (1 \<le> dt_year d \<and> dt_year d \<le> 9999 \<and> 1 \<le> dt_month d \<and> dt_month d \<le> 12
     \<and> 1 \<le> dt_day d \<and> dt_day d \<le> days_in_month (dt_year d) (dt_month d)
     \<and> dt_hour d \<le> 23 \<and> dt_minute d \<le> 59 \<and> dt_second d \<le> 59)"

text \<open>Seconds since the first day of year 1, all in UTC.\<close>

definition time_of :: "datetime \<Rightarrow> time" where
  "time_of d = of_nat (86400 * (days_before_year (dt_year d) + days_before_month (dt_year d) (dt_month d)
       + dt_day d - 1) + 3600 * dt_hour d + 60 * dt_minute d + dt_second d)"

definition two_digits :: "nat \<Rightarrow> string" where
  "two_digits n = (if n < 10 then CHR ''0'' # show_nat n else show_nat n)"

text \<open>\<open>now.strftime("%Y-%m-%dT%H:%M:%SZ")\<close>.\<close>

definition stamp_text :: "datetime \<Rightarrow> string" where
  "stamp_text d = show_nat (dt_year d) @ ''-'' @ two_digits (dt_month d) @ ''-'' @ two_digits (dt_day d)
     @ ''T'' @ two_digits (dt_hour d) @ '':'' @ two_digits (dt_minute d) @ '':'' @ two_digits (dt_second d) @ ''Z''"

text \<open>A field of \<open>strptime\<close>: one or two digits (four of a year) with a value in its range; a day
  may have a space before its one digit.  The letters of the format match in either case.\<close>

definition read_field :: "nat \<Rightarrow> nat \<Rightarrow> string \<Rightarrow> nat option" where
  "read_field lo hi s = (if all_digits s \<and> length s \<le> 2
     then (case read_nat s of None \<Rightarrow> None
       | Some v \<Rightarrow> if int lo \<le> v \<and> v \<le> int hi then Some (nat v) else None)
     else None)"

definition read_day :: "string \<Rightarrow> nat option" where
  "read_day s = (case s of
      c # cs \<Rightarrow> if c = CHR '' '' then (if length cs = 1 then read_field 1 9 cs else None) else read_field 1 31 s
    | [] \<Rightarrow> None)"

definition read_year :: "string \<Rightarrow> nat option" where
  "read_year s = (if all_digits s \<and> length s = 4 then map_option nat (read_nat s) else None)"

definition read_clock :: "string \<Rightarrow> (nat \<times> nat \<times> nat) option" where
  "read_clock s = (if s = [] \<or> last s \<notin> {CHR ''Z'', CHR ''z''} then None
     else (case split_on CHR '':'' (butlast s) of
         [h, m, c] \<Rightarrow> Option.bind (read_field 0 23 h) (\<lambda>hv. Option.bind (read_field 0 59 m) (\<lambda>mv.
            Option.bind (read_field 0 61 c) (\<lambda>cv. Some (hv, mv, cv))))
       | _ \<Rightarrow> None))"

definition read_stamp :: "string \<Rightarrow> datetime option" where
  "read_stamp s = (case split_on CHR ''-'' s of
      [y, m, r] \<Rightarrow> (case split_on CHR ''T'' (map (\<lambda>c. if c = CHR ''t'' then CHR ''T'' else c) r) of
          [d, c] \<Rightarrow> Option.bind (read_year y) (\<lambda>yv. Option.bind (read_field 1 12 m) (\<lambda>mv.
            Option.bind (read_day d) (\<lambda>dv. Option.bind (read_clock c) (\<lambda>(h, mi, se).
              (let t = \<lparr>dt_year = yv, dt_month = mv, dt_day = dv, dt_hour = h, dt_minute = mi, dt_second = se\<rparr>
               in if valid_datetime t then Some t else None)))))
        | _ \<Rightarrow> None)
    | _ \<Rightarrow> None)"

section \<open>Whose fault\<close>

definition PHASES :: "string list" where
  "PHASES = [''preflight'', ''checkout'', ''execute'', ''collect'', ''artifacts'', ''reap'', ''admit'']"

definition CALLER_EXEC_ERRNOS :: "errno set" where
  "CALLER_EXEC_ERRNOS = {ENOENT, EACCES, EPERM, ENOEXEC, EISDIR}"

datatype fault = CallerError | StartFailedWith "errno option" | AnyOther

record stack_frame =
  sf_file :: string
  sf_name :: string

record exn =
  ex_fault :: fault
  ex_type :: string
  ex_message :: string
  ex_frames :: "stack_frame list"
  ex_trace :: string

definition is_gpuq_fault :: "exn \<Rightarrow> bool" where
  "is_gpuq_fault x = (case ex_fault x of CallerError \<Rightarrow> False
     | StartFailedWith e \<Rightarrow> (case e of None \<Rightarrow> True | Some n \<Rightarrow> n \<notin> CALLER_EXEC_ERRNOS)
     | AnyOther \<Rightarrow> True)"

text \<open>\<open>Path(filename).parent.name\<close>.\<close>

definition parent_name :: "string \<Rightarrow> string" where
  "parent_name f = (case rev (path_parts f) of _ # p # _ \<Rightarrow> if p = ''/'' then [] else p | _ \<Rightarrow> [])"

definition is_gpuqueue_frame :: "string \<Rightarrow> bool" where
  "is_gpuqueue_frame f = (parent_name f = ''gpuqueue'')"

definition own_frames :: "exn \<Rightarrow> string list" where
  "own_frames x = map sf_name (filter (\<lambda>f. is_gpuqueue_frame (sf_file f)) (ex_frames x))"

definition payload :: "exn \<Rightarrow> string \<Rightarrow> string" where
  "payload x phase = join ''|'' (phase # ex_type x # own_frames x)"

text \<open>\<open>sha\<close> is the hexadecimal SHA-256 digest; \<open>None\<close> is the ValueError of an unknown phase.\<close>

definition signature :: "(string \<Rightarrow> string) \<Rightarrow> exn \<Rightarrow> string \<Rightarrow> string option" where
  "signature sha x phase = (if phase \<notin> set PHASES then None else Some (take 12 (sha (payload x phase))))"

section \<open>A report and its issue\<close>

record bug_report =
  br_sig :: string
  br_phase :: string
  br_exc_type :: string
  br_message :: string
  br_trace :: string
  br_counts :: "(string \<times> nat) list"
  br_job :: "pydict option"
  br_commit :: string
  br_occurred :: string

definition build_report :: "(string \<Rightarrow> string) \<Rightarrow> exn \<Rightarrow> string \<Rightarrow> pydict option \<Rightarrow> (string \<times> nat) list
    \<Rightarrow> string \<Rightarrow> string \<Rightarrow> bug_report option" where
  "build_report sha x phase job counts commit occurred = map_option (\<lambda>sig.
     \<lparr>br_sig = sig, br_phase = phase, br_exc_type = ex_type x, br_message = ex_message x,
      br_trace = ex_trace x, br_counts = counts, br_job = job, br_commit = commit,
      br_occurred = occurred\<rparr>) (signature sha x phase)"

definition TITLE_MAX :: nat where
  "TITLE_MAX = 200"

definition line_break :: "char \<Rightarrow> bool" where
  "line_break c = ((10 \<le> code_pt c \<and> code_pt c \<le> 13) \<or> (28 \<le> code_pt c \<and> code_pt c \<le> 30) \<or> code_pt c = 133)"

text \<open>\<open>message.strip().splitlines()[0] if message else ""\<close>; \<open>None\<close> is the IndexError of a message
  of white space only.\<close>

definition first_line :: "string \<Rightarrow> string option" where
  "first_line s = (if s = [] then Some []
     else if strip s = [] then None else Some (takeWhile (\<lambda>c. \<not> line_break c) (strip s)))"

definition issue_title :: "bug_report \<Rightarrow> string option" where
  "issue_title r = map_option (\<lambda>l.
     (let suffix = '' ['' @ br_sig r @ '']'';
          head = ''[gpuq] '' @ br_phase r @ '': '' @ br_exc_type r @ '': '' @ l
      in take (TITLE_MAX - length suffix) head @ suffix)) (first_line (br_message r))"

abbreviation newline :: string where
  "newline \<equiv> [CHR 0x0A]"

definition OCCURRENCES :: string where
  "OCCURRENCES = ''occurrences: ''"

definition LAST_SEEN :: string where
  "LAST_SEEN = ''last seen: ''"

definition PREAMBLE :: string where
  "PREAMBLE = ''gpuq's own code raised this. Filed automatically by the runner on the '' @
     ''box; **no agent wrote any part of this issue** and no one has judged '' @
     ''the blame '' @ [CHR 0xE2, CHR 0x80, CHR 0x94] @ '' the classifier only knows the exception came out of '' @
     ''`gpuqueue`'s own stack.'' @ newline"

definition rstrip :: "string \<Rightarrow> string" where
  "rstrip s = rev (dropWhile is_space (rev s))"

definition counts_text :: "(string \<times> nat) list \<Rightarrow> string" where
  "counts_text cs = (if cs = [] then ''not recorded''
     else join '', '' (map (\<lambda>(st, n). st @ '' '' @ show_nat n) (sort_key fst cs)))"

text \<open>\<open>dumps\<close> is \<open>json.dumps(_, indent=2)\<close>.\<close>

definition job_text :: "(pydict \<Rightarrow> string) \<Rightarrow> pydict option \<Rightarrow> string" where
  "job_text dumps job = (case job of
      Some (kv # d) \<Rightarrow> dumps (kv # d)
    | _ \<Rightarrow> ''no job '' @ [CHR 0xE2, CHR 0x80, CHR 0x94] @ '' this failure was not attributable to one queued job'')"

definition issue_body :: "(pydict \<Rightarrow> string) \<Rightarrow> bug_report \<Rightarrow> string" where
  "issue_body dumps r = join newline
     [PREAMBLE, ''sig: '' @ br_sig r, ''phase: '' @ br_phase r, ''gpuq commit: '' @ br_commit r,
      ''occurrences: 1'', ''first seen: '' @ br_occurred r, ''last seen: '' @ br_occurred r, [],
      ''## Traceback'', [], ''```'', rstrip (br_trace r), ''```'', [], ''## JobSpec'', [], ''```json'',
      job_text dumps (br_job r), ''```'', [], ''## Queue state at the time'', [], counts_text (br_counts r), []]"

section \<open>Recording a recurrence\<close>

text \<open>With MULTILINE, the two patterns match whole lines; the first match counts.\<close>

definition occurrence_line :: "string \<Rightarrow> bool" where
  "occurrence_line l = (starts_with l OCCURRENCES \<and> all_digits (drop (length OCCURRENCES) l))"

definition last_seen_line :: "string \<Rightarrow> bool" where
  "last_seen_line l = starts_with l LAST_SEEN"

fun replace_first :: "(string \<Rightarrow> bool) \<Rightarrow> string \<Rightarrow> string list \<Rightarrow> string list" where
  "replace_first P new [] = []"
| "replace_first P new (l # ls) = (if P l then new # ls else l # replace_first P new ls)"

definition body_lines :: "string \<Rightarrow> string list" where
  "body_lines body = split_on (CHR 0x0A) body"

definition bump_body :: "string \<Rightarrow> string \<Rightarrow> string" where
  "bump_body body occurred = (case find occurrence_line (body_lines body) of
      None \<Rightarrow> body
    | Some l \<Rightarrow> (case read_nat (drop (length OCCURRENCES) l) of None \<Rightarrow> body
       | Some n \<Rightarrow> join newline (replace_first last_seen_line (LAST_SEEN @ occurred)
           (replace_first occurrence_line (OCCURRENCES @ show_int (n + 1)) (body_lines body)))))"

definition last_seen :: "string \<Rightarrow> datetime option" where
  "last_seen body = (case find last_seen_line (body_lines body) of None \<Rightarrow> None
     | Some l \<Rightarrow> read_stamp (strip (drop (length LAST_SEEN) l)))"

end
