(* ===== verification/Texts.thy ===== *)
theory Texts
  imports Prelude
begin

text \<open>
  Facts on the strings the program prints and reads back: decimal numerals, text cut into
  pieces at a separator and joined again, and the first element of a list with a property.
\<close>

section \<open>Decimal numerals\<close>

lemma code_pt_of_digit: "d < 10 \<Longrightarrow> code_pt (char_of (48 + d)) = 48 + d"
  by (simp add: code_pt_def)

lemma digit_char: "d < 10 \<Longrightarrow> is_digit (char_of (48 + d :: nat))"
  unfolding is_digit_def by (simp add: code_pt_of_digit)

lemma show_nat_not_Nil [simp]: "show_nat n \<noteq> []"
  by (subst show_nat.simps) simp

lemma show_nat_digits: "list_all is_digit (show_nat n)"
proof (induction n rule: show_nat.induct)
  case (1 n)
  then show ?case
    by (subst show_nat.simps) (auto simp: digit_char)
qed

lemma all_digits_show_nat [simp]: "all_digits (show_nat n)"
  by (simp add: all_digits_def show_nat_digits)

lemma read_digits_append:
  assumes "list_all is_digit s"
  shows "read_digits acc (s @ t) = (case read_digits acc s of None \<Rightarrow> None | Some v \<Rightarrow> read_digits v t)"
  using assms by (induction s arbitrary: acc) auto

lemma read_digits_show: "read_digits 0 (show_nat n) = Some (int n)"
proof (induction n rule: show_nat.induct)
  case (1 n)
  show ?case
  proof (cases "n < 10")
    case True
    then have "is_digit (char_of (48 + n))" "code_pt (char_of (48 + n)) = 48 + n"
      by (simp_all only: digit_char code_pt_of_digit)
    moreover have "show_nat n = [char_of (48 + n)]"
      using True by (subst show_nat.simps) simp
    ultimately show ?thesis by simp
  next
    case False
    then have eq: "show_nat n = show_nat (n div 10) @ [char_of (48 + n mod 10)]"
      by (subst show_nat.simps) simp
    have "is_digit (char_of (48 + n mod 10))" "code_pt (char_of (48 + n mod 10)) = 48 + n mod 10"
      by (simp_all only: digit_char code_pt_of_digit pos_mod_bound mod_less_divisor zero_less_numeral)
    with 1 False show ?thesis
      unfolding eq by (simp add: read_digits_append show_nat_digits) presburger
  qed
qed

lemma hd_digit: "list_all is_digit s \<Longrightarrow> s = c # cs \<Longrightarrow> is_digit c"
  by simp

lemma read_nat_show [simp]: "read_nat (show_nat n) = Some (int n)"
  using read_digits_show [of n] show_nat_digits [of n] by (cases "show_nat n") (auto simp: read_nat_def)

lemma show_int_of_nat: "show_int (int n) = show_nat n"
  by (simp add: show_int_def)

lemma digits_exclude: "list_all is_digit s \<Longrightarrow> \<not> is_digit c \<Longrightarrow> c \<notin> set s"
  by (auto simp: list_all_iff)

lemma length_show_nat_small: "n < 10 \<Longrightarrow> length (show_nat n) = 1"
  by (subst show_nat.simps) simp

lemma length_show_nat_step: "10 \<le> n \<Longrightarrow> length (show_nat n) = Suc (length (show_nat (n div 10)))"
  by (subst show_nat.simps) simp

lemma length_show_nat_2: "10 \<le> n \<Longrightarrow> n < 100 \<Longrightarrow> length (show_nat n) = 2"
  by (simp add: length_show_nat_step length_show_nat_small)

lemma length_show_nat_3: "100 \<le> n \<Longrightarrow> n < 1000 \<Longrightarrow> length (show_nat n) = 3"
  using length_show_nat_step [of n] length_show_nat_2 [of "n div 10"] by simp

lemma length_show_nat_4: "1000 \<le> n \<Longrightarrow> n < 10000 \<Longrightarrow> length (show_nat n) = 4"
  using length_show_nat_step [of n] length_show_nat_3 [of "n div 10"] by simp

section \<open>Splitting and joining\<close>

lemma split_on_id: "c \<notin> set s \<Longrightarrow> split_on c s = [s]"
  by (induction s) auto

lemma split_on_step: "c \<notin> set p \<Longrightarrow> split_on c (p @ c # r) = p # split_on c r"
  by (simp add: split_on_append split_on_id)

lemma split_on_join_concat:
  "ps \<noteq> [] \<Longrightarrow> split_on c (join [c] ps) = concat (map (split_on c) ps)"
  by (induction "[c]" ps rule: join.induct) (auto simp: split_on_append)

lemma split_on_join:
  assumes "list_all (\<lambda>p. c \<notin> set p) ps" and "ps \<noteq> []"
  shows "split_on c (join [c] ps) = ps"
proof -
  have "concat (map (split_on c) ps) = ps"
    using assms(1) by (induction ps) (simp_all add: split_on_id)
  then show ?thesis using assms(2) by (simp add: split_on_join_concat)
qed

lemma join_Cons: "ps \<noteq> [] \<Longrightarrow> join sep (p # ps) = p @ sep @ join sep ps"
  by (cases ps) auto

lemma join_split_on [simp]: "join [c] (split_on c s) = s"
proof (induction s)
  case (Cons x s)
  then show ?case
    by (cases "split_on c s") (auto simp: join_Cons, metis append_Cons append_Nil join.simps(2,3) list.exhaust)
qed simp

lemma split_on_pieces: "p \<in> set (split_on c s) \<Longrightarrow> c \<notin> set p"
  by (induction s arbitrary: p) (auto split: if_splits list.splits)

lemma join_inject:
  assumes "list_all (\<lambda>p. c \<notin> set p) ps" "list_all (\<lambda>p. c \<notin> set p) qs" "ps \<noteq> []" "qs \<noteq> []"
  shows "join [c] ps = join [c] qs \<longleftrightarrow> ps = qs"
  using assms by (metis split_on_join)

section \<open>The first of a list\<close>

lemma find_append: "find P (xs @ ys) = (case find P xs of None \<Rightarrow> find P ys | Some x \<Rightarrow> Some x)"
  by (induction xs) auto

lemma find_skip: "list_all (\<lambda>x. \<not> P x) xs \<Longrightarrow> find P (xs @ ys) = find P ys"
  by (induction xs) auto

section \<open>A text inside a text\<close>

lemma starts_with_append [simp]: "starts_with (p @ r) p"
  by (simp add: starts_with_def)

lemma contains_self_append: "contains p (p @ r)"
proof (cases "p @ r")
  case (Cons a l)
  then show ?thesis by (metis contains.simps(2) starts_with_append)
qed simp

lemma contains_prepend: "contains p s \<Longrightarrow> contains p (t @ s)"
  by (induction t) auto

lemma contains_middle: "contains p (t @ p @ r)"
  by (simp add: contains_prepend contains_self_append)

end
