(* ===== verification/Issues.thy ===== *)
theory Issues
  imports Bugreport Texts
begin

text \<open>
  What the text of an issue promises (\<open>src/gpuqueue/bugreport.py\<close>): the time stamps read back,
  the recurrences are counted in the lines the issue was filed with whatever the traceback
  below them says, the title keeps its signature, and the fingerprint tells failures apart.
\<close>

section \<open>Time stamps\<close>

definition newline_free :: "string \<Rightarrow> bool" where
  "newline_free s = (CHR 0x0A \<notin> set s)"

lemma two_digits_digits: "list_all is_digit (two_digits n)"
  by (simp add: two_digits_def show_nat_digits is_digit_def code_pt_def)

lemma two_digits_all [simp]: "all_digits (two_digits n)"
  using two_digits_digits [of n] by (auto simp: all_digits_def two_digits_def)

lemma length_two_digits: "n < 100 \<Longrightarrow> length (two_digits n) = 2"
  by (simp add: two_digits_def length_show_nat_small length_show_nat_2)

lemma read_nat_two_digits [simp]: "read_nat (two_digits n) = Some (int n)"
proof -
  have "is_digit (CHR ''0'')" "code_pt (CHR ''0'') = 48"
    by (simp_all add: is_digit_def code_pt_def)
  then have "read_nat (CHR ''0'' # show_nat n) = Some (int n)"
    by (simp add: read_nat_def read_digits_show)
  then show ?thesis by (simp add: two_digits_def)
qed

lemma read_field_two_digits: "lo \<le> n \<Longrightarrow> n \<le> hi \<Longrightarrow> n < 100 \<Longrightarrow> read_field lo hi (two_digits n) = Some n"
  by (simp add: read_field_def length_two_digits)

lemma two_digits_excludes: "\<not> is_digit c \<Longrightarrow> c \<notin> set (two_digits n)"
  using digits_exclude [OF two_digits_digits] by blast

lemma separators_not_digits [simp]:
  "\<not> is_digit CHR ''-''" "\<not> is_digit CHR '':''" "\<not> is_digit CHR ''T''" "\<not> is_digit CHR ''t''"
  "\<not> is_digit CHR '' ''" "\<not> is_digit CHR ''Z''" "\<not> is_digit CHR 0x0A"
  by (simp_all add: is_digit_def code_pt_def)

lemma days_in_month_le: "days_in_month y m \<le> 31"
  by (simp add: days_in_month_def)

definition clock_text :: "datetime \<Rightarrow> string" where
  "clock_text d = two_digits (dt_hour d) @ '':'' @ two_digits (dt_minute d) @ '':'' @ two_digits (dt_second d)"

lemma read_clock_text:
  assumes "valid_datetime d"
  shows "read_clock (clock_text d @ ''Z'') = Some (dt_hour d, dt_minute d, dt_second d)"
proof -
  have "split_on CHR '':'' (clock_text d)
      = [two_digits (dt_hour d), two_digits (dt_minute d), two_digits (dt_second d)]"
    by (simp add: clock_text_def split_on_step split_on_id two_digits_excludes)
  moreover have "dt_hour d \<le> 23" "dt_minute d \<le> 59" "dt_second d \<le> 61"
    using assms by (simp_all add: valid_datetime_def)
  ultimately show ?thesis
    by (simp add: read_clock_def butlast_append read_field_two_digits)
qed

lemma read_day_two_digits: "1 \<le> n \<Longrightarrow> n \<le> 31 \<Longrightarrow> read_day (two_digits n) = Some n"
proof -
  assume n: "1 \<le> n" "n \<le> 31"
  obtain c cs where eq: "two_digits n = c # cs" and "is_digit c"
    using two_digits_digits [of n] two_digits_all [of n]
    by (cases "two_digits n") (auto simp: all_digits_def)
  then have "c \<noteq> CHR '' ''" by auto
  then have "read_day (two_digits n) = read_field 1 31 (two_digits n)"
    by (simp add: read_day_def eq)
  with n show ?thesis by (simp add: read_field_two_digits)
qed

lemma read_year_show: "1000 \<le> y \<Longrightarrow> y \<le> 9999 \<Longrightarrow> read_year (show_nat y) = Some y"
  by (simp add: read_year_def length_show_nat_4)

lemma stamp_split:
  "split_on CHR ''-'' (stamp_text d) = [show_nat (dt_year d), two_digits (dt_month d),
     two_digits (dt_day d) @ CHR ''T'' # clock_text d @ ''Z'']"
proof -
  have "CHR ''-'' \<notin> set (show_nat (dt_year d))"
    by (simp add: digits_exclude [OF show_nat_digits])
  moreover have "CHR ''-'' \<notin> set (two_digits (dt_day d) @ CHR ''T'' # clock_text d @ ''Z'')"
    by (simp add: clock_text_def two_digits_excludes)
  ultimately show ?thesis
    by (simp add: stamp_text_def split_on_step split_on_id two_digits_excludes clock_text_def)
qed

lemma upper_T:
  "map (\<lambda>c. if c = CHR ''t'' then CHR ''T'' else c) (two_digits x @ CHR ''T'' # clock_text d @ ''Z'')
     = two_digits x @ CHR ''T'' # clock_text d @ ''Z''"
proof -
  have "CHR ''t'' \<notin> set (two_digits x @ CHR ''T'' # clock_text d @ ''Z'')"
    by (simp add: clock_text_def two_digits_excludes)
  then show ?thesis by (intro map_idI) auto
qed

lemma date_clock_split:
  "split_on CHR ''T'' (two_digits x @ CHR ''T'' # clock_text d @ ''Z'') = [two_digits x, clock_text d @ ''Z'']"
proof -
  have "CHR ''T'' \<notin> set (clock_text d @ ''Z'')"
    by (simp add: clock_text_def two_digits_excludes)
  then show ?thesis by (simp add: split_on_step split_on_id two_digits_excludes del: set_append)
qed

lemma stamp_reads_back:
  assumes "valid_datetime d" "1000 \<le> dt_year d"
  shows "read_stamp (stamp_text d) = Some d"
proof -
  have v: "dt_year d \<le> 9999" "1 \<le> dt_month d" "dt_month d \<le> 12" "1 \<le> dt_day d" "dt_day d \<le> 31"
    using assms(1) days_in_month_le [of "dt_year d" "dt_month d"] by (auto simp: valid_datetime_def)
  have m: "read_field (Suc 0) 12 (two_digits (dt_month d)) = Some (dt_month d)"
    using v by (intro read_field_two_digits) simp_all
  have same: "\<lparr>dt_year = dt_year d, dt_month = dt_month d, dt_day = dt_day d, dt_hour = dt_hour d,
      dt_minute = dt_minute d, dt_second = dt_second d\<rparr> = d"
    by (cases d) simp
  show ?thesis
    unfolding read_stamp_def stamp_split
    using assms v m
    by (simp add: same Let_def upper_T date_clock_split read_clock_text read_day_two_digits read_year_show
        del: map_append list.map)
qed

section \<open>Counting recurrences\<close>

text \<open>What the two patterns find in a body.\<close>

definition occurrences :: "string \<Rightarrow> int option" where
  "occurrences body = Option.bind (find occurrence_line (body_lines body))
     (\<lambda>l. read_nat (drop (length OCCURRENCES) l))"

lemma replace_first_skip:
  "list_all (\<lambda>l. \<not> P l) pre \<Longrightarrow> replace_first P new (pre @ l # post)
     = (if P l then pre @ new # post else pre @ l # replace_first P new post)"
  by (induction pre) auto

definition plain_line :: "string \<Rightarrow> bool" where
  "plain_line l = (\<not> occurrence_line l \<and> \<not> last_seen_line l)"

lemma plain_lines:
  "list_all plain_line ls \<Longrightarrow> list_all (\<lambda>l. \<not> occurrence_line l) ls"
  "list_all plain_line ls \<Longrightarrow> list_all (\<lambda>l. \<not> last_seen_line l) ls"
  by (auto simp: plain_line_def elim: list.pred_mono_strong)

text \<open>A body that carries the lines an issue is filed with: above its count only lines of the
  filer, below \<open>last seen\<close> anything.\<close>

definition carries :: "string list \<Rightarrow> string \<Rightarrow> nat \<Rightarrow> string \<Rightarrow> string list \<Rightarrow> string \<Rightarrow> bool" where
  "carries pre body n fst_seen post t \<longleftrightarrow>
     list_all plain_line pre \<and> plain_line fst_seen \<and> newline_free t
     \<and> body_lines body = pre @ (OCCURRENCES @ show_nat n) # fst_seen # (LAST_SEEN @ t) # post"

lemma occurrence_line_shown [simp]: "occurrence_line (OCCURRENCES @ show_nat n)"
  by (simp add: occurrence_line_def)

lemma last_seen_line_shown [simp]: "last_seen_line (LAST_SEEN @ t)"
  by (simp add: last_seen_line_def)

lemma line_kinds_apart:
  "\<not> last_seen_line (OCCURRENCES @ s)" "\<not> occurrence_line (LAST_SEEN @ s)"
  by (simp_all add: last_seen_line_def occurrence_line_def OCCURRENCES_def LAST_SEEN_def starts_with_def)

lemma carries_occurrences: "carries pre body n f post t \<Longrightarrow> occurrences body = Some (int n)"
  by (auto simp: carries_def occurrences_def find_skip plain_lines)

lemma carries_last_seen: "carries pre body n f post t \<Longrightarrow> last_seen body = read_stamp (strip t)"
  by (auto simp: carries_def last_seen_def find_skip plain_lines plain_line_def line_kinds_apart)

lemma body_lines_join:
  "list_all newline_free ls \<Longrightarrow> ls \<noteq> [] \<Longrightarrow> body_lines (join newline ls) = ls"
  unfolding body_lines_def by (rule split_on_join) (auto simp: newline_free_def list_all_iff)

lemma body_lines_free: "list_all newline_free (body_lines body)"
  by (auto simp: body_lines_def list_all_iff newline_free_def dest: split_on_pieces)

lemma newline_free_shown: "newline_free (OCCURRENCES @ show_nat n)" "newline_free t \<Longrightarrow> newline_free (LAST_SEEN @ t)"
  using digits_exclude [OF show_nat_digits, of "CHR 0x0A" n]
  by (auto simp: newline_free_def OCCURRENCES_def LAST_SEEN_def)

lemma carries_bump:
  assumes c: "carries pre body n f post t" and t': "newline_free t'"
  shows "carries pre (bump_body body t') (Suc n) f post t'"
proof -
  let ?new = "pre @ (OCCURRENCES @ show_nat (Suc n)) # f # (LAST_SEEN @ t') # post"
  have ls: "body_lines body = pre @ (OCCURRENCES @ show_nat n) # f # (LAST_SEEN @ t) # post"
    and pre: "list_all plain_line pre" and f: "plain_line f"
    using c by (simp_all add: carries_def)
  have inc: "show_int (int n + 1) = show_nat (Suc n)"
    using show_int_of_nat [of "Suc n"] by (simp add: add.commute)
  have found: "find occurrence_line (body_lines body) = Some (OCCURRENCES @ show_nat n)"
    by (simp add: ls find_skip plain_lines [OF pre])
  have occ: "replace_first occurrence_line (OCCURRENCES @ show_nat (Suc n)) (body_lines body)
      = pre @ (OCCURRENCES @ show_nat (Suc n)) # f # (LAST_SEEN @ t) # post"
    by (simp add: ls replace_first_skip plain_lines [OF pre])
  have seen: "replace_first last_seen_line (LAST_SEEN @ t')
      (pre @ (OCCURRENCES @ show_nat (Suc n)) # f # (LAST_SEEN @ t) # post) = ?new"
    using f by (simp add: replace_first_skip plain_lines [OF pre] line_kinds_apart plain_line_def)
  have "bump_body body t' = join newline ?new"
    by (simp add: bump_body_def found inc occ seen)
  moreover have "list_all newline_free ?new"
    using body_lines_free [of body] t' newline_free_shown by (auto simp: ls)
  then have "body_lines (join newline ?new) = ?new"
    by (rule body_lines_join) simp
  ultimately show ?thesis
    using c t' by (simp add: carries_def)
qed

lemma carries_bumps:
  assumes "carries pre body n f post t" and "list_all newline_free ts"
  shows "carries pre (foldl bump_body body ts) (n + length ts) f post (last (t # ts))"
  using assms
proof (induction ts arbitrary: body n t)
  case (Cons t' ts)
  from Cons.IH [OF carries_bump [OF Cons.prems(1), of t']] Cons.prems(2)
  show ?case by (auto split: if_splits)
qed simp

text \<open>A body that has a count, whatever else is in it, is bumped to the next one.\<close>

lemma find_replaced: "find P ls = Some l \<Longrightarrow> P new \<Longrightarrow> find P (replace_first P new ls) = Some new"
  by (induction ls) (auto split: if_splits)

lemma find_replaced_other:
  "(\<And>l. Q l \<Longrightarrow> \<not> P l) \<Longrightarrow> \<not> P new \<Longrightarrow> find P (replace_first Q new ls) = find P ls"
  by (induction ls) auto

lemma replace_first_all: "list_all R ls \<Longrightarrow> R new \<Longrightarrow> list_all R (replace_first P new ls)"
  by (induction ls) auto

lemma replace_first_Nil: "replace_first P new ls = [] \<longleftrightarrow> ls = []"
  by (cases ls) auto

lemma read_digits_nonneg: "read_digits acc s = Some n \<Longrightarrow> 0 \<le> acc \<Longrightarrow> 0 \<le> n"
  by (induction acc s rule: read_digits.induct) (auto split: if_splits list.splits)

lemma read_nat_nonneg: "read_nat s = Some n \<Longrightarrow> 0 \<le> n"
  by (auto simp: read_nat_def split: list.splits if_splits intro: read_digits_nonneg)

lemma bump_counts:
  assumes "occurrences body = Some n" and "newline_free t"
  shows "occurrences (bump_body body t) = Some (n + 1)"
proof -
  obtain l where l: "find occurrence_line (body_lines body) = Some l" "read_nat (drop (length OCCURRENCES) l) = Some n"
    using assms(1) by (auto simp: occurrences_def bind_eq_Some_conv)
  obtain k where k: "n = int k" using read_nat_nonneg [OF l(2)] nonneg_int_cases by blast
  have inc: "show_int (n + 1) = show_nat (Suc k)"
    using show_int_of_nat [of "Suc k"] by (simp add: k add.commute)
  let ?counted = "replace_first occurrence_line (OCCURRENCES @ show_nat (Suc k)) (body_lines body)"
  let ?new = "replace_first last_seen_line (LAST_SEEN @ t) ?counted"
  have "body_lines body \<noteq> []" using l(1) by auto
  moreover have "list_all newline_free ?new"
    by (intro replace_first_all body_lines_free newline_free_shown assms(2))
  ultimately have lines: "body_lines (join newline ?new) = ?new"
    by (intro body_lines_join) (simp_all add: replace_first_Nil)
  have "\<not> occurrence_line l'" if "last_seen_line l'" for l'
    using that by (auto simp: last_seen_line_def starts_with_iff line_kinds_apart)
  then have "find occurrence_line ?new = Some (OCCURRENCES @ show_nat (Suc k))"
    using find_replaced [OF l(1), of "OCCURRENCES @ show_nat (Suc k)"]
    by (subst find_replaced_other) (simp_all add: line_kinds_apart)
  then show ?thesis
    by (simp add: bump_body_def occurrences_def l inc lines) (simp add: k)
qed

text \<open>A fresh issue carries its lines: only its signature, phase and commit stand above the count.\<close>

definition fields_fit :: "bug_report \<Rightarrow> bool" where
  "fields_fit r = (newline_free (br_sig r) \<and> newline_free (br_phase r) \<and> newline_free (br_commit r)
     \<and> newline_free (br_occurred r))"

definition upper_lines :: "bug_report \<Rightarrow> string list" where
  "upper_lines r = body_lines PREAMBLE @ [''sig: '' @ br_sig r, ''phase: '' @ br_phase r,
     ''gpuq commit: '' @ br_commit r]"

lemma body_lines_concat: "ps \<noteq> [] \<Longrightarrow> body_lines (join newline ps) = concat (map body_lines ps)"
  using split_on_join_concat [of ps "CHR 0x0A"] by (simp add: body_lines_def [abs_def])

lemma body_lines_one: "newline_free l \<Longrightarrow> body_lines l = [l]"
  by (simp add: body_lines_def newline_free_def split_on_id)

lemma preamble_lines: "list_all plain_line (body_lines PREAMBLE)"
  by code_simp

lemma plain_labels:
  "plain_line (''sig: '' @ s)" "plain_line (''phase: '' @ s)" "plain_line (''gpuq commit: '' @ s)"
  "plain_line (''first seen: '' @ s)"
  by (simp_all add: plain_line_def last_seen_line_def occurrence_line_def OCCURRENCES_def LAST_SEEN_def
      starts_with_def)

lemma one_occurrence: "''occurrences: 1'' = OCCURRENCES @ show_nat 1"
  by code_simp

lemma upper_plain: "list_all plain_line (upper_lines r)"
  unfolding upper_lines_def list_all_append list.pred_inject
  by (intro conjI preamble_lines plain_labels list.pred_inject(1))

lemma fitting_lines:
  assumes "fields_fit r"
  shows "newline_free (''sig: '' @ br_sig r)" "newline_free (''phase: '' @ br_phase r)"
    "newline_free (''gpuq commit: '' @ br_commit r)" "newline_free (''first seen: '' @ br_occurred r)"
    "newline_free (LAST_SEEN @ br_occurred r)"
  using assms by (auto simp: fields_fit_def newline_free_def LAST_SEEN_def)

lemma body_lines_top:
  assumes "newline_free a" "newline_free b" "newline_free c" "newline_free d" "newline_free e" "newline_free f"
  shows "body_lines (join newline (p # a # b # c # d # e # f # ls))
    = (body_lines p @ [a, b, c]) @ d # e # f # concat (map body_lines ls)"
  using assms by (subst body_lines_concat) (simp_all add: body_lines_one)

lemma issue_body_carries:
  assumes "fields_fit r"
  shows "\<exists>post. carries (upper_lines r) (issue_body dumps r) 1 (''first seen: '' @ br_occurred r) post (br_occurred r)"
proof -
  have "newline_free (br_occurred r)"
    using assms by (simp add: fields_fit_def)
  then show ?thesis
    unfolding carries_def issue_body_def one_occurrence LAST_SEEN_def [symmetric]
      body_lines_top [OF fitting_lines(1-3) [OF assms] newline_free_shown(1) fitting_lines(4,5) [OF assms]]
      upper_lines_def [symmetric]
    using upper_plain plain_labels(4) by blast
qed

definition stampable :: "datetime \<Rightarrow> bool" where
  "stampable d = (valid_datetime d \<and> 1000 \<le> dt_year d)"

lemma stamp_newline_free: "newline_free (stamp_text d)"
  using digits_exclude [OF show_nat_digits, of "CHR 0x0A"]
  by (auto simp: newline_free_def stamp_text_def two_digits_excludes)

lemma stamp_strip: "strip (stamp_text d) = stamp_text d"
proof -
  obtain c cs where eq: "show_nat (dt_year d) = c # cs" and "is_digit c"
    using show_nat_digits [of "dt_year d"] show_nat_not_Nil [of "dt_year d"] by (cases "show_nat (dt_year d)") auto
  then have "\<not> is_space c" by (auto simp: is_digit_def is_space_def)
  moreover have "\<not> is_space CHR ''Z''" by (simp add: is_space_def code_pt_def)
  ultimately show ?thesis by (simp add: strip_def stamp_text_def eq)
qed

lemma phase_newline_free: "phase \<in> set PHASES \<Longrightarrow> newline_free phase"
  by (auto simp: PHASES_def newline_free_def)

lemma built_report:
  assumes "build_report sha x phase job counts commit occurred = Some r"
  shows "phase \<in> set PHASES" "br_sig r = take 12 (sha (payload x phase))" "br_phase r = phase"
    "br_commit r = commit" "br_occurred r = occurred" "br_exc_type r = ex_type x" "br_message r = ex_message x"
  using assms by (auto simp: build_report_def signature_def split: if_splits)

lemma carries_sig_line:
  assumes "carries (upper_lines r) body n f post t"
  shows "contains (''sig: '' @ br_sig r) body"
proof -
  obtain rest where "body_lines body = body_lines PREAMBLE @ (''sig: '' @ br_sig r) # rest"
    using assms unfolding carries_def upper_lines_def by auto
  moreover have "contains l (join newline (ls @ l # rest))" for l ls rest
  proof (induction ls)
    case Nil
    then show ?case by (cases rest) (simp_all add: contains_self_append contains_self_append [of l "[]", simplified])
  next
    case (Cons k ls)
    then show ?case by (simp add: join_Cons contains_prepend)
  qed
  ultimately have "contains (''sig: '' @ br_sig r) (join newline (body_lines body))" by simp
  then show ?thesis by (simp add: body_lines_def)
qed

text \<open>C38: recurrences are counted losslessly.  For any exception a report is built for, with a
  digest and a commit of one line each: after any sequence of recurrences at instants \<open>ts\<close>, the
  count in the issue's body is one more than their number, \<open>last_seen\<close> reads the last of them back,
  and the body still has the \<open>sig:\<close> text the lookup matches, whatever the traceback, the message
  or the job printed below those lines contain (a line \<open>occurrences: 9\<close> of their own included).\<close>

theorem recurrences_counted:
  assumes "build_report sha x phase job counts commit (stamp_text t0) = Some r"
    and "newline_free (sha (payload x phase))" "newline_free commit"
    and "list_all stampable (t0 # ts)"
  shows "occurrences (foldl bump_body (issue_body dumps r) (map stamp_text ts)) = Some (1 + int (length ts))
    \<and> last_seen (foldl bump_body (issue_body dumps r) (map stamp_text ts)) = Some (last (t0 # ts))
    \<and> contains (''sig: '' @ br_sig r) (foldl bump_body (issue_body dumps r) (map stamp_text ts))"
proof -
  note r = built_report [OF assms(1)]
  have "newline_free (br_sig r)"
    using assms(2) r(2) by (auto simp: newline_free_def dest: in_set_takeD)
  then have "fields_fit r"
    using r assms(3) by (simp add: fields_fit_def phase_newline_free stamp_newline_free)
  then obtain post where "carries (upper_lines r) (issue_body dumps r) 1 (''first seen: '' @ br_occurred r)
      post (br_occurred r)"
    using issue_body_carries by blast
  moreover have "list_all newline_free (map stamp_text ts)"
    by (auto simp: list_all_iff stamp_newline_free)
  ultimately have c: "carries (upper_lines r) (foldl bump_body (issue_body dumps r) (map stamp_text ts))
      (1 + length ts) (''first seen: '' @ br_occurred r) post (last (br_occurred r # map stamp_text ts))"
    using carries_bumps by fastforce
  have lst: "last (br_occurred r # map stamp_text ts) = stamp_text (last (t0 # ts))"
    by (simp add: r last_map)
  have "stampable (last (t0 # ts))"
    using assms(4) last_in_set [of "t0 # ts"] unfolding list_all_iff by blast
  then have "read_stamp (strip (stamp_text (last (t0 # ts)))) = Some (last (t0 # ts))"
    unfolding stamp_strip stampable_def by (blast intro: stamp_reads_back)
  then show ?thesis
    using carries_occurrences [OF c] carries_last_seen [OF c] carries_sig_line [OF c] unfolding lst by simp
qed

definition example_exn :: exn where
  "example_exn = \<lparr>ex_fault = AnyOther, ex_type = ''KeyError'', ex_message = ''no such key'',
     ex_frames = [\<lparr>sf_file = ''/opt/gpuqueue/runner.py'', sf_name = ''tick''\<rparr>,
                  \<lparr>sf_file = ''/usr/lib/json.py'', sf_name = ''loads''\<rparr>],
     ex_trace = ''Traceback'' @ newline @ ''occurrences: 9''\<rparr>"

definition example_instant :: "nat \<Rightarrow> datetime" where
  "example_instant h = \<lparr>dt_year = 2026, dt_month = 8, dt_day = 5, dt_hour = h, dt_minute = 0, dt_second = 9\<rparr>"

definition example_report :: bug_report where
  "example_report = the (build_report (\<lambda>_. ''0123456789abcdef'') example_exn ''reap'' None [] ''abc123''
     (stamp_text (example_instant 1)))"

lemma example_report_built:
  "build_report (\<lambda>_. ''0123456789abcdef'') example_exn ''reap'' None [] ''abc123''
     (stamp_text (example_instant 1)) = Some example_report"
  by (simp add: example_report_def build_report_def signature_def PHASES_def)

lemma recurrences_counted_witness:
  "occurrences (foldl bump_body (issue_body (\<lambda>_. []) example_report) (map stamp_text [example_instant 2, example_instant 7]))
     = Some 3
   \<and> last_seen (foldl bump_body (issue_body (\<lambda>_. []) example_report) (map stamp_text [example_instant 2, example_instant 7]))
     = Some (example_instant 7)"
proof -
  have "newline_free ''0123456789abcdef''" "newline_free ''abc123''"
    "list_all stampable [example_instant 1, example_instant 2, example_instant 7]"
    by code_simp+
  then show ?thesis
    using recurrences_counted [OF example_report_built, of "[example_instant 2, example_instant 7]" "\<lambda>_. []"] by simp
qed

section \<open>The title\<close>

text \<open>C39: an issue's title is at most 200 characters and ends in the signature in brackets whatever
  the message is; the one message it cannot be made for is one of white space only, on which
  \<open>splitlines()[0]\<close> raises and the bug is not filed.\<close>

theorem issue_title_bounded:
  assumes "build_report sha x phase job counts commit occurred = Some r"
  shows "(issue_title r = None \<longleftrightarrow> ex_message x \<noteq> [] \<and> strip (ex_message x) = [])
    \<and> (issue_title r = Some t \<longrightarrow> length t \<le> TITLE_MAX \<and> ends_with t ('' ['' @ br_sig r @ '']''))"
proof -
  note r = built_report [OF assms]
  define suf where "suf = '' ['' @ br_sig r @ '']''"
  have "length suf \<le> TITLE_MAX" by (simp add: suf_def r TITLE_MAX_def)
  moreover have "\<exists>head. issue_title r = map_option (\<lambda>l. take (TITLE_MAX - length suf) (head l) @ suf)
      (first_line (br_message r))"
    unfolding issue_title_def Let_def suf_def by (rule exI) (rule refl)
  then obtain head where "issue_title r = map_option (\<lambda>l. take (TITLE_MAX - length suf) (head l) @ suf)
      (first_line (br_message r))" by blast
  ultimately show ?thesis
    unfolding suf_def [symmetric] by (auto simp: first_line_def r ends_with_iff)
qed

lemma issue_title_bounded_witness:
  "ends_with (the (issue_title example_report)) '' [0123456789ab]''
     \<and> length (the (issue_title example_report)) \<le> TITLE_MAX"
proof -
  have "issue_title example_report = Some (the (issue_title example_report))" "br_sig example_report = ''0123456789ab''"
    by code_simp+
  then show ?thesis
    using issue_title_bounded [OF example_report_built, of "the (issue_title example_report)"] by simp
qed

section \<open>The fingerprint\<close>

text \<open>What is hashed tells failures apart exactly by phase, exception type and the names of the
  frames inside the package, in order: a caller's frames, line numbers and the message have no
  part in it, and no two different triples have one payload (names are Python identifiers or
  \<open><module>\<close>-like, without a bar).\<close>

definition bar_free :: "string \<Rightarrow> bool" where
  "bar_free s = (CHR ''|'' \<notin> set s)"

lemma payload_identifies:
  assumes "list_all bar_free (p # ex_type x # own_frames x)" "list_all bar_free (q # ex_type y # own_frames y)"
  shows "payload x p = payload y q \<longleftrightarrow> p = q \<and> ex_type x = ex_type y \<and> own_frames x = own_frames y"
  using join_inject [of "CHR ''|''" "p # ex_type x # own_frames x" "q # ex_type y # own_frames y"] assms
  by (simp add: payload_def bar_free_def [abs_def] del: join.simps)

lemma payload_identifies_witness: "payload example_exn ''reap'' \<noteq> payload example_exn ''admit''"
proof -
  have "list_all bar_free (''reap'' # ex_type example_exn # own_frames example_exn)"
    "list_all bar_free (''admit'' # ex_type example_exn # own_frames example_exn)"
    by code_simp+
  from payload_identifies [OF this] show ?thesis by simp
qed

end
