(* ===== verification/Actions.thy ===== *)
theory Actions
  imports Prelude
begin

text \<open>
  Code that runs other programs: an action takes a state, which records what has been run so
  far, and returns an exception or a value with the state afterwards.  \<open>keeps\<close> says that an
  action leaves a part of the state alone, \<open>emits\<close> what it adds to the record, \<open>succeeds\<close> that
  it raises nothing.
\<close>

type_synonym ('s, 'e, 'a) action = "'s \<Rightarrow> ('e + 'a) \<times> 's"

definition ret :: "'a \<Rightarrow> ('s, 'e, 'a) action" where
  "ret a s = (Inr a, s)"

definition raise_act :: "'e \<Rightarrow> ('s, 'e, 'a) action" where
  "raise_act e s = (Inl e, s)"

definition seq :: "('s, 'e, 'a) action \<Rightarrow> ('a \<Rightarrow> ('s, 'e, 'b) action) \<Rightarrow> ('s, 'e, 'b) action" where
  "seq m k s = (case m s of (Inl e, s') \<Rightarrow> (Inl e, s') | (Inr a, s') \<Rightarrow> k a s')"

text \<open>\<open>try: m except: h\<close>.\<close>

definition rescue :: "('s, 'e, 'a) action \<Rightarrow> ('e \<Rightarrow> ('s, 'e, 'a) action) \<Rightarrow> ('s, 'e, 'a) action" where
  "rescue m h s = (case m s of (Inl e, s') \<Rightarrow> h e s' | (Inr a, s') \<Rightarrow> (Inr a, s'))"

lemma seq_InrE:
  assumes "seq m k s = (Inr b, s')"
  obtains a s1 where "m s = (Inr a, s1)" "k a s1 = (Inr b, s')"
  using assms by (auto simp: seq_def split: prod.splits sum.splits)

lemma seq_assoc: "seq (seq m k) h = seq m (\<lambda>a. seq (k a) h)"
  by (auto simp: seq_def fun_eq_iff split: prod.splits sum.splits)

lemma seq_ret [simp]: "seq (ret a) k = k a"
  by (simp add: seq_def ret_def fun_eq_iff)

lemma seq_raise [simp]: "seq (raise_act e) k = raise_act e"
  by (simp add: seq_def raise_act_def fun_eq_iff)

section \<open>What an action leaves alone\<close>

definition keeps :: "('s \<Rightarrow> 'c) \<Rightarrow> ('s, 'e, 'a) action \<Rightarrow> bool" where
  "keeps part m \<longleftrightarrow> (\<forall>s. part (snd (m s)) = part s)"

lemma keepsD: "keeps part m \<Longrightarrow> part (snd (m s)) = part s"
  by (simp add: keeps_def)

lemma keeps_ret [simp, intro]: "keeps part (ret a)"
  by (simp add: keeps_def ret_def)

lemma keeps_raise [simp, intro]: "keeps part (raise_act e)"
  by (simp add: keeps_def raise_act_def)

lemma keeps_seq [intro]: "keeps part m \<Longrightarrow> (\<And>a. keeps part (k a)) \<Longrightarrow> keeps part (seq m k)"
  by (auto simp: keeps_def seq_def split: prod.split sum.split) (metis snd_conv)+

section \<open>What an action adds to the record\<close>

definition emits :: "('s \<Rightarrow> 'c list) \<Rightarrow> ('c \<Rightarrow> bool) \<Rightarrow> ('s, 'e, 'a) action \<Rightarrow> bool" where
  "emits trace P m \<longleftrightarrow> (\<forall>s. \<exists>cs. trace (snd (m s)) = trace s @ cs \<and> list_all P cs)"

lemma emitsE:
  assumes "emits trace P m"
  obtains cs where "trace (snd (m s)) = trace s @ cs" "list_all P cs"
  using assms by (auto simp: emits_def)

lemma emits_mono: "emits trace P m \<Longrightarrow> (\<And>c. P c \<Longrightarrow> Q c) \<Longrightarrow> emits trace Q m"
  unfolding emits_def by (meson list.pred_mono_strong)

lemma emits_ret [simp, intro]: "emits trace P (ret a)"
  by (simp add: emits_def ret_def)

lemma emits_raise [simp, intro]: "emits trace P (raise_act e)"
  by (simp add: emits_def raise_act_def)

lemma emits_seq:
  assumes "emits trace P m" "\<And>a. emits trace P (k a)"
  shows "emits trace P (seq m k)"
  unfolding emits_def
proof
  fix s
  obtain r s1 where m: "m s = (r, s1)" by fastforce
  obtain cs where cs: "trace s1 = trace s @ cs" "list_all P cs"
    using emitsE [OF assms(1), of s] m by auto
  show "\<exists>cs. trace (snd (seq m k s)) = trace s @ cs \<and> list_all P cs"
  proof (cases r)
    case (Inl e)
    then show ?thesis using cs by (simp add: seq_def m)
  next
    case (Inr a)
    obtain cs' where "trace (snd (k a s1)) = trace s1 @ cs'" "list_all P cs'"
      using emitsE [OF assms(2)] by blast
    then show ?thesis using cs Inr by (auto simp: seq_def m)
  qed
qed

lemma emits_rescue:
  assumes "emits trace P m" "\<And>e. emits trace P (h e)"
  shows "emits trace P (rescue m h)"
  unfolding emits_def
proof
  fix s
  obtain r s1 where m: "m s = (r, s1)" by fastforce
  obtain cs where cs: "trace s1 = trace s @ cs" "list_all P cs"
    using emitsE [OF assms(1), of s] m by auto
  show "\<exists>cs. trace (snd (rescue m h s)) = trace s @ cs \<and> list_all P cs"
  proof (cases r)
    case (Inl e)
    obtain cs' where "trace (snd (h e s1)) = trace s1 @ cs'" "list_all P cs'"
      using emitsE [OF assms(2)] by blast
    then show ?thesis using cs Inl by (auto simp: rescue_def m)
  qed (use cs in \<open>simp add: rescue_def m\<close>)
qed

section \<open>Actions that raise nothing\<close>

definition succeeds :: "('s, 'e, 'a) action \<Rightarrow> bool" where
  "succeeds m \<longleftrightarrow> (\<forall>s. \<exists>a s'. m s = (Inr a, s'))"

lemma succeedsE:
  assumes "succeeds m"
  obtains a s' where "m s = (Inr a, s')"
  using assms unfolding succeeds_def by blast

lemma succeeds_ret [simp]: "succeeds (ret a)"
  by (simp add: succeeds_def ret_def)

lemma succeeds_seq:
  assumes "succeeds m" "\<And>a. succeeds (k a)"
  shows "succeeds (seq m k)"
  unfolding succeeds_def
proof
  fix s
  obtain a s1 where m: "m s = (Inr a, s1)" using assms(1) by (rule succeedsE)
  obtain b s2 where "k a s1 = (Inr b, s2)" using assms(2) by (rule succeedsE)
  with m show "\<exists>b s'. seq m k s = (Inr b, s')" by (simp add: seq_def)
qed

lemma succeeds_rescue:
  assumes "\<And>e. succeeds (h e)"
  shows "succeeds (rescue m h)"
  unfolding succeeds_def
proof
  fix s
  obtain r s1 where m: "m s = (r, s1)" by fastforce
  show "\<exists>a s'. rescue m h s = (Inr a, s')"
  proof (cases r)
    case (Inl e)
    obtain a s2 where "h e s1 = (Inr a, s2)" using assms by (rule succeedsE)
    with m Inl show ?thesis by (simp add: rescue_def)
  qed (simp add: rescue_def m)
qed

end
