(* ===== verification/Bugfiler.thy ===== *)
theory Bugfiler
  imports Issues Queue Actions
begin

text \<open>
  \<open>src/gpuqueue/bugfiler.py\<close> and \<open>Runner._report_bug\<close>: filing a bug on GitHub, deduplicated and
  throttled.  Every use of the network is a call of the \<open>gh\<close> program; what the program answers
  is an argument that may depend on all calls so far, so that a statement about a run holds
  for every behaviour of GitHub.  The budget file holds time stamps as \<open>fromisoformat\<close> reads
  them.  The JSON reader of gh's output, the SHA-256 digest and the JSON printer are arguments.
\<close>

section \<open>Calling gh\<close>

record gh_call =
  call_env :: "(string \<times> string) list"
  call_args :: "string list"
  call_stdin :: "string option"

datatype gh_run = CannotRun string | TimedOut | Exited int string string

record issue_row =
  row_number :: int
  row_body :: "string option"

text \<open>The world: what gh answers to a call after earlier calls, what \<open>json.loads\<close> makes of its
  output (\<open>None\<close>: JSONDecodeError), the process environment, whether the state file can be
  written, and the date \<open>datetime.now\<close> reads, each after the calls made so far.\<close>

record github =
  gh_answer :: "gh_call list \<Rightarrow> gh_call \<Rightarrow> gh_run"
  gh_loads :: "string \<Rightarrow> issue_row list option"
  gh_environ :: "(string \<times> string) list"
  gh_disk_ok :: "gh_call list \<Rightarrow> bool"
  gh_today :: "gh_call list \<Rightarrow> datetime"

datatype stamp = Aware time | Naive time | BadStamp

text \<open>The state: the calls made, \<open>_labels_ensured\<close>, and the \<open>dispatches\<close> of the state file
  (\<open>None\<close>: missing, unreadable or not a list).\<close>

record filer =
  fl_calls :: "gh_call list"
  fl_labels :: "(string \<times> string) list"
  fl_file :: "stamp list option"

datatype raised = GhError string | OtherRaise

type_synonym 'a act = "(filer, raised, 'a) action"

definition repo_of :: "autofix_config \<Rightarrow> string" where
  "repo_of cfg = (case ac_repo cfg of PStr s \<Rightarrow> s | _ \<Rightarrow> [])"

text \<open>\<open>os.environ.get(cfg.token_env)\<close>.  A name that is not a string raises, and so does
  \<open>subprocess.run\<close> where the repository, an argument of every call, is not one (\<open>None\<close>).\<close>

definition token_of :: "autofix_config \<Rightarrow> (string \<times> string) list \<Rightarrow> string option option" where
  "token_of cfg environ = (case (ac_token_env cfg, ac_repo cfg) of
      (PStr n, PStr r) \<Rightarrow> Some (map_of environ n) | _ \<Rightarrow> None)"

definition gh_env :: "string option \<Rightarrow> (string \<times> string) list \<Rightarrow> (string \<times> string) list" where
  "gh_env token environ = (case token of
      Some (c # t) \<Rightarrow> AList.update ''GH_TOKEN'' (c # t) environ
    | _ \<Rightarrow> AList.delete ''GITHUB_TOKEN'' (AList.delete ''GH_TOKEN'' environ))"

definition gh_result :: "string list \<Rightarrow> gh_run \<Rightarrow> raised + string" where
  "gh_result args run = (case run of
      CannotRun e \<Rightarrow> Inl (GhError (''cannot run gh: '' @ e))
    | TimedOut \<Rightarrow> Inl (GhError (''gh '' @ hd args @ '' timed out after 30s''))
    | Exited rc out err \<Rightarrow> if rc \<noteq> 0
        then Inl (GhError (''gh '' @ join '' '' args @ '' failed ('' @ show_int rc @ ''): '' @ strip err))
        else Inr out)"

definition gh :: "github \<Rightarrow> autofix_config \<Rightarrow> string list \<Rightarrow> string option \<Rightarrow> string act" where
  "gh G cfg args stdin f = (case token_of cfg (gh_environ G) of
      None \<Rightarrow> (Inl OtherRaise, f)
    | Some token \<Rightarrow>
        (let c = \<lparr>call_env = gh_env token (gh_environ G), call_args = args, call_stdin = stdin\<rparr>
         in (gh_result args (gh_answer G (fl_calls f) c), f\<lparr>fl_calls := fl_calls f @ [c]\<rparr>)))"

section \<open>Looking up\<close>

definition AUTO_LABEL :: string where
  "AUTO_LABEL = ''gpuq-auto''"

definition REPORTED_LABEL :: string where
  "REPORTED_LABEL = ''gpuq-reported''"

definition THROTTLED_LABEL :: string where
  "THROTTLED_LABEL = ''throttled''"

definition rows_of :: "github \<Rightarrow> string \<Rightarrow> issue_row list" where
  "rows_of G out = (case gh_loads G (if out = [] then ''[]'' else out) of None \<Rightarrow> [] | Some rows \<Rightarrow> rows)"

definition search_args :: "autofix_config \<Rightarrow> string \<Rightarrow> string \<Rightarrow> string \<Rightarrow> string list" where
  "search_args cfg kind st query = [kind, ''list'', ''--repo'', repo_of cfg, ''--state'', st,
     ''--search'', query, ''--json'', ''number,body'', ''--limit'', ''10'']"

definition search :: "github \<Rightarrow> autofix_config \<Rightarrow> string \<Rightarrow> string \<Rightarrow> string \<Rightarrow> issue_row list act" where
  "search G cfg kind st query = seq (gh G cfg (search_args cfg kind st query) None) (\<lambda>out. ret (rows_of G out))"

definition body_text :: "issue_row \<Rightarrow> string" where
  "body_text r = (case row_body r of None \<Rightarrow> [] | Some b \<Rightarrow> b)"

definition exact :: "issue_row list \<Rightarrow> string \<Rightarrow> issue_row list" where
  "exact rows sig = filter (\<lambda>r. contains (''sig: '' @ sig) (body_text r)) rows"

definition first_hit :: "issue_row list \<Rightarrow> string \<Rightarrow> issue_row option" where
  "first_hit rows sig = (case exact rows sig of [] \<Rightarrow> None | r # _ \<Rightarrow> Some r)"

definition open_issue_args :: "autofix_config \<Rightarrow> string list" where
  "open_issue_args cfg = [''issue'', ''list'', ''--repo'', repo_of cfg, ''--state'', ''open'',
     ''--label'', AUTO_LABEL, ''--json'', ''number,body'', ''--limit'', ''500'']"

definition find_open_issue :: "github \<Rightarrow> autofix_config \<Rightarrow> string \<Rightarrow> issue_row option act" where
  "find_open_issue G cfg sig =
     seq (gh G cfg (open_issue_args cfg) None) (\<lambda>out. ret (first_hit (rows_of G out) sig))"

definition find_open_pr :: "github \<Rightarrow> autofix_config \<Rightarrow> string \<Rightarrow> int option act" where
  "find_open_pr G cfg sig = seq (search G cfg ''pr'' ''open'' (''sig: '' @ sig @ '' in:body''))
     (\<lambda>rows. ret (map_option row_number (first_hit rows sig)))"

text \<open>The date \<open>n\<close> days before or after a day; \<open>None\<close> is the OverflowError outside the years
  1 to 9999.\<close>

definition day_before :: "datetime \<Rightarrow> datetime option" where
  "day_before d = (if 1 < dt_day d then Some (d\<lparr>dt_day := dt_day d - 1\<rparr>)
     else if 1 < dt_month d
       then Some (d\<lparr>dt_month := dt_month d - 1, dt_day := days_in_month (dt_year d) (dt_month d - 1)\<rparr>)
     else if 1 < dt_year d then Some (d\<lparr>dt_year := dt_year d - 1, dt_month := 12, dt_day := 31\<rparr>)
     else None)"

definition day_after :: "datetime \<Rightarrow> datetime option" where
  "day_after d = (if dt_day d < days_in_month (dt_year d) (dt_month d) then Some (d\<lparr>dt_day := dt_day d + 1\<rparr>)
     else if dt_month d < 12 then Some (d\<lparr>dt_month := dt_month d + 1, dt_day := 1\<rparr>)
     else if dt_year d < 9999 then Some (d\<lparr>dt_year := dt_year d + 1, dt_month := 1, dt_day := 1\<rparr>)
     else None)"

fun days_from :: "(datetime \<Rightarrow> datetime option) \<Rightarrow> nat \<Rightarrow> datetime \<Rightarrow> datetime option" where
  "days_from step 0 d = Some d"
| "days_from step (Suc n) d = Option.bind (step d) (days_from step n)"

definition days_ago :: "int \<Rightarrow> datetime \<Rightarrow> datetime option" where
  "days_ago n d = (if 0 \<le> n then days_from day_before (nat n) d else days_from day_after (nat (- n)) d)"

definition date_text :: "datetime \<Rightarrow> string" where
  "date_text d = show_nat (dt_year d) @ ''-'' @ two_digits (dt_month d) @ ''-'' @ two_digits (dt_day d)"

definition closed_since :: "github \<Rightarrow> autofix_config \<Rightarrow> string \<Rightarrow> datetime \<Rightarrow> int option act" where
  "closed_since G cfg sig since =
     seq (search G cfg ''issue'' ''closed'' (''sig: '' @ sig @ '' in:body closed:>='' @ date_text since))
       (\<lambda>rows. ret (map_option row_number (first_hit rows sig)))"

definition find_recent_closed :: "github \<Rightarrow> autofix_config \<Rightarrow> string \<Rightarrow> int option act" where
  "find_recent_closed G cfg sig f =
     (case days_ago (ac_closed_lookback_days cfg) (gh_today G (fl_calls f)) of
        None \<Rightarrow> (Inl OtherRaise, f)
      | Some since \<Rightarrow> closed_since G cfg sig since f)"

section \<open>The budget\<close>

definition DAY :: time where
  "DAY = 86400"

definition stamp_time :: "stamp \<Rightarrow> time option" where
  "stamp_time s = (case s of Aware t \<Rightarrow> Some t | Naive t \<Rightarrow> Some t | BadStamp \<Rightarrow> None)"

definition load_dispatches :: "filer \<Rightarrow> time list" where
  "load_dispatches f = (case fl_file f of None \<Rightarrow> [] | Some raw \<Rightarrow> List.map_filter stamp_time raw)"

text \<open>\<open>_save_dispatches\<close>; the flag is false when writing or renaming raises.\<close>

definition save_dispatches :: "github \<Rightarrow> time list \<Rightarrow> filer \<Rightarrow> bool \<times> filer" where
  "save_dispatches G stamps f =
     (if gh_disk_ok G (fl_calls f) then (True, f\<lparr>fl_file := Some (map Aware stamps)\<rparr>) else (False, f))"

definition dispatches_in_last_day :: "filer \<Rightarrow> time \<Rightarrow> int" where
  "dispatches_in_last_day f now = int (length (filter (\<lambda>s. now - DAY < s) (load_dispatches f)))"

definition may_dispatch :: "autofix_config \<Rightarrow> filer \<Rightarrow> time \<Rightarrow> bool" where
  "may_dispatch cfg f now = (dispatches_in_last_day f now < ac_max_dispatches_per_day cfg)"

definition PRUNE_AFTER :: time where
  "PRUNE_AFTER = 2 * DAY"

definition record_dispatch :: "github \<Rightarrow> time \<Rightarrow> filer \<Rightarrow> bool \<times> filer" where
  "record_dispatch G now f =
     save_dispatches G (filter (\<lambda>s. now - PRUNE_AFTER < s) (load_dispatches f) @ [now]) f"

definition refund_dispatch :: "github \<Rightarrow> time \<Rightarrow> filer \<Rightarrow> filer" where
  "refund_dispatch G now f = (if now \<in> set (load_dispatches f)
     then snd (save_dispatches G (remove1 now (load_dispatches f)) f) else f)"

section \<open>Filing\<close>

definition LABEL_SPECS :: "(string \<times> string \<times> string) list" where
  "LABEL_SPECS = [(AUTO_LABEL, ''B60205'', ''filed by the gpuq runner from its own traceback''),
     (REPORTED_LABEL, ''FBCA04'', ''filed by an agent; needs `fix-me` to run''),
     (THROTTLED_LABEL, ''666666'', ''filed as evidence; deliberately not run''),
     (''fix-me'', ''0E8A16'', ''owner authorises an autofix run'')]"

definition label_args :: "autofix_config \<Rightarrow> string \<times> string \<times> string \<Rightarrow> string list" where
  "label_args cfg = (\<lambda>(name, colour, desc). [''label'', ''create'', name, ''--repo'', repo_of cfg,
     ''--color'', colour, ''--description'', desc])"

definition ensure_label :: "github \<Rightarrow> autofix_config \<Rightarrow> string \<times> string \<times> string \<Rightarrow> unit act" where
  "ensure_label G cfg l f = (let key = (repo_of cfg, fst l) in
     if key \<in> set (fl_labels f) then (Inr (), f)
     else (case gh G cfg (label_args cfg l) None f of
         (Inr _, f') \<Rightarrow> (Inr (), f'\<lparr>fl_labels := key # fl_labels f'\<rparr>)
       | (Inl (GhError e), f') \<Rightarrow>
           (Inr (), if contains ''already exists'' (lower e) then f'\<lparr>fl_labels := key # fl_labels f'\<rparr> else f')
       | (Inl OtherRaise, f') \<Rightarrow> (Inl OtherRaise, f')))"

fun ensure_each :: "github \<Rightarrow> autofix_config \<Rightarrow> (string \<times> string \<times> string) list \<Rightarrow> unit act" where
  "ensure_each G cfg [] = ret ()"
| "ensure_each G cfg (l # ls) = seq (ensure_label G cfg l) (\<lambda>_. ensure_each G cfg ls)"

definition ensure_labels :: "github \<Rightarrow> autofix_config \<Rightarrow> unit act" where
  "ensure_labels G cfg = ensure_each G cfg LABEL_SPECS"

fun issue_number :: "string \<Rightarrow> int option" where
  "issue_number [] = None"
| "issue_number (c # cs) =
     (let digits = takeWhile is_digit (drop 8 (c # cs))
      in if starts_with (c # cs) ''/issues/'' \<and> digits \<noteq> [] then read_nat digits else issue_number cs)"

definition create_args :: "autofix_config \<Rightarrow> string \<Rightarrow> string list \<Rightarrow> string list" where
  "create_args cfg title labels = [''issue'', ''create'', ''--repo'', repo_of cfg, ''--title'', title]
     @ concat (map (\<lambda>l. [''--label'', l]) labels) @ [''--body-file'', ''-'']"

definition create_issue :: "github \<Rightarrow> autofix_config \<Rightarrow> string \<Rightarrow> string \<Rightarrow> string list \<Rightarrow> int option act" where
  "create_issue G cfg title body labels = seq (ensure_labels G cfg) (\<lambda>_.
     seq (gh G cfg (create_args cfg title labels) (Some body)) (\<lambda>out. ret (issue_number out)))"

datatype verdict = Disabled | CallerFault | CommentedIssue | CommentedPr | Filed | FiledThrottled

record instant =
  in_time :: time
  in_date :: datetime

definition COMMENT_INTERVAL :: time where
  "COMMENT_INTERVAL = DAY"

definition job_id_text :: "pydict option \<Rightarrow> string" where
  "job_id_text job = (case job of Some (kv # d) \<Rightarrow> (case dict_get ''id'' (kv # d) of PStr s \<Rightarrow> s | _ \<Rightarrow> [])
     | _ \<Rightarrow> ''n/a'')"

definition comment_due :: "string \<Rightarrow> time \<Rightarrow> bool" where
  "comment_due body now = (case last_seen body of None \<Rightarrow> True
     | Some previous \<Rightarrow> COMMENT_INTERVAL \<le> now - time_of previous)"

definition post :: "github \<Rightarrow> autofix_config \<Rightarrow> string \<Rightarrow> string \<Rightarrow> int \<Rightarrow> string \<Rightarrow> string act" where
  "post G cfg kind what number stdin =
     gh G cfg [kind, what, show_int number, ''--repo'', repo_of cfg, ''--body-file'', ''-''] (Some stdin)"

text \<open>An open issue with this signature: a comment at most once a day, the count always.\<close>

definition recurrence :: "github \<Rightarrow> autofix_config \<Rightarrow> bug_report \<Rightarrow> time \<Rightarrow> issue_row \<Rightarrow> verdict act" where
  "recurrence G cfg r now row =
     (let body = body_text row; bumped = bump_body body (br_occurred r) in
      seq (if comment_due body now
           then post G cfg ''issue'' ''comment'' (row_number row)
                  (''Seen again at '' @ br_occurred r @ '' (job '' @ job_id_text (br_job r) @ '').'')
           else ret []) (\<lambda>_.
      seq (if bumped \<noteq> body then post G cfg ''issue'' ''edit'' (row_number row) bumped else ret []) (\<lambda>_.
      ret CommentedIssue)))"

text \<open>The debit comes before the issue, and is refunded when no issue could be created.\<close>

definition debit :: "github \<Rightarrow> autofix_config \<Rightarrow> time \<Rightarrow> filer \<Rightarrow> bool \<times> filer" where
  "debit G cfg now f = (if may_dispatch cfg f now then record_dispatch G now f else (False, f))"

definition titled_issue :: "github \<Rightarrow> autofix_config \<Rightarrow> bug_report \<Rightarrow> string \<Rightarrow> string list \<Rightarrow> int option act" where
  "titled_issue G cfg r body labels = (case issue_title r of None \<Rightarrow> raise_act OtherRaise
     | Some title \<Rightarrow> create_issue G cfg title body labels)"

definition file_new :: "github \<Rightarrow> autofix_config \<Rightarrow> bug_report \<Rightarrow> string \<Rightarrow> time \<Rightarrow> verdict act" where
  "file_new G cfg r body now f =
     (let (dispatched, f1) = debit G cfg now f;
          labels = (if dispatched then [AUTO_LABEL] else [AUTO_LABEL, THROTTLED_LABEL])
      in case titled_issue G cfg r body labels f1 of
           (Inl e, f2) \<Rightarrow> (Inl e, if dispatched then refund_dispatch G now f2 else f2)
         | (Inr _, f2) \<Rightarrow> (Inr (if dispatched then Filed else FiledThrottled), f2))"

definition still_failing :: "bug_report \<Rightarrow> string" where
  "still_failing r = ''Still failing on the box at '' @ br_occurred r @ '' (sig: '' @ br_sig r @ '').''"

definition not_held :: "int \<Rightarrow> string" where
  "not_held n = newline @ ''Previously fixed in #'' @ show_int n @ ''; that fix did not hold.'' @ newline"

definition file_report :: "github \<Rightarrow> (pydict \<Rightarrow> string) \<Rightarrow> autofix_config \<Rightarrow> bug_report \<Rightarrow> time \<Rightarrow> verdict act" where
  "file_report G dumps cfg r now =
     seq (find_open_issue G cfg (br_sig r)) (\<lambda>existing. case existing of
       Some row \<Rightarrow> recurrence G cfg r now row
     | None \<Rightarrow> seq (find_open_pr G cfg (br_sig r)) (\<lambda>pr. case pr of
         Some n \<Rightarrow> seq (post G cfg ''pr'' ''comment'' n (still_failing r)) (\<lambda>_. ret CommentedPr)
       | None \<Rightarrow> seq (find_recent_closed G cfg (br_sig r)) (\<lambda>prev.
           file_new G cfg r (issue_body dumps r @ (case prev of None \<Rightarrow> [] | Some n \<Rightarrow> not_held n)) now)))"

definition file_bug :: "github \<Rightarrow> (string \<Rightarrow> string) \<Rightarrow> (pydict \<Rightarrow> string) \<Rightarrow> autofix_config \<Rightarrow> exn \<Rightarrow> string
    \<Rightarrow> pydict option \<Rightarrow> (string \<times> nat) list \<Rightarrow> string \<Rightarrow> instant \<Rightarrow> verdict act" where
  "file_bug G sha dumps cfg x phase job counts commit now =
     (if \<not> ac_enabled cfg \<or> \<not> truthy (ac_repo cfg) then ret Disabled
      else if \<not> is_gpuq_fault x then ret CallerFault
      else (case build_report sha x phase job counts commit (stamp_text (in_date now)) of
          None \<Rightarrow> raise_act OtherRaise
        | Some r \<Rightarrow> file_report G dumps cfg r (in_time now)))"

text \<open>\<open>gpuq bug\<close>.\<close>

definition AGENT_PREFACE :: string where
  "AGENT_PREFACE = ''Filed by an agent with `gpuq bug`. This is prose, not a '' @
     ''traceback: the blame in it is a guess and there is no '' @
     ''signature to deduplicate on. Nothing runs until the owner '' @
     ''adds `fix-me`.'' @ newline @ newline @ ''---'' @ newline @ newline"

definition file_agent_report :: "github \<Rightarrow> autofix_config \<Rightarrow> string \<Rightarrow> string \<Rightarrow> int option act" where
  "file_agent_report G cfg title body =
     create_issue G cfg (''[gpuq] '' @ title) (AGENT_PREFACE @ body) [REPORTED_LABEL]"

section \<open>The runner's cooldown\<close>

text \<open>\<open>Runner._report_bug\<close>: nothing escapes it; what is left is the memory of attempts.\<close>

record reporter =
  rp_cooldowns :: "(string \<times> time) list"
  rp_filer :: filer

definition queue_counts :: "path \<Rightarrow> jobs \<Rightarrow> (string \<times> nat) list" where
  "queue_counts qroot fs = map (\<lambda>st. (state_dir st, length (list_state qroot st fs))) STATES"

definition cooling :: "autofix_config \<Rightarrow> time \<Rightarrow> time option \<Rightarrow> bool" where
  "cooling cfg clock last_try = (case last_try of None \<Rightarrow> False
     | Some t \<Rightarrow> time_lt (clock - t) (ac_report_cooldown_s cfg))"

definition report_bug :: "github \<Rightarrow> (string \<Rightarrow> string) \<Rightarrow> (pydict \<Rightarrow> string) \<Rightarrow> autofix_config \<Rightarrow> path \<Rightarrow> jobs
    \<Rightarrow> exn \<Rightarrow> string \<Rightarrow> pydict option \<Rightarrow> string \<Rightarrow> time \<Rightarrow> instant \<Rightarrow> reporter \<Rightarrow> reporter" where
  "report_bug G sha dumps cfg qroot fs x phase job commit clock now rp =
     (if \<not> ac_enabled cfg then rp
      else (case signature sha x phase of None \<Rightarrow> rp
        | Some sig \<Rightarrow> if cooling cfg clock (map_of (rp_cooldowns rp) sig) then rp
            else \<lparr>rp_cooldowns = AList.update sig clock (rp_cooldowns rp),
                  rp_filer = snd (file_bug G sha dumps cfg x phase job (queue_counts qroot fs) commit now (rp_filer rp))\<rparr>))"

end
