(* ===== verification/Filing.thy ===== *)
theory Filing
  imports Bugfiler "HOL-Library.Multiset"
begin

text \<open>
  What filing promises whatever GitHub answers (\<open>src/gpuqueue/bugfiler.py\<close>): the daily budget of
  dispatches, the credentials gh is run with, no second issue for a bug that has one, no
  budget spent on an outage, no evidence lost, and the cooldown between attempts.
\<close>

section \<open>What an action leaves alone, and the calls it makes\<close>

abbreviation quiet :: "'a act \<Rightarrow> bool" where
  "quiet m \<equiv> keeps fl_file m"

lemma quiet_gh [simp, intro]: "quiet (gh G cfg args stdin)"
  by (auto simp: keeps_def gh_def Let_def split: option.split)

lemma emits_gh:
  assumes "\<And>token. token_of cfg (gh_environ G) = Some token \<Longrightarrow>
    P \<lparr>call_env = gh_env token (gh_environ G), call_args = args, call_stdin = stdin\<rparr>"
  shows "emits fl_calls P (gh G cfg args stdin)"
  using assms by (auto simp: emits_def gh_def Let_def split: option.split)

lemma quiet_search [simp, intro]: "quiet (search G cfg kind st query)"
  by (auto simp: search_def)

lemma quiet_lookups [simp, intro]: "quiet (find_open_issue G cfg sig)" "quiet (find_open_pr G cfg sig)"
  by (auto simp: find_open_issue_def find_open_pr_def)

lemma quiet_find_closed [simp, intro]: "quiet (find_recent_closed G cfg sig)"
proof -
  have "quiet (closed_since G cfg sig since)" for since
    by (auto simp: closed_since_def)
  then show ?thesis
    by (auto simp: keeps_def find_recent_closed_def split: option.split)
qed

lemma quiet_post [simp, intro]: "quiet (post G cfg kind what n s)"
  by (simp add: post_def)

lemma quiet_ensure_label [simp, intro]: "quiet (ensure_label G cfg l)"
proof -
  have "fl_file (snd (gh G cfg (label_args cfg l) None f)) = fl_file f" for f
    by (rule keepsD) simp
  then show ?thesis
    unfolding keeps_def ensure_label_def Let_def
    by (auto split: prod.split sum.split raised.split) (metis snd_conv)+
qed

lemma quiet_ensure_each [simp, intro]: "quiet (ensure_each G cfg ls)"
  by (induction ls) auto

lemma quiet_create [simp, intro]: "quiet (create_issue G cfg title body labels)"
  by (auto simp: create_issue_def ensure_labels_def)

lemma quiet_titled [simp, intro]: "quiet (titled_issue G cfg r body labels)"
  by (auto simp: titled_issue_def split: option.split)

lemma quiet_recurrence [simp, intro]: "quiet (recurrence G cfg r now row)"
  by (auto simp: recurrence_def Let_def)

lemma calls_unmoved [simp]:
  "fl_calls (snd (debit G cfg now f)) = fl_calls f" "fl_calls (refund_dispatch G now f) = fl_calls f"
  by (auto simp: debit_def record_dispatch_def save_dispatches_def refund_dispatch_def)

section \<open>The daily budget\<close>

lemma load_saved [simp]: "load_dispatches (f\<lparr>fl_file := Some (map Aware ts)\<rparr>) = ts"
  by (induction ts) (simp_all add: load_dispatches_def List.map_filter_def stamp_time_def)

lemma load_dispatches_cong: "fl_file f = fl_file g \<Longrightarrow> load_dispatches f = load_dispatches g"
  by (simp add: load_dispatches_def)

definition kept :: "filer \<Rightarrow> time \<Rightarrow> time list" where
  "kept f now = filter (\<lambda>s. now - PRUNE_AFTER < s) (load_dispatches f)"

lemma debit_cases:
  assumes "debit G cfg now f = (b, f')"
  shows "if b then may_dispatch cfg f now \<and> load_dispatches f' = kept f now @ [now] else f' = f"
  using assms
  by (auto simp: debit_def record_dispatch_def save_dispatches_def kept_def [symmetric] simp del: map_append
      split: if_splits)

lemma refund_cases:
  assumes "load_dispatches f = xs @ [now]"
  shows "load_dispatches (refund_dispatch G now f) = xs @ [now]
    \<or> mset (load_dispatches (refund_dispatch G now f)) = mset xs"
  using assms by (auto simp: refund_dispatch_def save_dispatches_def)

text \<open>One filing: it either dispatches within the budget and is on the file, or the file keeps
  what is younger than two days.\<close>

lemma file_new_budget:
  assumes "file_new G cfg r body now f = (res, f')"
  shows "if res = Inr Filed then may_dispatch cfg f now \<and> load_dispatches f' = kept f now @ [now]
    else mset (kept f now) \<subseteq># mset (load_dispatches f')"
proof -
  obtain b f1 where d: "debit G cfg now f = (b, f1)" by fastforce
  obtain t f2 where t: "titled_issue G cfg r body (if b then [AUTO_LABEL] else [AUTO_LABEL, THROTTLED_LABEL]) f1 = (t, f2)"
    by fastforce
  have f2: "load_dispatches f2 = load_dispatches f1"
    using t by (metis load_dispatches_cong quiet_titled keepsD snd_conv)
  have young: "mset (kept f now) \<subseteq># mset (load_dispatches f)"
    by (simp add: kept_def)
  from assms have eq: "(res, f') = (case t of Inl e \<Rightarrow> (Inl e, if b then refund_dispatch G now f2 else f2)
      | Inr _ \<Rightarrow> (Inr (if b then Filed else FiledThrottled), f2))"
    unfolding file_new_def Let_def d case_prod_conv t by (simp split: sum.splits)
  show ?thesis
  proof (cases b)
    case True
    with debit_cases [OF d] f2 have l: "may_dispatch cfg f now" "load_dispatches f2 = kept f now @ [now]" by simp_all
    from refund_cases [OF l(2), of G] have "mset (kept f now) \<subseteq># mset (load_dispatches (refund_dispatch G now f2))"
      by auto
    with eq True l show ?thesis by (cases t) (simp_all split: if_splits)
  next
    case False
    with debit_cases [OF d] f2 have "load_dispatches f2 = load_dispatches f" by simp
    with eq False young show ?thesis by (cases t) (simp_all split: if_splits)
  qed
qed

lemma kept_cong: "fl_file f = fl_file g \<Longrightarrow> kept f now = kept g now"
  using load_dispatches_cong [of f g] by (simp add: kept_def)

lemma kept_within: "load_dispatches f' = load_dispatches f \<Longrightarrow> mset (kept f now) \<subseteq># mset (load_dispatches f')"
  by (simp add: kept_def)

text \<open>An action that does not touch the budget before the step that may.\<close>

definition budgeted :: "autofix_config \<Rightarrow> time \<Rightarrow> verdict act \<Rightarrow> bool" where
  "budgeted cfg now m \<longleftrightarrow> (\<forall>f res f'. m f = (res, f') \<longrightarrow>
     (if res = Inr Filed then may_dispatch cfg f now \<and> load_dispatches f' = kept f now @ [now]
      else mset (kept f now) \<subseteq># mset (load_dispatches f')))"

lemma budgeted_seq:
  assumes "quiet m" "\<And>a. budgeted cfg now (k a)"
  shows "budgeted cfg now (seq m k)"
  unfolding budgeted_def
proof (intro allI impI)
  fix f res f'
  assume run: "seq m k f = (res, f')"
  obtain r f1 where m: "m f = (r, f1)" by fastforce
  then have unmoved: "fl_file f1 = fl_file f"
    using keepsD [OF assms(1), of f] by simp
  note same = load_dispatches_cong [OF unmoved] kept_cong [OF unmoved, of now]
  show "if res = Inr Filed then may_dispatch cfg f now \<and> load_dispatches f' = kept f now @ [now]
      else mset (kept f now) \<subseteq># mset (load_dispatches f')"
  proof (cases r)
    case (Inl e)
    with run m same show ?thesis by (auto simp: seq_def kept_within)
  next
    case (Inr a)
    with run m have "k a f1 = (res, f')" by (simp add: seq_def)
    with assms(2) [of a] have "if res = Inr Filed then may_dispatch cfg f1 now \<and> load_dispatches f' = kept f1 now @ [now]
      else mset (kept f1 now) \<subseteq># mset (load_dispatches f')"
      unfolding budgeted_def by blast
    then show ?thesis unfolding may_dispatch_def dispatches_in_last_day_def same .
  qed
qed

lemma budgeted_quiet:
  assumes "quiet m" "\<And>f. fst (m f) \<noteq> Inr Filed"
  shows "budgeted cfg now m"
  unfolding budgeted_def
proof (intro allI impI)
  fix f res f'
  assume "m f = (res, f')"
  then show "if res = Inr Filed then may_dispatch cfg f now \<and> load_dispatches f' = kept f now @ [now]
      else mset (kept f now) \<subseteq># mset (load_dispatches f')"
    using assms(2) [of f] keepsD [OF assms(1), of f] by (auto intro!: kept_within load_dispatches_cong)
qed

lemma budgeted_ret [simp]: "v \<noteq> Filed \<Longrightarrow> budgeted cfg now (ret v)"
  by (rule budgeted_quiet) (simp_all add: ret_def)

lemma budgeted_raise [simp]: "budgeted cfg now (raise_act e)"
  by (rule budgeted_quiet) (simp_all add: raise_act_def)

lemma budgeted_file_new [simp]: "budgeted cfg now (file_new G cfg r body now)"
  unfolding budgeted_def using file_new_budget by blast

lemma budgeted_recurrence [simp]: "budgeted cfg now (recurrence G cfg r now row)"
  unfolding recurrence_def Let_def by (intro budgeted_seq) auto

lemma budgeted_file_bug: "budgeted cfg (in_time now) (file_bug G sha dumps cfg x phase job counts commit now)"
  by (auto simp: file_bug_def file_report_def intro!: budgeted_seq split: option.split)

text \<open>A run of attempts, each with its own exception and instant, and the instants of those that
  dispatched.\<close>

record attempt =
  at_exn :: exn
  at_phase :: string
  at_job :: "pydict option"
  at_counts :: "(string \<times> nat) list"
  at_commit :: string
  at_now :: instant

fun run_bugs :: "github \<Rightarrow> (string \<Rightarrow> string) \<Rightarrow> (pydict \<Rightarrow> string) \<Rightarrow> autofix_config \<Rightarrow> attempt list \<Rightarrow> filer
    \<Rightarrow> time list \<times> filer" where
  "run_bugs G sha dumps cfg [] f = ([], f)"
| "run_bugs G sha dumps cfg (q # qs) f =
     (let (res, f1) = file_bug G sha dumps cfg (at_exn q) (at_phase q) (at_job q) (at_counts q) (at_commit q) (at_now q) f;
          (ts, f2) = run_bugs G sha dumps cfg qs f1
      in (if res = Inr Filed then in_time (at_now q) # ts else ts, f2))"

definition in_window :: "time \<Rightarrow> time list \<Rightarrow> nat" where
  "in_window u ts = length (filter (\<lambda>t. u < t \<and> t \<le> u + DAY) ts)"

text \<open>What has been dispatched before \<open>now\<close> is on the file as far as it is younger than two days.\<close>

definition accounted :: "autofix_config \<Rightarrow> time list \<Rightarrow> filer \<Rightarrow> time \<Rightarrow> bool" where
  "accounted cfg past f now \<longleftrightarrow> (\<forall>t\<in>set past. t \<le> now)
     \<and> mset (filter (\<lambda>s. now - PRUNE_AFTER < s) past) \<subseteq># mset (load_dispatches f)
     \<and> (\<forall>u. in_window u past \<le> nat (ac_max_dispatches_per_day cfg))"

lemma accounted_later:
  assumes "accounted cfg past f now" "now \<le> now'"
  shows "accounted cfg past f now'"
proof -
  have "mset (filter (\<lambda>s. now' - PRUNE_AFTER < s) past) \<subseteq># mset (filter (\<lambda>s. now - PRUNE_AFTER < s) past)"
    unfolding mset_filter using assms(2) by (intro filter_mset_mono_strong) auto
  with assms show ?thesis
    by (auto simp: accounted_def intro: order_trans subset_mset.order_trans)
qed

lemma in_window_snoc:
  "in_window u (past @ [now]) = in_window u past + (if u < now \<and> now \<le> u + DAY then 1 else 0)"
  by (simp add: in_window_def)

lemma young_dispatches:
  assumes "accounted cfg past f now" "u < now" "now \<le> u + DAY"
  shows "int (in_window u past) \<le> dispatches_in_last_day f now"
proof -
  have "mset (filter (\<lambda>t. u < t \<and> t \<le> u + DAY) past)
      \<subseteq># filter_mset (\<lambda>s. now - DAY < s) (mset (filter (\<lambda>s. now - PRUNE_AFTER < s) past))"
    unfolding mset_filter filter_filter_mset
    using assms(2,3) by (intro filter_mset_mono_strong) (auto simp: PRUNE_AFTER_def DAY_def)
  also have "\<dots> \<subseteq># filter_mset (\<lambda>s. now - DAY < s) (mset (load_dispatches f))"
    using assms(1) by (intro multiset_filter_mono) (simp add: accounted_def)
  finally have "size (mset (filter (\<lambda>t. u < t \<and> t \<le> u + DAY) past))
      \<le> size (mset (filter (\<lambda>s. now - DAY < s) (load_dispatches f)))"
    unfolding mset_filter by (rule size_mset_mono)
  then show ?thesis by (simp only: size_mset in_window_def dispatches_in_last_day_def of_nat_le_iff)
qed

lemma accounted_dispatched:
  assumes acc: "accounted cfg past f now" and may: "may_dispatch cfg f now"
    and load: "load_dispatches f' = kept f now @ [now]"
  shows "accounted cfg (past @ [now]) f' now"
proof -
  let ?young = "\<lambda>s. now - PRUNE_AFTER < s"
  have "filter_mset ?young (mset (filter ?young past)) \<subseteq># filter_mset ?young (mset (load_dispatches f))"
    using acc by (intro multiset_filter_mono) (simp add: accounted_def)
  then have sub: "mset (filter ?young past) \<subseteq># mset (kept f now)"
    by (simp add: kept_def filter_filter_mset)
  have win: "in_window u (past @ [now]) \<le> nat (ac_max_dispatches_per_day cfg)" for u
    using young_dispatches [OF acc, of u] may acc
    by (auto simp: in_window_snoc may_dispatch_def accounted_def)
  show ?thesis
    using acc sub win by (auto simp: accounted_def load PRUNE_AFTER_def DAY_def)
qed

lemma accounted_kept:
  assumes "accounted cfg past f now" "mset (kept f now) \<subseteq># mset (load_dispatches f')"
  shows "accounted cfg past f' now"
proof -
  let ?young = "\<lambda>s. now - PRUNE_AFTER < s"
  have "filter_mset ?young (mset (filter ?young past)) \<subseteq># filter_mset ?young (mset (load_dispatches f))"
    using assms(1) by (intro multiset_filter_mono) (simp add: accounted_def)
  then have "mset (filter ?young past) \<subseteq># mset (kept f now)"
    by (simp add: kept_def filter_filter_mset)
  then show ?thesis
    using assms by (auto simp: accounted_def intro: subset_mset.order_trans)
qed

lemma run_accounted:
  assumes "accounted cfg past f now" "sorted (now # map (\<lambda>q. in_time (at_now q)) qs)"
  shows "\<exists>now'. accounted cfg (past @ fst (run_bugs G sha dumps cfg qs f)) (snd (run_bugs G sha dumps cfg qs f)) now'"
  using assms
proof (induction qs arbitrary: past f now)
  case (Cons q qs)
  let ?t = "in_time (at_now q)"
  obtain res f1 where bug: "file_bug G sha dumps cfg (at_exn q) (at_phase q) (at_job q) (at_counts q)
      (at_commit q) (at_now q) f = (res, f1)" by fastforce
  have acc: "accounted cfg past f ?t"
    using Cons.prems by (auto intro: accounted_later)
  have step: "if res = Inr Filed then may_dispatch cfg f ?t \<and> load_dispatches f1 = kept f ?t @ [?t]
      else mset (kept f ?t) \<subseteq># mset (load_dispatches f1)"
    using budgeted_file_bug bug unfolding budgeted_def by blast
  have srt: "sorted (?t # map (\<lambda>q. in_time (at_now q)) qs)"
    using Cons.prems(2) by simp
  show ?case
  proof (cases "res = Inr Filed")
    case True
    then have "accounted cfg (past @ [?t]) f1 ?t"
      using step accounted_dispatched [OF acc] by simp
    from Cons.IH [OF this srt] show ?thesis
      using True by (simp add: bug split_beta Let_def)
  next
    case False
    then have "accounted cfg past f1 ?t"
      using step accounted_kept [OF acc] by simp
    from Cons.IH [OF this srt] show ?thesis
      using False by (simp add: bug split_beta Let_def)
  qed
qed auto

text \<open>C5: the budget holds.  In any run of attempts at instants that do not go back, whatever GitHub
  and the disk answer, whatever is on the state file to begin with and however many bugs there
  are, no window of 24 hours has more dispatches reported as filed than
  \<open>max_dispatches_per_day\<close>.\<close>

theorem dispatches_within_budget:
  assumes "sorted (map (\<lambda>q. in_time (at_now q)) qs)"
  shows "in_window u (fst (run_bugs G sha dumps cfg qs f)) \<le> nat (ac_max_dispatches_per_day cfg)"
proof (cases qs)
  case (Cons q qs')
  have "accounted cfg [] f (in_time (at_now q))"
    by (simp add: accounted_def in_window_def)
  then obtain now' where "accounted cfg ([] @ fst (run_bugs G sha dumps cfg qs f))
      (snd (run_bugs G sha dumps cfg qs f)) now'"
    using run_accounted [of cfg "[]" f "in_time (at_now q)" qs G sha dumps] assms Cons by auto
  then show ?thesis by (simp add: accounted_def)
qed (simp add: in_window_def)

definition example_autofix :: autofix_config where
  "example_autofix = \<lparr>ac_enabled = True, ac_repo = PStr ''own/gpuq'', ac_token_env = PStr ''GPUQ_TOKEN'',
     ac_max_dispatches_per_day = 1, ac_closed_lookback_days = 1, ac_state_file = [''q'', ''autofix.json''],
     ac_report_cooldown_s = Finite 900\<rparr>"

text \<open>A GitHub on which nothing is filed yet and every call succeeds.\<close>

definition calm_github :: github where
  "calm_github = \<lparr>gh_answer = (\<lambda>_ _. Exited 0 ''https://github.com/own/gpuq/issues/7'' []),
     gh_loads = (\<lambda>_. Some []), gh_environ = [(''GH_TOKEN'', ''broad''), (''GPUQ_TOKEN'', ''narrow'')],
     gh_disk_ok = (\<lambda>_. True), gh_today = (\<lambda>_. example_instant 1)\<rparr>"

definition empty_filer :: filer where
  "empty_filer = \<lparr>fl_calls = [], fl_labels = [], fl_file = None\<rparr>"

definition example_attempt :: "string \<Rightarrow> nat \<Rightarrow> attempt" where
  "example_attempt phase h = \<lparr>at_exn = example_exn, at_phase = phase, at_job = None, at_counts = [],
     at_commit = ''abc123'', at_now = \<lparr>in_time = of_nat (3600 * h), in_date = example_instant h\<rparr>\<rparr>"

definition plain_sha :: "string \<Rightarrow> string" where
  "plain_sha p = take 12 (p @ ''000000000000'')"

lemma example_filed:
  "fst (file_bug calm_github plain_sha (\<lambda>_. []) example_autofix example_exn ''reap'' None [] ''abc123''
     \<lparr>in_time = 3600, in_date = example_instant 1\<rparr> empty_filer) = Inr Filed"
  by code_simp

lemma example_dispatch:
  "fst (run_bugs calm_github plain_sha (\<lambda>_. []) example_autofix [example_attempt ''reap'' 1] empty_filer) = [3600]"
  using example_filed by (simp add: example_attempt_def split_beta del: One_nat_def)

lemma dispatches_within_budget_witness:
  "in_window 0 (fst (run_bugs calm_github plain_sha (\<lambda>_. []) example_autofix
     [example_attempt ''reap'' 1, example_attempt ''admit'' 2, example_attempt ''collect'' 3] empty_filer)) \<le> 1
   \<and> in_window 0 (fst (run_bugs calm_github plain_sha (\<lambda>_. []) example_autofix [example_attempt ''reap'' 1] empty_filer)) = 1"
proof -
  have "sorted (map (\<lambda>q. in_time (at_now q))
      [example_attempt ''reap'' 1, example_attempt ''admit'' 2, example_attempt ''collect'' 3])"
    by (simp add: example_attempt_def)
  note dispatches_within_budget [OF this, of 0 calm_github plain_sha "\<lambda>_. []" example_autofix empty_filer]
  moreover have "nat (ac_max_dispatches_per_day example_autofix) = 1"
    by (simp add: example_autofix_def)
  ultimately show ?thesis
    by (simp only: example_dispatch in_window_def) (simp add: DAY_def)
qed

text \<open>A debit is given back when no issue could be created.\<close>

definition thrifty :: "time \<Rightarrow> 'a act \<Rightarrow> bool" where
  "thrifty now m \<longleftrightarrow> (\<forall>f e f'. m f = (Inl e, f') \<longrightarrow> dispatches_in_last_day f' now = dispatches_in_last_day f now)"

lemma last_day_cong: "load_dispatches f = load_dispatches g \<Longrightarrow> dispatches_in_last_day f now = dispatches_in_last_day g now"
  by (simp add: dispatches_in_last_day_def)

lemma thrifty_quiet: "quiet m \<Longrightarrow> thrifty now m"
  unfolding thrifty_def by (metis last_day_cong load_dispatches_cong keepsD snd_conv)

lemma thrifty_simps [simp]:
  "thrifty now (ret v)" "thrifty now (raise_act e)" "thrifty now (recurrence G cfg r t row)"
  by (simp_all add: thrifty_quiet)

lemma thrifty_seq:
  assumes "quiet m" "\<And>a. thrifty now (k a)"
  shows "thrifty now (seq m k)"
  unfolding thrifty_def
proof (intro allI impI)
  fix f e f'
  assume run: "seq m k f = (Inl e, f')"
  obtain r f1 where m: "m f = (r, f1)" by fastforce
  then have "fl_file f1 = fl_file f"
    using keepsD [OF assms(1), of f] by simp
  then have same: "dispatches_in_last_day f1 now = dispatches_in_last_day f now"
    by (intro last_day_cong load_dispatches_cong)
  show "dispatches_in_last_day f' now = dispatches_in_last_day f now"
  proof (cases r)
    case (Inl e')
    with run m same show ?thesis by (simp add: seq_def)
  next
    case (Inr a)
    with run m have "k a f1 = (Inl e, f')" by (simp add: seq_def)
    with assms(2) same show ?thesis unfolding thrifty_def by metis
  qed
qed

lemma last_day_kept: "length (filter (\<lambda>s. now - DAY < s) (kept f now)) = length (filter (\<lambda>s. now - DAY < s) (load_dispatches f))"
  unfolding kept_def filter_filter by (rule arg_cong [where f = length], rule filter_cong) (auto simp: PRUNE_AFTER_def DAY_def)

lemma thrifty_file_new:
  assumes "\<And>calls. gh_disk_ok G calls"
  shows "thrifty now (file_new G cfg r body now)"
  unfolding thrifty_def
proof (intro allI impI)
  fix f e f'
  assume run: "file_new G cfg r body now f = (Inl e, f')"
  obtain b f1 where d: "debit G cfg now f = (b, f1)" by fastforce
  obtain t f2 where t: "titled_issue G cfg r body (if b then [AUTO_LABEL] else [AUTO_LABEL, THROTTLED_LABEL]) f1 = (t, f2)"
    by fastforce
  have f2: "load_dispatches f2 = load_dispatches f1"
    using t by (metis load_dispatches_cong quiet_titled keepsD snd_conv)
  from run have f': "f' = (if b then refund_dispatch G now f2 else f2)"
    unfolding file_new_def Let_def d case_prod_conv t by (auto split: sum.splits)
  show "dispatches_in_last_day f' now = dispatches_in_last_day f now"
  proof (cases b)
    case True
    with debit_cases [OF d] f2 have "load_dispatches f2 = kept f now @ [now]" by simp
    then have "mset (load_dispatches f') = mset (kept f now)"
      using True f' assms by (simp add: refund_dispatch_def save_dispatches_def)
    then have "size (filter_mset (\<lambda>s. now - DAY < s) (mset (load_dispatches f')))
        = size (filter_mset (\<lambda>s. now - DAY < s) (mset (kept f now)))" by simp
    then have "length (filter (\<lambda>s. now - DAY < s) (load_dispatches f')) = length (filter (\<lambda>s. now - DAY < s) (kept f now))"
      unfolding mset_filter [symmetric] size_mset .
    then show ?thesis unfolding dispatches_in_last_day_def last_day_kept by simp
  next
    case False
    with debit_cases [OF d] f2 f' show ?thesis by (intro last_day_cong) simp
  qed
qed

text \<open>C20: an outage costs nothing.  When filing raises (gh is missing, refused or timed out at any
  call, a label or the title could not be made), as long as the state file can be written the
  number of dispatches that count against the budget is what it was.\<close>

theorem outage_costs_nothing:
  assumes "\<And>calls. gh_disk_ok G calls"
    and "file_bug G sha dumps cfg x phase job counts commit now f = (Inl e, f')"
  shows "dispatches_in_last_day f' (in_time now) = dispatches_in_last_day f (in_time now)"
proof -
  have "thrifty (in_time now) (file_bug G sha dumps cfg x phase job counts commit now)"
    using assms(1)
    by (auto simp: file_bug_def file_report_def intro!: thrifty_seq thrifty_file_new
        split: option.split)
  with assms(2) show ?thesis unfolding thrifty_def by blast
qed

definition creates :: "gh_call \<Rightarrow> bool" where
  "creates c = (take 2 (call_args c) = [''issue'', ''create''])"

text \<open>A GitHub that answers everything but the creation of an issue, which times out.\<close>

definition slow_github :: github where
  "slow_github = calm_github\<lparr>gh_answer := (\<lambda>_ c. if creates c then TimedOut else Exited 0 [] [])\<rparr>"

lemma example_timeout:
  "fst (file_bug slow_github plain_sha (\<lambda>_. []) example_autofix example_exn ''reap'' None [] ''abc123''
     \<lparr>in_time = 3600, in_date = example_instant 1\<rparr> empty_filer) = Inl (GhError ''gh issue timed out after 30s'')"
  by code_simp

lemma outage_costs_nothing_witness:
  "dispatches_in_last_day (snd (file_bug slow_github plain_sha (\<lambda>_. []) example_autofix example_exn ''reap'' None []
     ''abc123'' \<lparr>in_time = 3600, in_date = example_instant 1\<rparr> empty_filer)) 3600 = 0"
proof -
  have disk: "\<And>calls. gh_disk_ok slow_github calls"
    by (simp add: slow_github_def calm_github_def)
  show ?thesis
    using outage_costs_nothing [OF disk surjective_pairing [of "file_bug slow_github plain_sha (\<lambda>_. [])
        example_autofix example_exn ''reap'' None [] ''abc123'' \<lparr>in_time = 3600, in_date = example_instant 1\<rparr>
        empty_filer", unfolded example_timeout]]
    by (simp add: dispatches_in_last_day_def load_dispatches_def empty_filer_def)
qed

section \<open>What gh is run with\<close>

text \<open>The environment has the configured token, or no token at all; the command is one of the few
  on issues, pull requests and labels, and names the configured repository.\<close>

definition scoped :: "autofix_config \<Rightarrow> (string \<times> string) list \<Rightarrow> gh_call \<Rightarrow> bool" where
  "scoped cfg environ c \<longleftrightarrow>
     (case token_of cfg environ of
        Some (Some (ch # t)) \<Rightarrow> map_of (call_env c) ''GH_TOKEN'' = Some (ch # t)
      | _ \<Rightarrow> map_of (call_env c) ''GH_TOKEN'' = None \<and> map_of (call_env c) ''GITHUB_TOKEN'' = None)
     \<and> take 2 (call_args c) \<in> {[''issue'', ''list''], [''pr'', ''list''], [''issue'', ''comment''],
         [''issue'', ''edit''], [''pr'', ''comment''], [''label'', ''create''], [''issue'', ''create'']}
     \<and> (\<exists>pre rest. call_args c = pre @ ''--repo'' # repo_of cfg # rest)"

lemma gh_env_scoped:
  assumes "token_of cfg environ = Some token"
  shows "case token_of cfg environ of
        Some (Some (ch # t)) \<Rightarrow> map_of (gh_env token environ) ''GH_TOKEN'' = Some (ch # t)
      | _ \<Rightarrow> map_of (gh_env token environ) ''GH_TOKEN'' = None \<and> map_of (gh_env token environ) ''GITHUB_TOKEN'' = None"
  by (auto simp: assms gh_env_def update_conv delete_conv split: option.split list.split)

lemma emits_scoped:
  assumes "take 2 args \<in> {[''issue'', ''list''], [''pr'', ''list''], [''issue'', ''comment''],
         [''issue'', ''edit''], [''pr'', ''comment''], [''label'', ''create''], [''issue'', ''create'']}"
    and "args = pre @ ''--repo'' # repo_of cfg # rest"
  shows "emits fl_calls (scoped cfg (gh_environ G)) (gh G cfg args stdin)"
proof (rule emits_gh)
  fix token
  assume "token_of cfg (gh_environ G) = Some token"
  then show "scoped cfg (gh_environ G) \<lparr>call_env = gh_env token (gh_environ G), call_args = args, call_stdin = stdin\<rparr>"
    using gh_env_scoped assms unfolding scoped_def gh_call.simps by blast
qed

lemma emits_search: "kind \<in> {''issue'', ''pr''} \<Longrightarrow> emits fl_calls (scoped cfg (gh_environ G)) (search G cfg kind st q)"
  unfolding search_def search_args_def
  by (intro emits_seq emits_ret emits_scoped [where pre = "[kind, ''list'']"]) auto

lemma emits_open_issue: "emits fl_calls (scoped cfg (gh_environ G)) (find_open_issue G cfg sig)"
  unfolding find_open_issue_def open_issue_args_def
  by (intro emits_seq emits_ret emits_scoped [where pre = "[''issue'', ''list'']"]) auto

lemma emits_open_pr: "emits fl_calls (scoped cfg (gh_environ G)) (find_open_pr G cfg sig)"
  unfolding find_open_pr_def by (intro emits_seq emits_ret emits_search) simp

lemma emits_find_closed: "emits fl_calls (scoped cfg (gh_environ G)) (find_recent_closed G cfg sig)"
proof -
  have "emits fl_calls (scoped cfg (gh_environ G)) (closed_since G cfg sig since)" for since
    unfolding closed_since_def by (intro emits_seq emits_ret emits_search) simp
  then show ?thesis
    by (auto simp: emits_def find_recent_closed_def split: option.split)
qed

lemma emits_post:
  "[kind, what] \<in> {[''issue'', ''comment''], [''issue'', ''edit''], [''pr'', ''comment'']}
     \<Longrightarrow> emits fl_calls (scoped cfg (gh_environ G)) (post G cfg kind what n s)"
  unfolding post_def by (intro emits_scoped [where pre = "[kind, what, show_int n]"]) auto

lemma emits_ensure_label: "emits fl_calls (scoped cfg (gh_environ G)) (ensure_label G cfg l)"
proof -
  obtain name colour desc where l: "l = (name, colour, desc)" by (cases l)
  have e: "emits fl_calls (scoped cfg (gh_environ G)) (gh G cfg (label_args cfg l) None)"
    unfolding l label_args_def case_prod_conv
    by (intro emits_scoped [where pre = "[''label'', ''create'', name]"]) auto
  show ?thesis
    unfolding emits_def
  proof
    fix f
    obtain cs where "fl_calls (snd (gh G cfg (label_args cfg l) None f)) = fl_calls f @ cs"
      "list_all (scoped cfg (gh_environ G)) cs"
      using e by (rule emitsE)
    then show "\<exists>cs. fl_calls (snd (ensure_label G cfg l f)) = fl_calls f @ cs \<and> list_all (scoped cfg (gh_environ G)) cs"
      by (auto simp: ensure_label_def Let_def split: prod.split sum.split raised.split)
  qed
qed

lemma emits_create: "emits fl_calls (scoped cfg (gh_environ G)) (create_issue G cfg title body labels)"
proof -
  have "emits fl_calls (scoped cfg (gh_environ G)) (ensure_each G cfg ls)" for ls
    by (induction ls) (auto intro: emits_seq emits_ensure_label)
  moreover have "emits fl_calls (scoped cfg (gh_environ G)) (gh G cfg (create_args cfg title labels) s)" for s
    unfolding create_args_def by (intro emits_scoped [where pre = "[''issue'', ''create'']"]) auto
  ultimately show ?thesis
    unfolding create_issue_def ensure_labels_def by (intro emits_seq emits_ret)
qed

lemma emits_file_new: "emits fl_calls (scoped cfg (gh_environ G)) (file_new G cfg r body now)"
  unfolding emits_def
proof
  fix f
  obtain b f1 where d: "debit G cfg now f = (b, f1)" by fastforce
  let ?m = "titled_issue G cfg r body (if b then [AUTO_LABEL] else [AUTO_LABEL, THROTTLED_LABEL])"
  have "emits fl_calls (scoped cfg (gh_environ G)) ?m"
    unfolding titled_issue_def by (auto intro: emits_create split: option.split)
  then obtain cs where cs: "fl_calls (snd (?m f1)) = fl_calls f1 @ cs" "list_all (scoped cfg (gh_environ G)) cs"
    by (rule emitsE)
  moreover have "fl_calls f1 = fl_calls f"
    using calls_unmoved(1) [of G cfg now f] d by simp
  moreover have "fl_calls (snd (file_new G cfg r body now f)) = fl_calls (snd (?m f1))"
    unfolding file_new_def Let_def d case_prod_conv by (auto split: prod.split sum.split)
  ultimately show "\<exists>cs. fl_calls (snd (file_new G cfg r body now f)) = fl_calls f @ cs
      \<and> list_all (scoped cfg (gh_environ G)) cs" by auto
qed

lemma emits_recurrence: "emits fl_calls (scoped cfg (gh_environ G)) (recurrence G cfg r now row)"
  unfolding recurrence_def Let_def by (auto intro!: emits_seq emits_post)

lemma emits_file_report: "emits fl_calls (scoped cfg (gh_environ G)) (file_report G dumps cfg r now)"
  unfolding file_report_def
  by (auto intro!: emits_seq emits_open_issue emits_open_pr emits_find_closed emits_recurrence emits_file_new emits_post
      split: option.split)

text \<open>C37: the filer fails closed.  Every \<open>gh\<close> process that filing a bug or an agent's report
  starts has the token of the configured variable, or neither \<open>GH_TOKEN\<close> nor \<open>GITHUB_TOKEN\<close>,
  whatever the runner's own environment holds; it lists, comments, edits or creates issues and
  labels or lists and comments pull requests, always on the configured repository.\<close>

theorem gh_runs_scoped:
  "(\<exists>cs. fl_calls (snd (file_bug G sha dumps cfg x phase job counts commit now f)) = fl_calls f @ cs
      \<and> list_all (scoped cfg (gh_environ G)) cs)
   \<and> (\<exists>cs. fl_calls (snd (file_agent_report G cfg title body f)) = fl_calls f @ cs
      \<and> list_all (scoped cfg (gh_environ G)) cs)"
proof -
  have "emits fl_calls (scoped cfg (gh_environ G)) (file_bug G sha dumps cfg x phase job counts commit now)"
    by (auto simp: file_bug_def intro: emits_file_report split: option.split)
  moreover have "emits fl_calls (scoped cfg (gh_environ G)) (file_agent_report G cfg title body)"
    by (simp add: file_agent_report_def emits_create)
  ultimately show ?thesis unfolding emits_def by blast
qed

end
