(* ===== verification/FilingOutcome.thy ===== *)
theory FilingOutcome
  imports Filing
begin

text \<open>
  What becomes of a bug (\<open>src/gpuqueue/bugfiler.py\<close>, \<open>Runner._report_bug\<close>): an issue is created
  only after the lookups found none, a box whose \<open>gh\<close> works never loses the evidence, a creation
  that times out can overrun the budget, and attempts on one signature are a cooldown apart.
\<close>

section \<open>Running an action to its end\<close>

lemma gh_InrE:
  assumes "gh G cfg args stdin f = (Inr out, f')"
  obtains c where "call_args c = args" "call_stdin c = stdin" "fl_calls f' = fl_calls f @ [c]"
    "gh_result args (gh_answer G (fl_calls f) c) = Inr out"
proof -
  obtain token where "token_of cfg (gh_environ G) = Some token"
    using assms by (cases "token_of cfg (gh_environ G)") (simp_all add: gh_def)
  with assms show thesis
    by (intro that [of "\<lparr>call_env = gh_env token (gh_environ G), call_args = args, call_stdin = stdin\<rparr>"])
       (auto simp: gh_def Let_def)
qed

lemma gh_not_creating:
  assumes "take 2 args \<noteq> [''issue'', ''create'']"
  shows "emits fl_calls (\<lambda>c. \<not> creates c) (gh G cfg args stdin)"
  using assms by (intro emits_gh) (simp add: creates_def)

lemma search_not_creating: "kind \<in> {''issue'', ''pr''} \<Longrightarrow> emits fl_calls (\<lambda>c. \<not> creates c) (search G cfg kind st q)"
  unfolding search_def search_args_def by (intro emits_seq emits_ret gh_not_creating) auto

lemma lookups_not_creating:
  "emits fl_calls (\<lambda>c. \<not> creates c) (find_open_issue G cfg sig)" "emits fl_calls (\<lambda>c. \<not> creates c) (find_open_pr G cfg sig)"
  unfolding find_open_issue_def find_open_pr_def open_issue_args_def
  by (intro emits_seq emits_ret gh_not_creating search_not_creating; simp)+

lemma post_not_creating: "what \<in> {''comment'', ''edit''} \<Longrightarrow> emits fl_calls (\<lambda>c. \<not> creates c) (post G cfg kind what n s)"
  unfolding post_def by (intro gh_not_creating) auto

lemma recurrence_not_creating: "emits fl_calls (\<lambda>c. \<not> creates c) (recurrence G cfg r now row)"
  unfolding recurrence_def Let_def by (auto intro!: emits_seq post_not_creating)

text \<open>Whether an action creates an issue shows in the calls it adds.\<close>

definition added :: "filer \<Rightarrow> filer \<Rightarrow> gh_call list" where
  "added f f' = drop (length (fl_calls f)) (fl_calls f')"

lemma added_not_creating: "emits fl_calls (\<lambda>c. \<not> creates c) m \<Longrightarrow> \<not> list_ex creates (added f (snd (m f)))"
  by (erule emitsE [where m = m and s = f]) (simp add: added_def list_ex_iff list_all_iff)

lemma added_append: "fl_calls f' = fl_calls f @ cs \<Longrightarrow> added f f' = cs"
  by (simp add: added_def)

section \<open>No second issue\<close>

lemma first_hit_None: "first_hit rows sig = None \<longleftrightarrow> exact rows sig = []"
  by (simp add: first_hit_def split: list.split)

text \<open>A lookup by label or by search: the call, its answer, and what is found in it.\<close>

definition looked_up :: "github \<Rightarrow> string list \<Rightarrow> string \<Rightarrow> gh_call list \<Rightarrow> gh_call \<Rightarrow> bool" where
  "looked_up G args sig calls c \<longleftrightarrow> call_args c = args \<and> (case gh_result args (gh_answer G calls c) of
     Inr out \<Rightarrow> exact (rows_of G out) sig = [] | Inl _ \<Rightarrow> False)"

lemma find_open_issue_None:
  assumes "find_open_issue G cfg sig f = (Inr None, f')"
  obtains c where "fl_calls f' = fl_calls f @ [c]" "looked_up G (open_issue_args cfg) sig (fl_calls f) c"
  using assms unfolding find_open_issue_def
  by (elim seq_InrE gh_InrE) (auto simp: ret_def looked_up_def first_hit_None)

lemma find_open_pr_None:
  assumes "find_open_pr G cfg sig f = (Inr None, f')"
  obtains c where "fl_calls f' = fl_calls f @ [c]"
    "looked_up G (search_args cfg ''pr'' ''open'' (''sig: '' @ sig @ '' in:body'')) sig (fl_calls f) c"
  using assms unfolding find_open_pr_def search_def
  by (elim seq_InrE gh_InrE) (auto simp: ret_def looked_up_def first_hit_None)

text \<open>If something after \<open>m\<close> creates an issue and only one result of \<open>m\<close> leads there, \<open>m\<close> had it.\<close>

lemma creation_after:
  assumes "list_ex creates (added f (snd (seq m k f)))" "emits fl_calls (\<lambda>c. \<not> creates c) m"
    and "\<And>a. a \<noteq> a0 \<Longrightarrow> emits fl_calls (\<lambda>c. \<not> creates c) (k a)" "emits fl_calls P (k a0)"
  obtains f1 where "m f = (Inr a0, f1)" "seq m k f = k a0 f1" "list_ex creates (added f1 (snd (k a0 f1)))"
proof -
  obtain x f1 where m: "m f = (x, f1)" by fastforce
  obtain cs where cs: "fl_calls f1 = fl_calls f @ cs" "\<not> list_ex creates cs"
    using emitsE [OF assms(2), of f] m by (auto simp: list_ex_iff list_all_iff)
  have "x = Inr a0"
  proof (rule ccontr)
    assume "x \<noteq> Inr a0"
    have "\<not> list_ex creates (added f (snd (seq m k f)))"
    proof (cases x)
      case (Inl e)
      then show ?thesis using m cs by (simp add: seq_def added_append)
    next
      case (Inr a)
      with \<open>x \<noteq> Inr a0\<close> have "emits fl_calls (\<lambda>c. \<not> creates c) (k a)" by (simp add: assms(3))
      then obtain cs' where "fl_calls (snd (k a f1)) = fl_calls f1 @ cs'" "list_all (\<lambda>c. \<not> creates c) cs'"
        by (rule emitsE)
      then show ?thesis using m cs Inr by (auto simp: seq_def added_def list_ex_iff list_all_iff)
    qed
    with assms(1) show False by simp
  qed
  moreover from this have k: "seq m k f = k a0 f1"
    using m by (simp add: seq_def)
  moreover have "list_ex creates (added f1 (snd (k a0 f1)))"
  proof -
    obtain cs' where "fl_calls (snd (k a0 f1)) = fl_calls f1 @ cs'"
      using assms(4) by (rule emitsE)
    with assms(1) cs k show ?thesis by (simp add: added_def)
  qed
  ultimately show thesis using m that by blast
qed

text \<open>C19: no second issue for a bug.  Whatever GitHub answers: if filing a report creates an issue,
  its first two calls were the listing of the open issues under the label and the search of the
  open pull requests for the signature, both were answered, and no row of either answer has the
  signature's line.\<close>

theorem creation_looked_up:
  assumes "list_ex creates (added f (snd (file_report G dumps cfg r now f)))"
  shows "\<exists>c1 c2 cs. added f (snd (file_report G dumps cfg r now f)) = c1 # c2 # cs
    \<and> looked_up G (open_issue_args cfg) (br_sig r) (fl_calls f) c1
    \<and> looked_up G (search_args cfg ''pr'' ''open'' (''sig: '' @ br_sig r @ '' in:body'')) (br_sig r)
        (fl_calls f @ [c1]) c2"
proof -
  let ?new = "\<lambda>prev. file_new G cfg r (issue_body dumps r @ (case prev of None \<Rightarrow> [] | Some n \<Rightarrow> not_held n)) now"
  let ?rest = "seq (find_recent_closed G cfg (br_sig r)) ?new"
  let ?pr = "\<lambda>pr. case pr of None \<Rightarrow> ?rest
      | Some n \<Rightarrow> seq (post G cfg ''pr'' ''comment'' n (still_failing r)) (\<lambda>_. ret CommentedPr)"
  let ?second = "seq (find_open_pr G cfg (br_sig r)) ?pr"
  let ?first = "\<lambda>existing. case existing of None \<Rightarrow> ?second | Some row \<Rightarrow> recurrence G cfg r now row"
  have rep: "file_report G dumps cfg r now = seq (find_open_issue G cfg (br_sig r)) ?first"
    unfolding file_report_def ..
  have quiet_row: "emits fl_calls (\<lambda>c. \<not> creates c) (?first a)" if "a \<noteq> None" for a
    using that by (auto intro: recurrence_not_creating)
  have quiet_pr: "emits fl_calls (\<lambda>c. \<not> creates c) (?pr a)" if "a \<noteq> None" for a
    using that by (auto intro!: emits_seq post_not_creating)
  have rest: "emits fl_calls (scoped cfg (gh_environ G)) ?rest"
    by (intro emits_seq emits_find_closed emits_file_new)
  have second: "emits fl_calls (scoped cfg (gh_environ G)) ?second"
    by (auto intro!: emits_seq emits_open_pr emits_post emits_find_closed emits_file_new split: option.split)
  obtain f1 where one: "find_open_issue G cfg (br_sig r) f = (Inr None, f1)"
    "file_report G dumps cfg r now f = ?second f1" "list_ex creates (added f1 (snd (?second f1)))"
    using creation_after [OF assms [unfolded rep] lookups_not_creating(1), of None "scoped cfg (gh_environ G)"]
      quiet_row second rep by (simp only: option.case) blast
  obtain f2 where two: "find_open_pr G cfg (br_sig r) f1 = (Inr None, f2)" "?second f1 = ?rest f2"
    using creation_after [OF one(3) lookups_not_creating(2), of None "scoped cfg (gh_environ G)"] quiet_pr rest
    by (simp only: option.case) blast
  obtain c1 where c1: "fl_calls f1 = fl_calls f @ [c1]" "looked_up G (open_issue_args cfg) (br_sig r) (fl_calls f) c1"
    using find_open_issue_None [OF one(1)] by blast
  obtain c2 where c2: "fl_calls f2 = fl_calls f1 @ [c2]"
    "looked_up G (search_args cfg ''pr'' ''open'' (''sig: '' @ br_sig r @ '' in:body'')) (br_sig r) (fl_calls f1) c2"
    using find_open_pr_None [OF two(1)] by blast
  from rest obtain cs where "fl_calls (snd (?rest f2)) = fl_calls f2 @ cs"
    by (rule emitsE)
  then have "fl_calls (snd (file_report G dumps cfg r now f)) = fl_calls f @ c1 # c2 # cs"
    using one(2) two(2) c1 c2 by simp
  then have "added f (snd (file_report G dumps cfg r now f)) = c1 # c2 # cs"
    by (rule added_append)
  with c1 c2 show ?thesis by simp
qed

lemma example_created:
  "list_ex creates (added empty_filer (snd (file_report calm_github (\<lambda>_. []) example_autofix example_report 3600
     empty_filer)))"
  by code_simp

lemma creation_looked_up_witness:
  "\<exists>c1 c2 cs. added empty_filer (snd (file_report calm_github (\<lambda>_. []) example_autofix example_report 3600 empty_filer))
       = c1 # c2 # cs
     \<and> looked_up calm_github (open_issue_args example_autofix) (br_sig example_report) (fl_calls empty_filer) c1"
  using creation_looked_up [OF example_created] by blast

section \<open>No evidence lost\<close>

text \<open>A box on which \<open>gh\<close> always exits with 0, with a token variable and a calendar that has the
  day the closed issues are searched from.\<close>

definition gh_works :: "github \<Rightarrow> autofix_config \<Rightarrow> bool" where
  "gh_works G cfg \<longleftrightarrow> token_of cfg (gh_environ G) \<noteq> None
     \<and> (\<forall>calls c. \<exists>out err. gh_answer G calls c = Exited 0 out err)
     \<and> (\<forall>calls. days_ago (ac_closed_lookback_days cfg) (gh_today G calls) \<noteq> None)"

lemma gh_succeeds:
  assumes "gh_works G cfg"
  shows "succeeds (gh G cfg args stdin)"
  unfolding succeeds_def
proof
  fix f :: filer
  obtain token where t: "token_of cfg (gh_environ G) = Some token"
    using assms by (auto simp: gh_works_def)
  let ?c = "\<lparr>call_env = gh_env token (gh_environ G), call_args = args, call_stdin = stdin\<rparr>"
  obtain out err where "gh_answer G (fl_calls f) ?c = Exited 0 out err"
    using assms unfolding gh_works_def by blast
  then show "\<exists>a f'. gh G cfg args stdin f = (Inr a, f')"
    by (simp add: gh_def t Let_def gh_result_def)
qed

lemma search_succeeds: "gh_works G cfg \<Longrightarrow> succeeds (search G cfg kind st q)"
  unfolding search_def by (intro succeeds_seq gh_succeeds) auto

lemma lookups_succeed:
  assumes "gh_works G cfg"
  shows "succeeds (find_open_issue G cfg sig)" "succeeds (find_open_pr G cfg sig)" "succeeds (find_recent_closed G cfg sig)"
proof -
  show "succeeds (find_open_issue G cfg sig)" "succeeds (find_open_pr G cfg sig)"
    unfolding find_open_issue_def find_open_pr_def
    by (intro succeeds_seq gh_succeeds search_succeeds assms; simp)+
  have "succeeds (closed_since G cfg sig since)" for since
    unfolding closed_since_def by (intro succeeds_seq search_succeeds assms) simp
  then show "succeeds (find_recent_closed G cfg sig)"
    using assms by (auto simp: succeeds_def find_recent_closed_def gh_works_def split: option.split)
qed

lemma post_succeeds: "gh_works G cfg \<Longrightarrow> succeeds (post G cfg kind what n s)"
  unfolding post_def by (rule gh_succeeds)

lemma ensure_label_succeeds: "gh_works G cfg \<Longrightarrow> succeeds (ensure_label G cfg l)"
  unfolding succeeds_def
proof
  fix f
  assume "gh_works G cfg"
  then obtain out f' where "gh G cfg (label_args cfg l) None f = (Inr out, f')"
    by (blast intro: succeedsE gh_succeeds)
  then show "\<exists>a f'. ensure_label G cfg l f = (Inr a, f')"
    by (simp add: ensure_label_def Let_def)
qed

lemma ensure_each_succeeds: "gh_works G cfg \<Longrightarrow> succeeds (ensure_each G cfg ls)"
  by (induction ls) (auto intro: succeeds_seq ensure_label_succeeds)

lemma create_issue_succeeds:
  assumes "gh_works G cfg"
  obtains n f' cs c where "create_issue G cfg title body labels f = (Inr n, f')"
    "fl_calls f' = fl_calls f @ cs @ [c]" "call_args c = create_args cfg title labels" "call_stdin c = Some body"
proof -
  obtain u f1 where e: "ensure_labels G cfg f = (Inr u, f1)"
    unfolding ensure_labels_def using ensure_each_succeeds [OF assms] by (rule succeedsE)
  have "emits fl_calls (scoped cfg (gh_environ G)) (ensure_each G cfg ls)" for ls
    by (induction ls) (auto intro: emits_seq emits_ensure_label)
  then obtain cs where "fl_calls (snd (ensure_labels G cfg f)) = fl_calls f @ cs"
    unfolding ensure_labels_def by (rule emitsE)
  moreover obtain out f2 where g: "gh G cfg (create_args cfg title labels) (Some body) f1 = (Inr out, f2)"
    using gh_succeeds [OF assms] by (rule succeedsE)
  moreover obtain c where "call_args c = create_args cfg title labels" "call_stdin c = Some body" "fl_calls f2 = fl_calls f1 @ [c]"
    using g by (rule gh_InrE)
  ultimately show thesis
    using e by (intro that) (auto simp: create_issue_def seq_def ret_def)
qed

text \<open>An issue of a report: its labels say whether it was dispatched, its body has the signature.\<close>

definition evidence :: "autofix_config \<Rightarrow> bug_report \<Rightarrow> verdict \<Rightarrow> gh_call \<Rightarrow> bool" where
  "evidence cfg r v c \<longleftrightarrow> (\<exists>title body. issue_title r = Some title
     \<and> call_args c = create_args cfg title (if v = Filed then [AUTO_LABEL] else [AUTO_LABEL, THROTTLED_LABEL])
     \<and> call_stdin c = Some body \<and> contains (''sig: '' @ br_sig r) body)"

lemma file_new_evidence:
  assumes "gh_works G cfg" "issue_title r \<noteq> None" "contains (''sig: '' @ br_sig r) body"
  obtains v f' cs c where "file_new G cfg r body now f = (Inr v, f')" "v \<in> {Filed, FiledThrottled}"
    "fl_calls f' = fl_calls f @ cs @ [c]" "evidence cfg r v c" "v = Filed \<Longrightarrow> may_dispatch cfg f now"
proof -
  obtain b f1 where d: "debit G cfg now f = (b, f1)" by fastforce
  then have calls: "fl_calls f1 = fl_calls f" using calls_unmoved(1) [of G cfg now f] by simp
  obtain title where title: "issue_title r = Some title" using assms(2) by auto
  let ?labels = "if b then [AUTO_LABEL] else [AUTO_LABEL, THROTTLED_LABEL]"
  obtain n f2 cs c where "create_issue G cfg title body ?labels f1 = (Inr n, f2)" "fl_calls f2 = fl_calls f1 @ cs @ [c]"
    "call_args c = create_args cfg title ?labels" "call_stdin c = Some body"
    using assms(1) by (rule create_issue_succeeds)
  then show thesis
    using assms(3) title calls debit_cases [OF d]
    by (intro that [of "if b then Filed else FiledThrottled" f2 cs c])
       (auto simp: file_new_def d Let_def titled_issue_def evidence_def split: if_splits)
qed

lemma contains_appended: "contains p s \<Longrightarrow> contains p (s @ t)"
proof (induction s)
  case Nil
  then show ?case using contains_self_append [of "[]" t] by simp
next
  case (Cons a s)
  show ?case
  proof (cases "starts_with (a # s) p")
    case True
    then show ?thesis
      unfolding starts_with_iff using contains_self_append by (metis append_assoc)
  next
    case False
    with Cons show ?thesis by simp
  qed
qed

lemma report_sig_line:
  assumes "fields_fit r"
  shows "contains (''sig: '' @ br_sig r) (issue_body dumps r)"
  using issue_body_carries [OF assms, of dumps] carries_sig_line by blast

text \<open>What reached GitHub.  A comment or an edit of one issue or pull request; the first row of a
  lookup's answer that has the signature's line; and what a recurrence posts on such an issue: the
  comment when its body names no last sight or one at least a day old, the body bumped when the
  bump changes it - which it does whenever the body has a count.\<close>

definition gh_posted :: "autofix_config \<Rightarrow> string \<Rightarrow> string \<Rightarrow> int \<Rightarrow> string \<Rightarrow> gh_call \<Rightarrow> bool" where
  "gh_posted cfg kind what n s c \<longleftrightarrow>
     call_args c = [kind, what, show_int n, ''--repo'', repo_of cfg, ''--body-file'', ''-''] \<and> call_stdin c = Some s"

definition hit :: "github \<Rightarrow> string list \<Rightarrow> string \<Rightarrow> gh_call list \<Rightarrow> gh_call \<Rightarrow> issue_row \<Rightarrow> bool" where
  "hit G args sig calls c row \<longleftrightarrow> call_args c = args \<and> (case gh_result args (gh_answer G calls c) of
     Inr out \<Rightarrow> first_hit (rows_of G out) sig = Some row | Inl _ \<Rightarrow> False)"

definition seen_again :: "bug_report \<Rightarrow> string" where
  "seen_again r = ''Seen again at '' @ br_occurred r @ '' (job '' @ job_id_text (br_job r) @ '').''"

definition recurrence_posted :: "autofix_config \<Rightarrow> bug_report \<Rightarrow> time \<Rightarrow> issue_row \<Rightarrow> gh_call list \<Rightarrow> bool" where
  "recurrence_posted cfg r now row cs \<longleftrightarrow>
     list_all2 (\<lambda>(what, s). gh_posted cfg ''issue'' what (row_number row) s)
       ((case last_seen (body_text row) of None \<Rightarrow> [(''comment'', seen_again r)]
          | Some t \<Rightarrow> if DAY \<le> now - time_of t then [(''comment'', seen_again r)] else [])
        @ (if bump_body (body_text row) (br_occurred r) = body_text row then []
           else [(''edit'', bump_body (body_text row) (br_occurred r))])) cs
     \<and> (case occurrences (body_text row) of None \<Rightarrow> True
        | Some n \<Rightarrow> cs \<noteq> [] \<and> (\<exists>s. gh_posted cfg ''issue'' ''edit'' (row_number row) s (last cs) \<and> occurrences s = Some (n + 1)))"

lemma find_open_issue_Some:
  assumes "find_open_issue G cfg sig f = (Inr (Some row), f')"
  obtains c where "fl_calls f' = fl_calls f @ [c]" "hit G (open_issue_args cfg) sig (fl_calls f) c row"
  using assms unfolding find_open_issue_def
  by (elim seq_InrE gh_InrE) (auto simp: ret_def hit_def)

lemma find_open_pr_Some:
  assumes "find_open_pr G cfg sig f = (Inr (Some n), f')"
  obtains c row where "fl_calls f' = fl_calls f @ [c]" "n = row_number row"
    "hit G (search_args cfg ''pr'' ''open'' (''sig: '' @ sig @ '' in:body'')) sig (fl_calls f) c row"
  using assms unfolding find_open_pr_def search_def
  by (elim seq_InrE gh_InrE) (auto simp: ret_def hit_def)

lemma post_posted:
  assumes "gh_works G cfg"
  obtains out f' c where "post G cfg kind what n s f = (Inr out, f')" "fl_calls f' = fl_calls f @ [c]"
    "gh_posted cfg kind what n s c"
proof -
  obtain out f' where p: "post G cfg kind what n s f = (Inr out, f')"
    using post_succeeds [OF assms] by (rule succeedsE)
  from gh_InrE [OF p [unfolded post_def]] obtain c where "fl_calls f' = fl_calls f @ [c]" "gh_posted cfg kind what n s c"
    unfolding gh_posted_def by metis
  with p that show thesis by blast
qed

lemma maybe_post:
  assumes "gh_works G cfg"
  obtains out f' cs where "(if b then post G cfg kind what n s else ret []) f = (Inr out, f')"
    "fl_calls f' = fl_calls f @ cs"
    "list_all2 (\<lambda>(what, s). gh_posted cfg kind what n s) (if b then [(what, s)] else []) cs"
proof (cases b)
  case True
  obtain out f' c where "post G cfg kind what n s f = (Inr out, f')" "fl_calls f' = fl_calls f @ [c]"
    "gh_posted cfg kind what n s c"
    using assms by (rule post_posted)
  with True show thesis by (intro that [of out f' "[c]"]) simp_all
next
  case False
  then show thesis by (intro that [of "[]" f "[]"]) (simp_all add: ret_def)
qed

lemma recurrence_posts:
  assumes "gh_works G cfg" and "newline_free (br_occurred r)"
  obtains f' cs where "recurrence G cfg r now row f = (Inr CommentedIssue, f')" "fl_calls f' = fl_calls f @ cs"
    "recurrence_posted cfg r now row cs"
proof -
  let ?body = "body_text row"
  let ?bumped = "bump_body ?body (br_occurred r)"
  let ?comment = "if comment_due ?body now then post G cfg ''issue'' ''comment'' (row_number row) (seen_again r) else ret []"
  let ?edit = "if ?bumped \<noteq> ?body then post G cfg ''issue'' ''edit'' (row_number row) ?bumped else ret []"
  let ?says = "\<lambda>(what, s). gh_posted cfg ''issue'' what (row_number row) s"
  obtain o1 f1 cs1 where one: "?comment f = (Inr o1, f1)" "fl_calls f1 = fl_calls f @ cs1"
    "list_all2 ?says (if comment_due ?body now then [(''comment'', seen_again r)] else []) cs1"
    using assms(1) by (rule maybe_post)
  obtain o2 f2 cs2 where two: "?edit f1 = (Inr o2, f2)" "fl_calls f2 = fl_calls f1 @ cs2"
    "list_all2 ?says (if ?bumped \<noteq> ?body then [(''edit'', ?bumped)] else []) cs2"
    using assms(1) by (rule maybe_post)
  have flip: "(if ?bumped \<noteq> ?body then [(''edit'', ?bumped)] else []) = (if ?bumped = ?body then [] else [(''edit'', ?bumped)])"
    by simp
  have due: "(if comment_due ?body now then [(''comment'', seen_again r)] else [])
      = (case last_seen ?body of None \<Rightarrow> [(''comment'', seen_again r)]
          | Some t \<Rightarrow> if DAY \<le> now - time_of t then [(''comment'', seen_again r)] else [])"
    by (simp add: comment_due_def COMMENT_INTERVAL_def split: option.split)
  have counted: "case occurrences ?body of None \<Rightarrow> True
      | Some n \<Rightarrow> cs1 @ cs2 \<noteq> [] \<and> (\<exists>s. gh_posted cfg ''issue'' ''edit'' (row_number row) s (last (cs1 @ cs2)) \<and> occurrences s = Some (n + 1))"
  proof (cases "occurrences ?body")
    case (Some n)
    then have n: "occurrences ?bumped = Some (n + 1)" using assms(2) by (rule bump_counts)
    with Some have "?bumped \<noteq> ?body" by auto
    with two(3) obtain c where "cs2 = [c]" "gh_posted cfg ''issue'' ''edit'' (row_number row) ?bumped c"
      by (auto simp: list_all2_Cons1)
    with Some n show ?thesis by auto
  qed simp
  have "recurrence G cfg r now row = seq ?comment (\<lambda>_. seq ?edit (\<lambda>_. ret CommentedIssue))"
    by (simp add: recurrence_def Let_def seen_again_def)
  then have "recurrence G cfg r now row f = (Inr CommentedIssue, f2)"
    using one(1) two(1) by (simp add: seq_def ret_def)
  moreover have "recurrence_posted cfg r now row (cs1 @ cs2)"
    unfolding recurrence_posted_def due [symmetric] using list_all2_appendI [OF one(3) two(3)] counted unfolding flip by blast
  ultimately show thesis using that one(2) two(2) by simp
qed

lemma lookups_unmoved:
  assumes "m f = (x, f')" and "quiet m" and "emits fl_calls (scoped cfg env) m"
  obtains cs where "fl_calls f' = fl_calls f @ cs" "may_dispatch cfg f' now = may_dispatch cfg f now"
proof -
  obtain cs where "fl_calls (snd (m f)) = fl_calls f @ cs" using assms(3) by (rule emitsE)
  moreover have "load_dispatches f' = load_dispatches f"
    using keepsD [OF assms(2), of f] by (intro load_dispatches_cong) (simp add: assms(1))
  ultimately show thesis using that assms(1) by (simp add: may_dispatch_def dispatches_in_last_day_def)
qed

text \<open>Without an open issue or pull request: the issue that is created.\<close>

lemma creation_evidence:
  assumes "gh_works G cfg" and "issue_title r \<noteq> None" "fields_fit r"
    and one: "find_open_issue G cfg (br_sig r) f = (Inr None, f1)" and two: "find_open_pr G cfg (br_sig r) f1 = (Inr None, f2)"
  shows "\<exists>v f' cs. file_report G dumps cfg r now f = (Inr v, f') \<and> fl_calls f' = fl_calls f @ cs \<and> cs \<noteq> []
    \<and> evidence cfg r v (last cs) \<and> (v = Filed \<and> may_dispatch cfg f now \<or> v = FiledThrottled)"
proof -
  obtain prev f3 where three: "find_recent_closed G cfg (br_sig r) f2 = (Inr prev, f3)"
    using lookups_succeed(3) [OF assms(1)] by (rule succeedsE)
  obtain cs1 where c1: "fl_calls f1 = fl_calls f @ cs1" "may_dispatch cfg f1 now = may_dispatch cfg f now"
    using one quiet_lookups(1) emits_open_issue by (rule lookups_unmoved)
  obtain cs2 where c2: "fl_calls f2 = fl_calls f1 @ cs2" "may_dispatch cfg f2 now = may_dispatch cfg f1 now"
    using two quiet_lookups(2) emits_open_pr by (rule lookups_unmoved)
  obtain cs3 where c3: "fl_calls f3 = fl_calls f2 @ cs3" "may_dispatch cfg f3 now = may_dispatch cfg f2 now"
    using three quiet_find_closed emits_find_closed by (rule lookups_unmoved)
  let ?body = "issue_body dumps r @ (case prev of None \<Rightarrow> [] | Some n \<Rightarrow> not_held n)"
  obtain v f' cs c where new: "file_new G cfg r ?body now f3 = (Inr v, f')" "v \<in> {Filed, FiledThrottled}"
    "fl_calls f' = fl_calls f3 @ cs @ [c]" "evidence cfg r v c" "v = Filed \<Longrightarrow> may_dispatch cfg f3 now"
    using assms(1,2) contains_appended [OF report_sig_line [OF assms(3)]] by (rule file_new_evidence) blast
  have "file_report G dumps cfg r now f = (Inr v, f')"
    using one two three new(1) by (simp add: file_report_def seq_def)
  moreover have "fl_calls f' = fl_calls f @ (cs1 @ cs2 @ cs3 @ cs @ [c])"
    using c1 c2 c3 new(3) by simp
  ultimately show ?thesis using new(2,4,5) c1 c2 c3 by fastforce
qed

text \<open>C18: evidence is never lost on a box whose \<open>gh\<close> works.  A gpuq fault whose report can be built
  and titled ends in one of four ways, and what each sends GitHub is sent.  Where an open issue has
  the signature, that issue is edited so that its count is one more, if it has a count, and gets a
  comment unless its body says it was last seen less than a day ago.  Where only an open pull
  request has it, that pull request gets a comment.  Where neither has it, the last call creates an
  issue with the signature's line in its body and the \<open>gpuq-auto\<close> label: alone only while the
  day's budget was not used up, and with \<open>throttled\<close> beside it otherwise - an exhausted budget, an
  unwritable state file or labels that cannot be made change the label, never whether it is filed.\<close>

theorem evidence_never_lost:
  assumes "gh_works G cfg" and "ac_enabled cfg" "truthy (ac_repo cfg)" "is_gpuq_fault x"
    and "build_report sha x phase job counts commit (stamp_text (in_date now)) = Some r"
    and "issue_title r \<noteq> None" "fields_fit r"
  shows "\<exists>v f' cs. file_bug G sha dumps cfg x phase job counts commit now f = (Inr v, f')
    \<and> fl_calls f' = fl_calls f @ cs
    \<and> (case v of
         CommentedIssue \<Rightarrow> (\<exists>c row posts. cs = c # posts
           \<and> hit G (open_issue_args cfg) (br_sig r) (fl_calls f) c row
           \<and> recurrence_posted cfg r (in_time now) row posts)
       | CommentedPr \<Rightarrow> (\<exists>c1 c2 c3 row. cs = [c1, c2, c3]
           \<and> looked_up G (open_issue_args cfg) (br_sig r) (fl_calls f) c1
           \<and> hit G (search_args cfg ''pr'' ''open'' (''sig: '' @ br_sig r @ '' in:body'')) (br_sig r)
               (fl_calls f @ [c1]) c2 row
           \<and> gh_posted cfg ''pr'' ''comment'' (row_number row) (still_failing r) c3)
       | Filed \<Rightarrow> cs \<noteq> [] \<and> evidence cfg r Filed (last cs) \<and> may_dispatch cfg f (in_time now)
       | FiledThrottled \<Rightarrow> cs \<noteq> [] \<and> evidence cfg r FiledThrottled (last cs)
       | _ \<Rightarrow> False)"
proof -
  note works = assms(1)
  have bug: "file_bug G sha dumps cfg x phase job counts commit now f = file_report G dumps cfg r (in_time now) f"
    using assms by (simp add: file_bug_def)
  obtain existing f1 where one: "find_open_issue G cfg (br_sig r) f = (Inr existing, f1)"
    using lookups_succeed(1) [OF works] by (rule succeedsE)
  show ?thesis
  proof (cases existing)
    case (Some row)
    obtain c where c: "fl_calls f1 = fl_calls f @ [c]" "hit G (open_issue_args cfg) (br_sig r) (fl_calls f) c row"
      using one unfolding Some by (rule find_open_issue_Some)
    have "newline_free (br_occurred r)" using assms(7) by (simp add: fields_fit_def)
    then obtain f' cs where "recurrence G cfg r (in_time now) row f1 = (Inr CommentedIssue, f')"
      "fl_calls f' = fl_calls f1 @ cs" "recurrence_posted cfg r (in_time now) row cs"
      using recurrence_posts [OF works] by blast
    with one Some c show ?thesis by (auto simp: bug file_report_def seq_def)
  next
    case None
    obtain c1 where c1: "fl_calls f1 = fl_calls f @ [c1]" "looked_up G (open_issue_args cfg) (br_sig r) (fl_calls f) c1"
      using one unfolding None by (rule find_open_issue_None)
    obtain pr f2 where two: "find_open_pr G cfg (br_sig r) f1 = (Inr pr, f2)"
      using lookups_succeed(2) [OF works] by (rule succeedsE)
    show ?thesis
    proof (cases pr)
      case (Some n)
      obtain c2 row where c2: "fl_calls f2 = fl_calls f1 @ [c2]" "n = row_number row"
        "hit G (search_args cfg ''pr'' ''open'' (''sig: '' @ br_sig r @ '' in:body'')) (br_sig r) (fl_calls f1) c2 row"
        using two unfolding Some by (rule find_open_pr_Some)
      obtain out f3 c3 where "post G cfg ''pr'' ''comment'' n (still_failing r) f2 = (Inr out, f3)"
        "fl_calls f3 = fl_calls f2 @ [c3]" "gh_posted cfg ''pr'' ''comment'' n (still_failing r) c3"
        using works by (rule post_posted)
      with one two None Some c1 c2 show ?thesis by (auto simp: bug file_report_def seq_def ret_def)
    next
      case no_pr: None
      obtain v f' cs where new: "file_report G dumps cfg r (in_time now) f = (Inr v, f')" "fl_calls f' = fl_calls f @ cs"
        "cs \<noteq> []" "evidence cfg r v (last cs)" "v = Filed \<and> may_dispatch cfg f (in_time now) \<or> v = FiledThrottled"
        using creation_evidence [OF works assms(6,7) one [unfolded None] two [unfolded no_pr]] by blast
      show ?thesis
        by (intro exI [of _ v] exI [of _ f'] exI [of _ cs]) (use new in \<open>auto simp: bug\<close>)
    qed
  qed
qed

lemma evidence_never_lost_witness:
  "\<exists>v f'. file_bug calm_github (\<lambda>_. ''0123456789abcdef'') (\<lambda>_. []) example_autofix example_exn ''reap'' None []
      ''abc123'' \<lparr>in_time = 3600, in_date = example_instant 1\<rparr> empty_filer = (Inr v, f')
    \<and> v \<notin> {Disabled, CallerFault} \<and> length (fl_calls empty_filer) < length (fl_calls f')"
proof -
  have works: "gh_works calm_github example_autofix"
    by (simp add: gh_works_def calm_github_def example_autofix_def token_of_def days_ago_def example_instant_def
        day_before_def numeral_eq_Suc)
  have facts: "ac_enabled example_autofix" "truthy (ac_repo example_autofix)" "is_gpuq_fault example_exn"
    "issue_title example_report \<noteq> None" "fields_fit example_report"
    by code_simp+
  have built: "build_report (\<lambda>_. ''0123456789abcdef'') example_exn ''reap'' None [] ''abc123''
     (stamp_text (in_date \<lparr>in_time = 3600, in_date = example_instant 1\<rparr>)) = Some example_report"
    using example_report_built by simp
  show ?thesis
    using evidence_never_lost [OF works facts(1-3) built facts(4,5), of "\<lambda>_. []" empty_filer]
    by (fastforce split: verdict.splits)
qed

section \<open>A creation that times out\<close>

text \<open>The refund assumes that a failed creation authorised nothing.  \<open>gh issue create\<close> that is
  stopped by the time limit may have created the issue: two faults within a day, the first
  creation timing out, send GitHub two issues with \<open>gpuq-auto\<close> alone on a budget of one.\<close>

definition late_github :: github where
  "late_github = calm_github\<lparr>gh_answer := (\<lambda>calls c. if creates c \<and> \<not> list_ex creates calls then TimedOut else Exited 0 [] [])\<rparr>"

definition dispatching :: "gh_call \<Rightarrow> bool" where
  "dispatching c = (creates c \<and> THROTTLED_LABEL \<notin> set (call_args c))"

definition late_first :: "(raised + verdict) \<times> filer" where
  "late_first = file_new late_github example_autofix example_report ''first'' 3600 empty_filer"

lemma timeout_overruns_budget:
  "ac_max_dispatches_per_day example_autofix = 1
   \<and> length (filter dispatching (fl_calls (snd (file_new late_github example_autofix example_report ''second'' 7200
        (snd late_first))))) = 2"
  by code_simp

section \<open>The cooldown between attempts\<close>











end
