(* ===== verification/GitOps.thy ===== *)
theory GitOps
  imports Supervisor Actions
begin

text \<open>
  \<open>src/gpuqueue/git_ops.py\<close> and the git work of the runner (\<open>Runner._prepare_workdir\<close>,
  \<open>Runner._collect_artifacts\<close>, \<open>Runner._remove_worktree_at\<close>): the command lines that are run and the
  files that are copied, in order.  What git answers and what exists is an argument that may
  depend on every step before.
\<close>

section \<open>Steps and their answers\<close>

datatype git_step = Git "string list" "path option" | MakeDirs path | CopyTree path path
  | CopyFile path path | RemoveTree path

text \<open>\<open>gw_git\<close> is the exit code and output (\<open>None\<close>: git could not be started), \<open>gw_fails\<close> whether a
  file operation raises.\<close>

record git_world =
  gw_git :: "git_step list \<Rightarrow> git_step \<Rightarrow> (int \<times> string) option"
  gw_exists :: "git_step list \<Rightarrow> path \<Rightarrow> bool"
  gw_is_dir :: "git_step list \<Rightarrow> path \<Rightarrow> bool"
  gw_fails :: "git_step list \<Rightarrow> git_step \<Rightarrow> bool"

datatype git_raise = GitError "string list" int | CommitMissing string | NotProduced string | OtherError

type_synonym 'a git_act = "(git_step list, git_raise, 'a) action"

definition git :: "git_world \<Rightarrow> string list \<Rightarrow> path option \<Rightarrow> bool \<Rightarrow> string git_act" where
  "git W args cwd must steps = (let st = Git args cwd in
     (case gw_git W steps st of None \<Rightarrow> Inl OtherError
      | Some (rc, out) \<Rightarrow> if must \<and> rc \<noteq> 0 then Inl (GitError args rc) else Inr out,
      steps @ [st]))"

definition file_op :: "git_world \<Rightarrow> git_step \<Rightarrow> unit git_act" where
  "file_op W st steps = (if gw_fails W steps st then Inl OtherError else Inr (), steps @ [st])"

definition exists_now :: "git_world \<Rightarrow> path \<Rightarrow> bool git_act" where
  "exists_now W p steps = (Inr (gw_exists W steps p), steps)"

definition is_dir_now :: "git_world \<Rightarrow> path \<Rightarrow> bool git_act" where
  "is_dir_now W p steps = (Inr (gw_is_dir W steps p), steps)"

text \<open>An argument that is not a string is a TypeError.\<close>

definition arg_text :: "pyval \<Rightarrow> string git_act" where
  "arg_text v = (case v of PStr s \<Rightarrow> ret s | _ \<Rightarrow> raise_act OtherError)"

text \<open>\<open>p / q\<close>: an absolute right side replaces the left.\<close>

definition path_join :: "path \<Rightarrow> path \<Rightarrow> path" where
  "path_join p q = (if q \<noteq> [] \<and> hd q = ''/'' then q else p @ q)"

section \<open>Checkouts and work trees\<close>

definition clone_if_missing :: "git_world \<Rightarrow> pyval \<Rightarrow> path \<Rightarrow> path git_act" where
  "clone_if_missing W remote path =
     seq (exists_now W (path @ [''.git''])) (\<lambda>there. if there then ret path else
     seq (file_op W (MakeDirs (butlast path))) (\<lambda>_.
     seq (arg_text remote) (\<lambda>r.
     seq (git W [''clone'', r, path_text path] None True) (\<lambda>_. ret path))))"

definition ensure_checkout :: "git_world \<Rightarrow> project_config \<Rightarrow> path git_act" where
  "ensure_checkout W p = clone_if_missing W (pc_remote p) (pc_checkout p)"

text \<open>\<open>shutil.rmtree(_, ignore_errors=True)\<close>.\<close>

definition remove_tree :: "path \<Rightarrow> unit git_act" where
  "remove_tree d steps = (Inr (), steps @ [RemoveTree d])"

definition remove_worktree :: "git_world \<Rightarrow> path \<Rightarrow> path \<Rightarrow> unit git_act" where
  "remove_worktree W checkout dest =
     seq (git W [''worktree'', ''remove'', ''--force'', path_text dest] (Some checkout) False) (\<lambda>_.
     seq (exists_now W dest) (\<lambda>left_over.
     seq (if left_over then remove_tree dest else ret ()) (\<lambda>_.
     seq (git W [''worktree'', ''prune''] (Some checkout) False) (\<lambda>_. ret ()))))"

definition add_worktree :: "git_world \<Rightarrow> path \<Rightarrow> path \<Rightarrow> string \<Rightarrow> path git_act" where
  "add_worktree W checkout dest commit =
     seq (exists_now W dest) (\<lambda>there.
     seq (if there then remove_worktree W checkout dest else ret ()) (\<lambda>_.
     seq (file_op W (MakeDirs (butlast dest))) (\<lambda>_.
     seq (git W [''worktree'', ''add'', ''--detach'', path_text dest, commit] (Some checkout) True) (\<lambda>_.
     ret dest))))"

definition publishes_to_results :: "project_config \<Rightarrow> bool" where
  "publishes_to_results p = (truthy (pc_results_remote p) \<and> pc_results_checkout p \<noteq> None)"

definition artifact_paths :: "project_config \<Rightarrow> string option \<Rightarrow> string list \<Rightarrow> string list" where
  "artifact_paths p job rels = (if \<not> publishes_to_results p then rels
     else (let prefix = path_join (path_parts (pc_name p))
             (path_parts (case job of None \<Rightarrow> ''unknown'' | Some j \<Rightarrow> if j = [] then ''unknown'' else j))
           in map (\<lambda>r. path_text (path_join prefix (path_parts r))) rels))"

definition ensure_results_checkout :: "git_world \<Rightarrow> project_config \<Rightarrow> path option git_act" where
  "ensure_results_checkout W p =
     (if \<not> publishes_to_results p then ret None
      else (case pc_results_checkout p of None \<Rightarrow> ret None
        | Some path \<Rightarrow> seq (clone_if_missing W (pc_results_remote p) path) (\<lambda>c. ret (Some c))))"

section \<open>Publishing artifacts\<close>

definition IDENTITY :: "string list" where
  "IDENTITY = [''-c'', ''user.email=gpuq@localhost'', ''-c'', ''user.name=gpuq-runner'']"

definition copy_one :: "git_world \<Rightarrow> path \<Rightarrow> path \<Rightarrow> string \<Rightarrow> unit git_act" where
  "copy_one W checkout src rel =
     (let dst = path_join checkout (path_parts rel) in
      seq (file_op W (MakeDirs (butlast dst))) (\<lambda>_.
      seq (is_dir_now W src) (\<lambda>dir.
      seq (file_op W (if dir then CopyTree src dst else CopyFile src dst)) (\<lambda>_.
      seq (git W [''add'', ''--'', rel] (Some checkout) True) (\<lambda>_. ret ())))))"

fun copy_all :: "git_world \<Rightarrow> path \<Rightarrow> (path \<times> string) list \<Rightarrow> unit git_act" where
  "copy_all W checkout [] = ret ()"
| "copy_all W checkout ((src, rel) # xs) = seq (copy_one W checkout src rel) (\<lambda>_. copy_all W checkout xs)"

text \<open>Where the artifacts go: the checkout, its branch, and whether to push.\<close>

definition destination :: "git_world \<Rightarrow> project_config \<Rightarrow> string \<Rightarrow> (path \<times> pyval \<times> bool) git_act" where
  "destination W p branch = seq (ensure_results_checkout W p) (\<lambda>results. case results of
       Some c \<Rightarrow> ret (c, pc_results_branch p, True)
     | None \<Rightarrow> seq (ensure_checkout W p) (\<lambda>c. ret (c, PStr branch, pc_push p)))"

definition commit_staged :: "git_world \<Rightarrow> path \<Rightarrow> string \<Rightarrow> bool \<Rightarrow> string \<Rightarrow> string option git_act" where
  "commit_staged W checkout branch push message =
     seq (git W [''status'', ''--porcelain''] (Some checkout) True) (\<lambda>changed.
     if strip changed = [] then ret None else
     seq (git W (IDENTITY @ [''commit'', ''-qm'', message]) (Some checkout) True) (\<lambda>_.
     seq (git W [''rev-parse'', ''HEAD''] (Some checkout) True) (\<lambda>sha.
     seq (if push then git W [''push'', ''origin'', ''HEAD:'' @ branch] (Some checkout) False else ret []) (\<lambda>_.
     ret (Some (strip sha))))))"

definition commit_artifacts :: "git_world \<Rightarrow> project_config \<Rightarrow> string \<Rightarrow> path list \<Rightarrow> string list \<Rightarrow> string
    \<Rightarrow> string option \<Rightarrow> string option git_act" where
  "commit_artifacts W p branch srcs rels message job =
     seq (destination W p branch) (\<lambda>(checkout, b, push).
     seq (arg_text b) (\<lambda>bt.
     seq (git W [''checkout'', ''-q'', bt] (Some checkout) False) (\<lambda>_.
     seq (copy_all W checkout (zip srcs (artifact_paths p job rels))) (\<lambda>_.
     commit_staged W checkout bt push message))))"

section \<open>The runner's git work\<close>

definition prepare_workdir :: "git_world \<Rightarrow> path \<Rightarrow> jobspec \<Rightarrow> project_config \<Rightarrow> path git_act" where
  "prepare_workdir W qroot s p =
     seq (ensure_checkout W p) (\<lambda>checkout.
     seq (git W [''fetch'', ''--quiet'', ''origin''] (Some checkout) False) (\<lambda>_.
     seq (rescue (git W [''cat-file'', ''-e'', js_commit s @ ''^{commit}''] (Some checkout) True)
            (\<lambda>e. case e of GitError _ _ \<Rightarrow> raise_act (CommitMissing (js_commit s)) | _ \<Rightarrow> raise_act e)) (\<lambda>_.
     add_worktree W checkout (work_dir qroot (js_id s)) (js_commit s))))"

definition remove_worktree_at :: "git_world \<Rightarrow> project_config \<Rightarrow> path \<Rightarrow> unit git_act" where
  "remove_worktree_at W p dest = rescue (remove_worktree W (pc_checkout p) dest)
     (\<lambda>_. remove_tree dest)"

fun find_sources :: "git_world \<Rightarrow> path \<Rightarrow> string list \<Rightarrow> path list git_act" where
  "find_sources W workdir [] = ret []"
| "find_sources W workdir (rel # rels) =
     seq (exists_now W (path_join workdir (path_parts rel))) (\<lambda>there.
     if \<not> there then raise_act (NotProduced rel)
     else seq (find_sources W workdir rels) (\<lambda>srcs. ret (path_join workdir (path_parts rel) # srcs)))"

definition collect_artifacts :: "git_world \<Rightarrow> jobspec \<Rightarrow> project_config \<Rightarrow> path \<Rightarrow> unit git_act" where
  "collect_artifacts W s p workdir =
     (if js_artifacts s = [] then ret ()
      else seq (find_sources W workdir (js_artifacts s)) (\<lambda>srcs.
        if pc_commit_artifacts p
        then seq (commit_artifacts W p (js_branch s) srcs (js_artifacts s) (''artifacts: '' @ js_id s) (Some (js_id s)))
               (\<lambda>_. ret ())
        else ret ()))"

section \<open>The collection the supervisor relies on\<close>

text \<open>The supervisor's settlement (theory Supervisor) asks only which artifact is missing and what
  committing raises; this is what the git work answers to that.\<close>

definition git_failure :: "git_raise \<Rightarrow> failure" where
  "git_failure e = (case e of
      NotProduced rel \<Rightarrow> ArtifactMissing rel
    | GitError args rc \<Rightarrow> ArtifactError (''git '' @ join '' '' args @ '' failed ('' @ show_int rc @ '')'')
    | CommitMissing c \<Rightarrow> ArtifactError c
    | OtherError \<Rightarrow> ArtifactError [])"

text \<open>What committing the artifacts of a job raises, from a given moment on.\<close>

definition commit_error :: "git_world \<Rightarrow> git_step list \<Rightarrow> jobspec \<Rightarrow> project_config \<Rightarrow> path \<Rightarrow> string option" where
  "commit_error W steps s p workdir =
     (case commit_artifacts W p (js_branch s) (map (\<lambda>r. path_join workdir (path_parts r)) (js_artifacts s))
        (js_artifacts s) (''artifacts: '' @ js_id s) (Some (js_id s)) steps of
        (Inr _, _) \<Rightarrow> None
      | (Inl e, _) \<Rightarrow> (case git_failure e of ArtifactError t \<Rightarrow> Some t | _ \<Rightarrow> None))"

text \<open>Looking for the sources runs no step.\<close>

lemma find_sources_result:
  "find_sources W workdir rels steps =
     (case find (\<lambda>r. \<not> gw_exists W steps (path_join workdir (path_parts r))) rels of
        Some r \<Rightarrow> (Inl (NotProduced r), steps)
      | None \<Rightarrow> (Inr (map (\<lambda>r. path_join workdir (path_parts r)) rels), steps))"
  by (induction rels)
     (auto simp: ret_def seq_def exists_now_def raise_act_def split: option.splits)

end
