(* ===== verification/GitOutcome.thy ===== *)
theory GitOutcome
  imports GitOps Texts
begin

text \<open>
  What the git work promises whatever git answers (\<open>src/gpuqueue/git_ops.py\<close>): artifacts land
  inside the one checkout that receives them and are pushed only when configured, in a results
  repository no two jobs share a path, a commit has every declared artifact, a work tree is
  made only at a commit that is there, and the supervisor's abstract collection is this one.
\<close>

section \<open>Which checkout is touched\<close>

definition receiver :: "project_config \<Rightarrow> path" where
  "receiver p = (if publishes_to_results p then the (pc_results_checkout p) else pc_checkout p)"

definition pushes_for :: "project_config \<Rightarrow> bool" where
  "pushes_for p = (publishes_to_results p \<or> pc_push p)"

definition inside :: "path \<Rightarrow> path \<Rightarrow> bool" where
  "inside d q \<longleftrightarrow> (\<exists>r. q = d @ r \<and> ''..'' \<notin> set r)"

definition proper_step :: "project_config \<Rightarrow> path \<Rightarrow> git_step \<Rightarrow> bool" where
  "proper_step p workdir st = (case st of
      Git args cwd \<Rightarrow> (case cwd of None \<Rightarrow> take 1 args = [''clone''] | Some c \<Rightarrow> c = receiver p)
        \<and> (''push'' \<in> set (take 1 args) \<longrightarrow> pushes_for p)
    | MakeDirs d \<Rightarrow> True
    | CopyTree src dst \<Rightarrow> inside workdir src \<and> inside (receiver p) dst
    | CopyFile src dst \<Rightarrow> inside workdir src \<and> inside (receiver p) dst
    | RemoveTree d \<Rightarrow> False)"

lemma emits_git: "P (Git args cwd) \<Longrightarrow> emits id P (git W args cwd must)"
  by (simp add: emits_def git_def Let_def)

lemma emits_file_op: "P st \<Longrightarrow> emits id P (file_op W st)"
  by (simp add: emits_def file_op_def)

lemma emits_look [simp]: "emits id P (exists_now W p)" "emits id P (is_dir_now W p)"
  by (simp_all add: emits_def exists_now_def is_dir_now_def)

lemma emits_remove_tree: "P (RemoveTree d) \<Longrightarrow> emits id P (remove_tree d)"
  by (simp add: emits_def remove_tree_def)

lemma emits_arg_text [simp]: "emits id P (arg_text v)"
  by (simp add: arg_text_def split: pyval.split)

lemma emits_clone:
  assumes "\<And>r. P (Git [''clone'', r, path_text path] None)" "P (MakeDirs (butlast path))"
  shows "emits id P (clone_if_missing W remote path)"
  unfolding clone_if_missing_def
  by (auto intro!: emits_seq emits_git emits_file_op assms)

lemma clone_result: "clone_if_missing W remote path steps = (Inr c, steps') \<Longrightarrow> c = path"
  unfolding clone_if_missing_def
  by (auto elim!: seq_InrE simp: ret_def split: if_splits)

lemma destination_result:
  assumes "destination W p branch steps = (Inr (c, b, push), steps')"
  shows "c = receiver p" "push \<longleftrightarrow> pushes_for p"
    "b = (if publishes_to_results p then pc_results_branch p else PStr branch)"
proof -
  obtain res s1 where one: "ensure_results_checkout W p steps = (Inr res, s1)"
    "(case res of Some c \<Rightarrow> ret (c, pc_results_branch p, True)
       | None \<Rightarrow> seq (ensure_checkout W p) (\<lambda>c. ret (c, PStr branch, pc_push p))) s1 = (Inr (c, b, push), steps')"
    using assms unfolding destination_def by (rule seq_InrE)
  show "c = receiver p" "push \<longleftrightarrow> pushes_for p"
    "b = (if publishes_to_results p then pc_results_branch p else PStr branch)"
  proof (atomize (full), cases "publishes_to_results p")
    case True
    then obtain path where path: "pc_results_checkout p = Some path" by (auto simp: publishes_to_results_def)
    then have "res = Some path"
      using one(1) True unfolding ensure_results_checkout_def
      by (auto elim!: seq_InrE simp: ret_def dest: clone_result)
    with one(2) True path show "c = receiver p \<and> push = pushes_for p \<and> b = (if publishes_to_results p then pc_results_branch p else PStr branch)"
      by (simp add: ret_def receiver_def pushes_for_def)
  next
    case False
    then have "res = None" using one(1) by (simp add: ensure_results_checkout_def ret_def)
    with one(2) False show "c = receiver p \<and> push = pushes_for p \<and> b = (if publishes_to_results p then pc_results_branch p else PStr branch)"
      by (auto elim!: seq_InrE simp: ret_def ensure_checkout_def receiver_def pushes_for_def dest: clone_result)
  qed
qed

lemma emits_destination: "emits id (proper_step p workdir) (destination W p branch)"
  unfolding destination_def ensure_results_checkout_def ensure_checkout_def
  by (auto intro!: emits_seq emits_clone simp: proper_step_def split: option.split)

text \<open>An action that follows another only sees the results the other can have.\<close>

lemma emits_seq_result:
  assumes "emits trace P m" "\<And>a s s'. m s = (Inr a, s') \<Longrightarrow> emits trace P (k a)"
  shows "emits trace P (seq m k)"
  unfolding emits_def
proof
  fix s
  obtain r s1 where m: "m s = (r, s1)" by fastforce
  obtain cs where cs: "trace s1 = trace s @ cs" "list_all P cs"
    using emitsE [OF assms(1), of s] m by auto
  show "\<exists>cs. trace (snd (seq m k s)) = trace s @ cs \<and> list_all P cs"
  proof (cases r)
    case (Inl e)
    then show ?thesis using cs by (simp add: seq_def m)
  next
    case (Inr a)
    then obtain cs' where "trace (snd (k a s1)) = trace s1 @ cs'" "list_all P cs'"
      using emitsE [OF assms(2)] m by metis
    then show ?thesis using cs Inr by (auto simp: seq_def m)
  qed
qed

lemma emits_copy_one:
  assumes "inside workdir src" "inside (receiver p) (path_join (receiver p) (path_parts rel))"
  shows "emits id (proper_step p workdir) (copy_one W (receiver p) src rel)"
  unfolding copy_one_def Let_def
  by (auto intro!: emits_seq emits_git emits_file_op simp: proper_step_def assms)

lemma emits_copy_all:
  assumes "list_all (\<lambda>(src, rel). inside workdir src \<and> inside (receiver p) (path_join (receiver p) (path_parts rel))) xs"
  shows "emits id (proper_step p workdir) (copy_all W (receiver p) xs)"
  using assms
  by (induction xs) (auto intro!: emits_seq emits_copy_one)

lemma emits_commit_staged:
  "push \<longrightarrow> pushes_for p \<Longrightarrow> emits id (proper_step p workdir) (commit_staged W (receiver p) branch push message)"
  unfolding commit_staged_def
  by (auto intro!: emits_seq emits_git simp: proper_step_def IDENTITY_def)

lemma emits_commit_artifacts:
  assumes "list_all (\<lambda>(src, rel). inside workdir src \<and> inside (receiver p) (path_join (receiver p) (path_parts rel)))
    (zip srcs (artifact_paths p job rels))"
  shows "emits id (proper_step p workdir) (commit_artifacts W p branch srcs rels message job)"
  unfolding commit_artifacts_def
proof (rule emits_seq_result [OF emits_destination])
  fix a s s'
  assume dest: "destination W p branch s = (Inr a, s')"
  obtain c b push where a: "a = (c, b, push)" by (cases a)
  have c: "c = receiver p" "push \<longleftrightarrow> pushes_for p" using destination_result [OF dest [unfolded a]] by auto
  show "emits id (proper_step p workdir) (case a of (checkout, b, push) \<Rightarrow> seq (arg_text b) (\<lambda>bt.
      seq (git W [''checkout'', ''-q'', bt] (Some checkout) False) (\<lambda>_.
      seq (copy_all W checkout (zip srcs (artifact_paths p job rels))) (\<lambda>_.
      commit_staged W checkout bt push message))))"
    unfolding a case_prod_conv c(1)
    using c(2) by (intro emits_seq emits_arg_text emits_git emits_copy_all emits_commit_staged assms)
       (simp_all add: proper_step_def)
qed

section \<open>Paths of artifacts\<close>

definition plain_comp :: "string \<Rightarrow> bool" where
  "plain_comp c = (c \<noteq> [] \<and> c \<noteq> ''.'' \<and> c \<noteq> ''..'' \<and> CHR ''/'' \<notin> set c)"

lemma contained_parts:
  assumes "contained_path a"
  shows "list_all plain_comp (path_parts a)" "path_parts a = [] \<or> hd (path_parts a) \<noteq> ''/''"
proof -
  have parts: "path_parts a = filter (\<lambda>c. c \<noteq> [] \<and> c \<noteq> ''.'') (split_on CHR ''/'' a)"
    using assms by (simp add: path_parts_def contained_path_def)
  show plain: "list_all plain_comp (path_parts a)"
    unfolding parts list_all_iff
  proof
    fix c
    assume "c \<in> set (filter (\<lambda>c. c \<noteq> [] \<and> c \<noteq> ''.'') (split_on CHR ''/'' a))"
    then show "plain_comp c"
      using assms split_on_pieces [of c "CHR ''/''" a] by (auto simp: plain_comp_def contained_path_def)
  qed
  show "path_parts a = [] \<or> hd (path_parts a) \<noteq> ''/''"
    using plain by (cases "path_parts a") (auto simp: plain_comp_def)
qed

lemma path_text_parts:
  assumes "list_all plain_comp ps"
  shows "path_parts (path_text ps) = ps"
proof (cases ps)
  case Nil
  then show ?thesis by (simp add: path_text_def path_parts_def starts_with_def)
next
  case (Cons c cs)
  have slash_free: "list_all (\<lambda>p. CHR ''/'' \<notin> set p) ps"
    using assms by (auto simp: list_all_iff plain_comp_def)
  have c: "c \<noteq> ''/''" "c \<noteq> []" "CHR ''/'' \<notin> set c"
    using assms Cons by (auto simp: plain_comp_def)
  have "\<not> starts_with (join ''/'' ps) ''/''"
    using c unfolding Cons by (cases c; cases cs) (auto simp: starts_with_def)
  moreover have "split_on CHR ''/'' (join ''/'' ps) = ps"
    using slash_free Cons by (intro split_on_join) simp_all
  moreover have "filter (\<lambda>c. c \<noteq> [] \<and> c \<noteq> ''.'') ps = ps"
    using assms by (auto simp: filter_id_conv list_all_iff plain_comp_def)
  ultimately show ?thesis
    using c by (simp add: path_text_def path_parts_def Cons)
qed

lemma join_contained:
  assumes "list_all plain_comp ps"
  shows "path_join d ps = d @ ps"
  using assms by (cases ps) (auto simp: path_join_def plain_comp_def)

lemma inside_plain: "list_all plain_comp ps \<Longrightarrow> inside d (d @ ps)"
  by (auto simp: inside_def list_all_iff plain_comp_def)

lemma artifact_parts:
  assumes "contained_path (pc_name p)" "safe_id j" "list_all contained_path rels"
  shows "map path_parts (artifact_paths p (Some j) rels)
    = map (\<lambda>r. (if publishes_to_results p then path_parts (pc_name p) @ [j] else []) @ path_parts r) rels"
    and "list_all (\<lambda>a. list_all plain_comp (path_parts a)) (artifact_paths p (Some j) rels)"
proof -
  have j: "plain_comp j" "path_parts j = [j]"
  proof -
    show plain: "plain_comp j" using safe_id_component [OF assms(2)] by (auto simp: plain_comp_def)
    then have "path_text [j] = j" by (auto simp: path_text_def plain_comp_def)
    with path_text_parts [of "[j]"] plain show "path_parts j = [j]" by simp
  qed
  have one: "path_parts (path_text (path_join (path_join (path_parts (pc_name p)) (path_parts j)) (path_parts r)))
      = path_parts (pc_name p) @ [j] @ path_parts r \<and> list_all plain_comp (path_parts (pc_name p) @ [j] @ path_parts r)"
    if "contained_path r" for r
  proof -
    note parts = contained_parts(1) [OF assms(1)] contained_parts(1) [OF that] j(1)
    have all: "list_all plain_comp ((path_parts (pc_name p) @ [j]) @ path_parts r)"
      using parts by simp
    have "path_join (path_parts (pc_name p)) (path_parts j) = path_parts (pc_name p) @ [j]"
      using j by (simp add: join_contained)
    then show ?thesis
      using all parts by (simp add: join_contained path_text_parts)
  qed
  have "j \<noteq> []" using j by (auto simp: plain_comp_def)
  then show "map path_parts (artifact_paths p (Some j) rels)
      = map (\<lambda>r. (if publishes_to_results p then path_parts (pc_name p) @ [j] else []) @ path_parts r) rels"
    "list_all (\<lambda>a. list_all plain_comp (path_parts a)) (artifact_paths p (Some j) rels)"
    using assms(3) one contained_parts(1)
    by (auto simp: artifact_paths_def Let_def list_all_iff)
qed

text \<open>No two jobs of a results repository write one path.  Published under their project and
  job, the parts of every landed path are the project's name, the job's id and then the parts of
  the declared path, so paths of different jobs or projects (names of one component) differ in
  their first two components and none is a parent of the other.\<close>

lemma results_namespaced:
  assumes "publishes_to_results p" "plain_comp (pc_name p)" "safe_id j" "list_all contained_path rels"
  shows "map path_parts (artifact_paths p (Some j) rels) = map (\<lambda>r. [pc_name p, j] @ path_parts r) rels"
proof -
  have plain: "list_all plain_comp [pc_name p]" using assms(2) by simp
  have shown: "path_text [pc_name p] = pc_name p"
    using assms(2) by (auto simp: path_text_def plain_comp_def)
  have "contained_path (pc_name p)"
    using assms(2) by (auto simp: contained_path_def plain_comp_def split_on_id starts_with_iff)
  from artifact_parts(1) [OF this assms(3,4)] path_text_parts [OF plain] show ?thesis
    using assms(1) by (simp add: shown)
qed

section \<open>Artifacts stay inside\<close>

text \<open>C22: collecting a validated job's artifacts touches nothing outside.  Whatever git answers, every
  copy goes from the job's work tree to a path inside the one checkout that receives artifacts
  (the results repository when one is configured, the project's own otherwise), every git
  command but a clone runs there, nothing is removed, and a push is attempted only when the
  project has a results repository or \<open>push\<close> set.\<close>

theorem artifacts_stay_inside:
  assumes "validate s = Inr ()" "contained_path (pc_name p)"
  shows "\<exists>cs. snd (collect_artifacts W s p workdir steps) = steps @ cs \<and> list_all (proper_step p workdir) cs"
proof -
  have safe: "safe_id (js_id s)" and rels: "list_all contained_path (js_artifacts s)"
    using assms(1) by (simp_all add: validate_ok_iff)
  note parts = artifact_parts(2) [OF assms(2) safe rels]
  let ?srcs = "map (\<lambda>r. path_join workdir (path_parts r)) (js_artifacts s)"
  have src: "inside workdir (path_join workdir (path_parts r))" if "r \<in> set (js_artifacts s)" for r
    using that rels contained_parts(1) [of r] by (auto simp: list_all_iff join_contained inside_plain)
  have dst: "inside (receiver p) (path_join (receiver p) (path_parts a))"
    if "a \<in> set (artifact_paths p (Some (js_id s)) (js_artifacts s))" for a
    using that parts by (auto simp: list_all_iff join_contained inside_plain)
  have "list_all (\<lambda>(src, rel). inside workdir src \<and> inside (receiver p) (path_join (receiver p) (path_parts rel)))
      (zip ?srcs (artifact_paths p (Some (js_id s)) (js_artifacts s)))"
    unfolding list_all_iff
  proof
    fix x
    assume x: "x \<in> set (zip ?srcs (artifact_paths p (Some (js_id s)) (js_artifacts s)))"
    obtain a b where ab: "x = (a, b)" by (cases x)
    then show "case x of (src, rel) \<Rightarrow> inside workdir src \<and> inside (receiver p) (path_join (receiver p) (path_parts rel))"
      using x src dst set_zip_leftD [OF x [unfolded ab]] set_zip_rightD [OF x [unfolded ab]] by auto
  qed
  then have commit: "emits id (proper_step p workdir) (commit_artifacts W p (js_branch s) ?srcs (js_artifacts s)
      (''artifacts: '' @ js_id s) (Some (js_id s)))"
    by (rule emits_commit_artifacts)
  have "emits id (proper_step p workdir) (collect_artifacts W s p workdir)"
    unfolding collect_artifacts_def
  proof (simp, intro impI, rule emits_seq_result)
    show "emits id (proper_step p workdir) (find_sources W workdir (js_artifacts s))"
      by (auto simp: emits_def find_sources_result split: option.split)
  next
    fix srcs st st'
    assume "find_sources W workdir (js_artifacts s) st = (Inr srcs, st')"
    then have "srcs = ?srcs" by (auto simp: find_sources_result split: option.splits)
    with commit show "emits id (proper_step p workdir)
      (if pc_commit_artifacts p then seq (commit_artifacts W p (js_branch s) srcs (js_artifacts s)
         (''artifacts: '' @ js_id s) (Some (js_id s))) (\<lambda>_. ret ()) else ret ())"
      by (auto intro!: emits_seq)
  qed
  then show ?thesis by (simp add: emits_def)
qed

section \<open>A commit has every artifact\<close>

definition add_step :: "path \<Rightarrow> string \<Rightarrow> git_step" where
  "add_step c rel = Git [''add'', ''--'', rel] (Some c)"

definition commit_step :: "path \<Rightarrow> string \<Rightarrow> git_step" where
  "commit_step c message = Git (IDENTITY @ [''commit'', ''-qm'', message]) (Some c)"

definition staging :: "git_step \<Rightarrow> bool" where
  "staging st = (case st of Git args cwd \<Rightarrow> take 1 args = [''add''] \<or> take 5 args = IDENTITY @ [''commit''] | _ \<Rightarrow> False)"

lemma staging_simps [simp]:
  "staging (add_step c rel)" "staging (commit_step c message)"
  "\<not> staging (MakeDirs d)" "\<not> staging (CopyTree x y)" "\<not> staging (CopyFile x y)"
  by (simp_all add: staging_def add_step_def commit_step_def IDENTITY_def)

text \<open>Every step of a run did what it was for: git exited with 0, no file operation raised.\<close>

fun worked :: "git_world \<Rightarrow> git_step list \<Rightarrow> git_step list \<Rightarrow> bool" where
  "worked W steps [] = True"
| "worked W steps (st # cs) = ((case st of
       Git args cwd \<Rightarrow> (case gw_git W steps st of None \<Rightarrow> False | Some (rc, out) \<Rightarrow> rc = 0)
     | _ \<Rightarrow> \<not> gw_fails W steps st) \<and> worked W (steps @ [st]) cs)"

lemma worked_append: "worked W steps (as @ bs) \<longleftrightarrow> worked W steps as \<and> worked W (steps @ as) bs"
  by (induction as arbitrary: steps) auto

text \<open>Each artifact landed: its directory made, the artifact copied there - a directory whole - and
  the copy added.\<close>

definition copied :: "git_world \<Rightarrow> git_step list \<Rightarrow> path \<Rightarrow> path \<Rightarrow> git_step" where
  "copied W steps src dst = (if gw_is_dir W (steps @ [MakeDirs (butlast dst)]) src then CopyTree src dst else CopyFile src dst)"

fun landing :: "git_world \<Rightarrow> path \<Rightarrow> git_step list \<Rightarrow> (path \<times> string) list \<Rightarrow> git_step list" where
  "landing W c steps [] = []"
| "landing W c steps ((src, rel) # xs) =
     (let dst = path_join c (path_parts rel);
          one = [MakeDirs (butlast dst), copied W steps src dst, add_step c rel]
      in one @ landing W c (steps @ one) xs)"

lemma staging_landing: "filter staging (landing W c steps xs) = map (\<lambda>(src, rel). add_step c rel) xs"
  by (induction xs arbitrary: steps) (auto simp: Let_def copied_def)

lemma git_Inr: "git W args cwd must steps = (Inr out, steps') \<Longrightarrow> steps' = steps @ [Git args cwd]
    \<and> (must \<longrightarrow> gw_git W steps (Git args cwd) = Some (0, out))"
  by (auto simp: git_def Let_def split: option.splits if_splits)

lemma file_op_Inr: "file_op W st steps = (Inr u, steps') \<Longrightarrow> steps' = steps @ [st] \<and> \<not> gw_fails W steps st"
  by (simp add: file_op_def split: if_splits)

lemma copy_one_lands:
  assumes "copy_one W c src rel steps = (Inr u, steps')"
  shows "steps' = steps @ landing W c steps [(src, rel)] \<and> worked W steps (landing W c steps [(src, rel)])"
  using assms unfolding copy_one_def Let_def
  by (auto elim!: seq_InrE simp: is_dir_now_def ret_def add_step_def copied_def Let_def dest!: git_Inr file_op_Inr
      split: if_splits)

lemma copy_all_lands:
  "copy_all W c xs steps = (Inr u, steps') \<Longrightarrow>
     steps' = steps @ landing W c steps xs \<and> worked W steps (landing W c steps xs)"
proof (induction xs arbitrary: steps)
  case Nil
  then show ?case by (simp add: ret_def)
next
  case (Cons x xs)
  obtain src rel where x: "x = (src, rel)" by (cases x)
  obtain v s1 where one: "copy_one W c src rel steps = (Inr v, s1)" and rest: "copy_all W c xs s1 = (Inr u, steps')"
    using Cons.prems unfolding x copy_all.simps by (rule seq_InrE)
  from copy_one_lands [OF one] Cons.IH [OF rest]
  show ?case unfolding x landing.simps Let_def append_Nil2 worked_append by simp
qed

text \<open>The end of publishing: \<open>git status\<close>, and only when it has something to report the commit, its
  name and the push, whose failure is not looked at.\<close>

definition status_step :: "path \<Rightarrow> git_step" where
  "status_step c = Git [''status'', ''--porcelain''] (Some c)"

definition name_step :: "path \<Rightarrow> git_step" where
  "name_step c = Git [''rev-parse'', ''HEAD''] (Some c)"

definition push_step :: "path \<Rightarrow> string \<Rightarrow> git_step" where
  "push_step c branch = Git [''push'', ''origin'', ''HEAD:'' @ branch] (Some c)"

lemma ending_staging [simp]: "\<not> staging (status_step c)" "\<not> staging (name_step c)" "\<not> staging (push_step c b)"
  by (simp_all add: staging_def IDENTITY_def status_step_def name_step_def push_step_def)

definition concluded :: "git_world \<Rightarrow> path \<Rightarrow> string \<Rightarrow> bool \<Rightarrow> string \<Rightarrow> git_step list \<Rightarrow> string option
    \<Rightarrow> git_step list \<Rightarrow> bool" where
  "concluded W c branch push message steps r cs \<longleftrightarrow> (case gw_git W steps (status_step c) of
       None \<Rightarrow> False
     | Some (rc, changed) \<Rightarrow> rc = 0 \<and>
         (if strip changed = [] then r = None \<and> cs = [status_step c]
          else cs = [status_step c, commit_step c message, name_step c] @ (if push then [push_step c branch] else [])
            \<and> worked W steps [status_step c, commit_step c message, name_step c]
            \<and> (\<exists>sha. r = Some (strip sha)
                 \<and> gw_git W (steps @ [status_step c, commit_step c message]) (name_step c) = Some (0, sha))))"

lemma commit_staged_concludes:
  assumes "commit_staged W c branch push message steps = (Inr r, steps')"
  shows "\<exists>cs. steps' = steps @ cs \<and> concluded W c branch push message steps r cs"
  using assms unfolding commit_staged_def status_step_def [symmetric]
  by (auto elim!: seq_InrE simp: ret_def concluded_def status_step_def commit_step_def name_step_def push_step_def
      dest!: git_Inr split: if_splits)

lemma concluded_staging:
  "concluded W c branch push message steps r cs \<Longrightarrow>
     filter staging cs = (if r = None then [] else [commit_step c message])"
  by (auto simp: concluded_def split: option.splits prod.splits if_splits)

lemma destination_not_staging: "emits id (\<lambda>st. \<not> staging st) (destination W p branch)"
  unfolding destination_def ensure_results_checkout_def ensure_checkout_def
  by (auto intro!: emits_seq emits_clone simp: staging_def IDENTITY_def split: option.split)

text \<open>C21: a commit of artifacts has all of them.  If publishing returns, then after the checkout of
  the branch every declared artifact, in the declared order, was copied to its place in the
  checkout that receives them and added there, each of these steps having succeeded; then
  \<open>git status\<close> was asked, and the result is \<open>None\<close>, with no commit, when its answer is blank, and
  otherwise the name of the one commit that followed, pushed when the project pushes.\<close>

theorem published_completely:
  assumes "commit_artifacts W p branch srcs rels message job steps = (Inr r, steps')"
    and "length srcs = length rels" and "xs = zip srcs (artifact_paths p job rels)" and "c = receiver p"
  shows "\<exists>cs bt s0 ending. PStr bt = (if publishes_to_results p then pc_results_branch p else PStr branch)
    \<and> s0 = steps @ cs @ [Git [''checkout'', ''-q'', bt] (Some c)]
    \<and> steps' = s0 @ landing W c s0 xs @ ending
    \<and> worked W s0 (landing W c s0 xs)
    \<and> concluded W c bt (pushes_for p) message (s0 @ landing W c s0 xs) r ending
    \<and> filter staging (cs @ landing W c s0 xs @ ending)
        = map (add_step c) (artifact_paths p job rels) @ (if r = None then [] else [commit_step c message])"
proof -
  obtain a s1 where dest: "destination W p branch steps = (Inr a, s1)"
    and rest: "(case a of (checkout, b, push) \<Rightarrow> seq (arg_text b) (\<lambda>bt.
      seq (git W [''checkout'', ''-q'', bt] (Some checkout) False) (\<lambda>_.
      seq (copy_all W checkout xs) (\<lambda>_. commit_staged W checkout bt push message)))) s1 = (Inr r, steps')"
    using assms(1) unfolding commit_artifacts_def assms(3) by (rule seq_InrE)
  obtain c' b push where a: "a = (c', b, push)" by (cases a)
  have to: "c' = c" "push = pushes_for p" "b = (if publishes_to_results p then pc_results_branch p else PStr branch)"
    using destination_result [OF dest [unfolded a]] assms(4) by simp_all
  obtain cs where s1: "s1 = steps @ cs" "filter staging cs = []"
    using emitsE [OF destination_not_staging, where s = steps] dest
    by (metis filter_False id_apply list_all_iff snd_conv)
  from rest obtain bt s2 s3 s4 u v where run: "arg_text b s1 = (Inr bt, s2)"
    "git W [''checkout'', ''-q'', bt] (Some c) False s2 = (Inr u, s3)" "copy_all W c xs s3 = (Inr v, s4)"
    "commit_staged W c bt push message s4 = (Inr r, steps')"
    unfolding a case_prod_conv to(1) by (elim seq_InrE) blast
  have bt: "s2 = s1" "b = PStr bt" using run(1) by (auto simp: arg_text_def ret_def raise_act_def split: pyval.splits)
  let ?s0 = "steps @ cs @ [Git [''checkout'', ''-q'', bt] (Some c)]"
  have s3: "s3 = ?s0" using git_Inr [OF run(2)] bt(1) s1(1) by simp
  obtain ending where ending: "steps' = s4 @ ending" "concluded W c bt push message s4 r ending"
    using commit_staged_concludes [OF run(4)] by blast
  have "map (\<lambda>(src, rel). add_step c rel) xs = map (add_step c) (map snd xs)" by (simp add: case_prod_beta)
  moreover have "map snd xs = artifact_paths p job rels"
    using assms(2) by (simp add: assms(3) artifact_paths_def Let_def)
  ultimately have adds: "map (\<lambda>(src, rel). add_step c rel) xs = map (add_step c) (artifact_paths p job rels)" by simp
  from copy_all_lands [OF run(3)] ending concluded_staging [OF ending(2)] s1(2) bt(2) to(2,3) show ?thesis
    by (intro exI [of _ cs] exI [of _ bt] exI [of _ ?s0] exI [of _ ending]) (simp add: s3 staging_landing adds)
qed

section \<open>A work tree at a commit that is there\<close>

lemma seq_InlE:
  assumes "seq m k s = (Inl e, s')"
  obtains "m s = (Inl e, s')" | a s1 where "m s = (Inr a, s1)" "k a s1 = (Inl e, s')"
  using assms by (auto simp: seq_def split: prod.splits sum.splits)

definition raises :: "('e \<Rightarrow> bool) \<Rightarrow> ('s, 'e, 'a) action \<Rightarrow> bool" where
  "raises E m \<longleftrightarrow> (\<forall>s e s'. m s = (Inl e, s') \<longrightarrow> E e)"

lemma raisesD: "raises E m \<Longrightarrow> m s = (Inl e, s') \<Longrightarrow> E e"
  unfolding raises_def by blast

lemma raises_seq: "raises E m \<Longrightarrow> (\<And>a. raises E (k a)) \<Longrightarrow> raises E (seq m k)"
  unfolding raises_def by (metis seq_InlE)

lemma raises_ret [simp]: "raises E (ret a)"
  by (simp add: raises_def ret_def)

lemma raises_raise [simp]: "raises E (raise_act e) = E e"
  by (simp add: raises_def raise_act_def)

text \<open>What git commands and file operations raise: never an error of the job's own making.\<close>

definition git_fault :: "git_raise \<Rightarrow> bool" where
  "git_fault e = (case e of GitError _ _ \<Rightarrow> True | OtherError \<Rightarrow> True | _ \<Rightarrow> False)"

lemma raises_basic [simp]:
  "raises git_fault (git W args cwd must)" "raises git_fault (file_op W st)" "raises git_fault (exists_now W p)"
  "raises git_fault (is_dir_now W p)" "raises git_fault (arg_text v)"
  by (auto simp: raises_def git_def file_op_def exists_now_def is_dir_now_def arg_text_def git_fault_def
      Let_def ret_def raise_act_def split: option.splits if_splits pyval.splits)

lemma raises_remove_tree [simp]: "raises E (remove_tree d)"
  by (simp add: raises_def remove_tree_def)

lemma raises_clone [simp]: "raises git_fault (clone_if_missing W remote path)"
  unfolding clone_if_missing_def by (auto intro!: raises_seq)

lemma raises_destination [simp]: "raises git_fault (destination W p branch)"
  unfolding destination_def ensure_results_checkout_def ensure_checkout_def
  by (auto intro!: raises_seq split: option.split)

lemma raises_copy_all [simp]: "raises git_fault (copy_all W c xs)"
  by (induction xs) (auto intro!: raises_seq simp: copy_one_def Let_def)

lemma raises_commit [simp]: "raises git_fault (commit_artifacts W p branch srcs rels message job)"
  unfolding commit_artifacts_def commit_staged_def
  by (auto intro!: raises_seq split: prod.split)

lemma git_Inl:
  assumes "git W args cwd must steps = (Inl e, steps')"
  shows "steps' = steps @ [Git args cwd]"
    "e = OtherError \<or> (must \<and> (\<exists>rc out. gw_git W steps (Git args cwd) = Some (rc, out) \<and> rc \<noteq> 0 \<and> e = GitError args rc))"
  using assms by (auto simp: git_def Let_def split: option.splits if_splits)

definition verify_step :: "jobspec \<Rightarrow> project_config \<Rightarrow> git_step" where
  "verify_step s p = Git [''cat-file'', ''-e'', js_commit s @ ''^{commit}''] (Some (pc_checkout p))"

definition tree_step :: "path \<Rightarrow> jobspec \<Rightarrow> project_config \<Rightarrow> git_step" where
  "tree_step qroot s p = Git [''worktree'', ''add'', ''--detach'', path_text (work_dir qroot (js_id s)), js_commit s]
     (Some (pc_checkout p))"

lemma ensure_checkout_emits: "emits id (\<lambda>_. True) (ensure_checkout W p)"
  unfolding ensure_checkout_def by (rule emits_clone) simp_all

lemma add_worktree_Inr:
  assumes "add_worktree W checkout dest commit steps = (Inr d, steps')"
  shows "d = dest \<and> (\<exists>pre. steps' = pre @ [Git [''worktree'', ''add'', ''--detach'', path_text dest, commit] (Some checkout)]
    \<and> (\<exists>out. gw_git W pre (Git [''worktree'', ''add'', ''--detach'', path_text dest, commit] (Some checkout)) = Some (0, out))
    \<and> (\<exists>cs. pre = steps @ cs))"
proof -
  have rm: "emits id (\<lambda>_. True) (remove_worktree W checkout dest)"
    unfolding remove_worktree_def by (auto intro!: emits_seq emits_git emits_remove_tree)
  have front: "emits id (\<lambda>_. True) (seq (exists_now W dest) (\<lambda>there.
      seq (if there then remove_worktree W checkout dest else ret ()) (\<lambda>_. file_op W (MakeDirs (butlast dest)))))"
    by (auto intro!: emits_seq emits_file_op rm)
  have split: "add_worktree W checkout dest commit = seq (seq (exists_now W dest) (\<lambda>there.
      seq (if there then remove_worktree W checkout dest else ret ()) (\<lambda>_. file_op W (MakeDirs (butlast dest)))))
      (\<lambda>_. seq (git W [''worktree'', ''add'', ''--detach'', path_text dest, commit] (Some checkout) True) (\<lambda>_. ret dest))"
    by (simp add: add_worktree_def seq_assoc)
  from assms obtain u s1 where one: "seq (exists_now W dest) (\<lambda>there.
      seq (if there then remove_worktree W checkout dest else ret ()) (\<lambda>_. file_op W (MakeDirs (butlast dest)))) steps = (Inr u, s1)"
    and two: "seq (git W [''worktree'', ''add'', ''--detach'', path_text dest, commit] (Some checkout) True) (\<lambda>_. ret dest) s1 = (Inr d, steps')"
    unfolding split by (rule seq_InrE)
  obtain cs where "s1 = steps @ cs"
    using emitsE [OF front, where s = steps] one by (metis id_apply snd_conv)
  with two show ?thesis
    by (elim seq_InrE) (auto simp: ret_def dest!: git_Inr)
qed

text \<open>The steps before the commit is looked for, the look itself, and the steps after it.\<close>

definition checkout_fetched :: "git_world \<Rightarrow> project_config \<Rightarrow> path git_act" where
  "checkout_fetched W p = seq (ensure_checkout W p) (\<lambda>c.
     seq (git W [''fetch'', ''--quiet'', ''origin''] (Some c) False) (\<lambda>_. ret c))"

lemma checkout_fetched_facts:
  "emits id (\<lambda>st. st \<noteq> verify_step s p) (checkout_fetched W p)" "raises git_fault (checkout_fetched W p)"
  "checkout_fetched W p steps = (Inr c, steps') \<Longrightarrow> c = pc_checkout p"
proof -
  show "emits id (\<lambda>st. st \<noteq> verify_step s p) (checkout_fetched W p)"
    unfolding checkout_fetched_def ensure_checkout_def
    by (intro emits_seq emits_clone emits_git emits_ret) (simp_all add: verify_step_def)
  show "raises git_fault (checkout_fetched W p)"
    unfolding checkout_fetched_def ensure_checkout_def by (auto intro!: raises_seq)
  show "checkout_fetched W p steps = (Inr c, steps') \<Longrightarrow> c = pc_checkout p"
    unfolding checkout_fetched_def ensure_checkout_def by (auto elim!: seq_InrE simp: ret_def dest: clone_result)
qed

definition commit_verified :: "git_world \<Rightarrow> jobspec \<Rightarrow> path \<Rightarrow> string git_act" where
  "commit_verified W s c = rescue (git W [''cat-file'', ''-e'', js_commit s @ ''^{commit}''] (Some c) True)
     (\<lambda>e. case e of GitError _ _ \<Rightarrow> raise_act (CommitMissing (js_commit s)) | _ \<Rightarrow> raise_act e)"

lemma commit_verified_result:
  "commit_verified W s (pc_checkout p) steps =
     ((case gw_git W steps (verify_step s p) of None \<Rightarrow> Inl OtherError
       | Some (rc, out) \<Rightarrow> if rc \<noteq> 0 then Inl (CommitMissing (js_commit s)) else Inr out), steps @ [verify_step s p])"
  by (simp add: commit_verified_def rescue_def git_def verify_step_def Let_def raise_act_def split: option.split)

lemma prepare_workdir_split:
  "prepare_workdir W qroot s p = seq (checkout_fetched W p) (\<lambda>c. seq (commit_verified W s c)
     (\<lambda>_. add_worktree W c (work_dir qroot (js_id s)) (js_commit s)))"
  by (simp add: prepare_workdir_def checkout_fetched_def commit_verified_def seq_assoc)

lemma add_worktree_faults: "raises git_fault (add_worktree W c d commit)"
  unfolding add_worktree_def remove_worktree_def by (auto intro!: raises_seq)

lemma add_worktree_emits: "emits id (\<lambda>_. True) (add_worktree W c d commit)"
  unfolding add_worktree_def remove_worktree_def
  by (auto intro!: emits_seq emits_git emits_file_op emits_remove_tree)

text \<open>What making the tree comes to after the look found the commit.\<close>

definition tree_made :: "git_world \<Rightarrow> path \<Rightarrow> jobspec \<Rightarrow> project_config \<Rightarrow> git_step list \<Rightarrow> git_raise + path
    \<Rightarrow> git_step list \<Rightarrow> bool" where
  "tree_made W qroot s p steps res after \<longleftrightarrow> (case res of
      Inl e \<Rightarrow> git_fault e
    | Inr dest \<Rightarrow> dest = work_dir qroot (js_id s) \<and> (\<exists>mid out. after = mid @ [tree_step qroot s p]
        \<and> gw_git W (steps @ mid) (tree_step qroot s p) = Some (0, out)))"

lemma add_worktree_made:
  assumes "add_worktree W (pc_checkout p) (work_dir qroot (js_id s)) (js_commit s) steps = (res, steps')"
  shows "\<exists>after. steps' = steps @ after \<and> tree_made W qroot s p steps res after"
proof -
  obtain cs where cs: "steps' = steps @ cs"
    using emitsE [OF add_worktree_emits, where s = steps] assms by (metis id_apply snd_conv)
  show ?thesis
  proof (cases res)
    case (Inl e)
    with assms cs show ?thesis using raisesD [OF add_worktree_faults] by (auto simp: tree_made_def)
  next
    case (Inr dest)
    from add_worktree_Inr [OF assms [unfolded Inr]] show ?thesis
      unfolding Inr tree_made_def tree_step_def by auto
  qed
qed

text \<open>C6: a job runs on the commit it was submitted at.  Preparing its work tree either fails with a
  fault of git's or the disk's before git is asked for the commit, or git is asked.  Asked, git
  answers that the commit is not there exactly when the job is the caller's error, and then
  nothing was done after the question.  When the commit is there, the tree is the job's own
  directory and the last step, which succeeded, checked out that commit detached - or a fault of
  git's or the disk's is raised, and never the caller's error.\<close>

theorem workdir_at_commit:
  assumes "prepare_workdir W qroot s p steps = (res, steps')"
  shows "\<exists>cs. steps' = steps @ cs \<and>
    (if verify_step s p \<notin> set cs then (case res of Inl e \<Rightarrow> git_fault e | Inr dest \<Rightarrow> False)
     else \<exists>pre after. cs = pre @ verify_step s p # after \<and> verify_step s p \<notin> set pre
       \<and> (case gw_git W (steps @ pre) (verify_step s p) of
            None \<Rightarrow> res = Inl OtherError \<and> after = []
          | Some (rc, out) \<Rightarrow>
              if rc \<noteq> 0 then res = Inl (CommitMissing (js_commit s)) \<and> after = []
              else (case res of
                  Inl e \<Rightarrow> git_fault e
                | Inr dest \<Rightarrow> dest = work_dir qroot (js_id s)
                    \<and> (\<exists>mid out. after = mid @ [tree_step qroot s p]
                         \<and> gw_git W (steps @ pre @ verify_step s p # mid) (tree_step qroot s p) = Some (0, out)))))"
proof -
  obtain x s1 where front: "checkout_fetched W p steps = (x, s1)" by fastforce
  obtain pre where pre: "s1 = steps @ pre" "verify_step s p \<notin> set pre"
    using emitsE [OF checkout_fetched_facts(1), where s = steps] front by (metis (full_types) id_apply list_all_iff snd_conv)
  show ?thesis
  proof (cases x)
    case (Inl e)
    with front assms have "res = Inl e" "steps' = s1" by (simp_all add: prepare_workdir_split seq_def)
    with raisesD [OF checkout_fetched_facts(2)] front Inl pre show ?thesis by auto
  next
    case (Inr c)
    have c: "c = pc_checkout p" using front unfolding Inr by (rule checkout_fetched_facts(3))
    have rest: "seq (commit_verified W s c) (\<lambda>_. add_worktree W c (work_dir qroot (js_id s)) (js_commit s)) s1 = (res, steps')"
      using assms front Inr by (simp add: prepare_workdir_split seq_def)
    let ?answer = "gw_git W s1 (verify_step s p)" and ?s2 = "s1 @ [verify_step s p]"
    have asked: "\<exists>after. steps' = ?s2 @ after \<and> (case ?answer of
            None \<Rightarrow> res = Inl OtherError \<and> after = []
          | Some (rc, out) \<Rightarrow> if rc \<noteq> 0 then res = Inl (CommitMissing (js_commit s)) \<and> after = []
              else tree_made W qroot s p ?s2 res after)"
      using rest add_worktree_made [of W p qroot s ?s2 res steps'] unfolding c seq_def commit_verified_result
      by (auto split: option.splits if_splits)
    then obtain after where "steps' = steps @ (pre @ verify_step s p # after)" "(case ?answer of
            None \<Rightarrow> res = Inl OtherError \<and> after = []
          | Some (rc, out) \<Rightarrow> if rc \<noteq> 0 then res = Inl (CommitMissing (js_commit s)) \<and> after = []
              else tree_made W qroot s p ?s2 res after)"
      unfolding pre(1) by auto
    then show ?thesis
      using pre unfolding tree_made_def
      by (intro exI [of _ "pre @ verify_step s p # after"] conjI, simp, subst if_not_P, simp,
          intro exI [of _ pre] exI [of _ after] conjI) (auto split: option.splits sum.splits)
  qed
qed

section \<open>The supervisor's collection\<close>

text \<open>The settlement's view of the artifacts is what the git work does.  The supervisor is
  modelled with two questions, which artifact does not exist and what committing raises;
  answered from the state of the disk and from \<open>commit_artifacts\<close> run on it, the failure it
  settles a job with is the exception \<open>_collect_artifacts\<close> raises, and there is none exactly
  when it returns.\<close>

lemma collection_refines:
  "artifact_failure
     (e\<lparr>ce_exists := (\<lambda>w rel. gw_exists W steps (path_join w (path_parts rel))),
        ce_commit := (\<lambda>_. commit_error W steps s (av_project a) (av_workdir a))\<rparr>) s a
   = (case fst (collect_artifacts W s (av_project a) (av_workdir a) steps) of
        Inr _ \<Rightarrow> None | Inl x \<Rightarrow> Some (git_failure x))"
proof (cases "js_artifacts s = []")
  case True
  then show ?thesis by (simp add: artifact_failure_def collect_artifacts_def ret_def)
next
  case False
  let ?srcs = "map (\<lambda>r. path_join (av_workdir a) (path_parts r)) (js_artifacts s)"
  let ?commit = "commit_artifacts W (av_project a) (js_branch s) ?srcs (js_artifacts s) (''artifacts: '' @ js_id s) (Some (js_id s))"
  have faults: "raises git_fault ?commit" by simp
  show ?thesis
  proof (cases "find (\<lambda>r. \<not> gw_exists W steps (path_join (av_workdir a) (path_parts r))) (js_artifacts s)")
    case (Some r)
    with False show ?thesis
      by (simp add: artifact_failure_def collect_artifacts_def seq_def find_sources_result git_failure_def)
  next
    case None
    obtain res st' where c: "?commit steps = (res, st')" by fastforce
    show ?thesis
    proof (cases res)
      case (Inl x)
      with faults c have "git_fault x" by (auto simp: raises_def)
      then have "\<exists>t. git_failure x = ArtifactError t"
        by (cases x) (auto simp: git_fault_def git_failure_def)
      with None False Inl c show ?thesis
        by (auto simp: artifact_failure_def collect_artifacts_def seq_def find_sources_result commit_error_def ret_def)
    next
      case (Inr u)
      with None False c show ?thesis
        by (auto simp: artifact_failure_def collect_artifacts_def seq_def find_sources_result commit_error_def ret_def)
    qed
  qed
qed

section \<open>Concrete runs\<close>

text \<open>A git on which everything succeeds and \<open>status\<close> has something to report.\<close>

definition calm_git :: git_world where
  "calm_git = \<lparr>gw_git = (\<lambda>_ _. Some (0, ''abc123'')), gw_exists = (\<lambda>_ _. True), gw_is_dir = (\<lambda>_ _. False),
     gw_fails = (\<lambda>_ _. False)\<rparr>"

definition plain_project :: project_config where
  "plain_project = \<lparr>pc_name = ''wgan'', pc_remote = PStr ''git@host:wgan.git'', pc_checkout = [''/'', ''ws'', ''wgan''],
     pc_venv = None, pc_commit_artifacts = True, pc_push = False, pc_results_remote = PNone,
     pc_results_checkout = None, pc_results_branch = PStr ''main''\<rparr>"

definition results_project :: project_config where
  "results_project = plain_project\<lparr>pc_results_remote := PStr ''git@host:results.git'',
     pc_results_checkout := Some [''/'', ''ws'', ''results'']\<rparr>"

definition example_tree :: path where
  "example_tree = work_dir [''/'', ''q''] ''wgan-1''"

lemma results_namespaced_witness:
  "map path_parts (artifact_paths results_project (Some ''wgan-1'') [''out/m.pt''])
     = [[''wgan'', ''wgan-1'', ''out'', ''m.pt'']]"
proof -
  have facts: "publishes_to_results results_project" "plain_comp (pc_name results_project)" "safe_id ''wgan-1''"
    "list_all contained_path [''out/m.pt'']" "pc_name results_project = ''wgan''" "path_parts ''out/m.pt'' = [''out'', ''m.pt'']"
    by code_simp+
  show ?thesis using results_namespaced [OF facts(1-4)] by (simp add: facts(5,6))
qed

lemma artifacts_stay_inside_witness:
  "\<exists>cs. snd (collect_artifacts calm_git example_spec results_project example_tree []) = [] @ cs
     \<and> list_all (proper_step results_project example_tree) cs"
proof -
  have "contained_path (pc_name results_project)" by code_simp
  then show ?thesis by (rule artifacts_stay_inside [OF example_spec_valid])
qed

lemma example_publish:
  "fst (commit_artifacts calm_git results_project ''main'' [example_tree @ [''m.pt'']] [''m.pt''] ''artifacts'' (Some ''wgan-1'') [])
     = Inr (Some ''abc123'')"
  by code_simp

lemma published_completely_witness:
  "\<exists>s0 ending. snd (commit_artifacts calm_git results_project ''main'' [example_tree @ [''m.pt'']] [''m.pt'']
       ''artifacts'' (Some ''wgan-1'') []) = s0 @ landing calm_git (receiver results_project) s0
         [(example_tree @ [''m.pt''], ''wgan/wgan-1/m.pt'')] @ ending
     \<and> concluded calm_git (receiver results_project) ''main'' True ''artifacts'' (s0 @ landing calm_git (receiver results_project) s0
         [(example_tree @ [''m.pt''], ''wgan/wgan-1/m.pt'')]) (Some ''abc123'') ending"
proof -
  have facts: "artifact_paths results_project (Some ''wgan-1'') [''m.pt''] = [''wgan/wgan-1/m.pt'']"
    "publishes_to_results results_project" "pc_results_branch results_project = PStr ''main''" "pushes_for results_project"
    by code_simp+
  let ?xs = "zip [example_tree @ [''m.pt'']] (artifact_paths results_project (Some ''wgan-1'') [''m.pt''])"
    and ?c = "receiver results_project"
  have len: "length [example_tree @ [''m.pt'']] = length [''m.pt'']" by simp
  obtain bt s0 ending where
    "PStr bt = (if publishes_to_results results_project then pc_results_branch results_project else PStr ''main'')"
    "snd (commit_artifacts calm_git results_project ''main'' [example_tree @ [''m.pt'']] [''m.pt''] ''artifacts''
       (Some ''wgan-1'') []) = s0 @ landing calm_git ?c s0 ?xs @ ending"
    "concluded calm_git ?c bt (pushes_for results_project) ''artifacts'' (s0 @ landing calm_git ?c s0 ?xs) (Some ''abc123'') ending"
    using published_completely [OF surjective_pairing [of "commit_artifacts calm_git results_project ''main''
      [example_tree @ [''m.pt'']] [''m.pt''] ''artifacts'' (Some ''wgan-1'') []", unfolded example_publish] len refl refl]
    by blast
  then show ?thesis by (intro exI [of _ s0] exI [of _ ending]) (simp add: facts del: landing.simps)
qed

lemma example_prepared: "fst (prepare_workdir calm_git [''/'', ''q''] example_spec plain_project []) = Inr example_tree"
  by code_simp

lemma workdir_at_commit_witness:
  "\<exists>pre mid. snd (prepare_workdir calm_git [''/'', ''q''] example_spec plain_project [])
     = pre @ verify_step example_spec plain_project # mid @ [tree_step [''/'', ''q''] example_spec plain_project]"
proof -
  have "gw_git calm_git x st = Some (0, ''abc123'')" for x st by (simp add: calm_git_def)
  with workdir_at_commit [OF surjective_pairing [of "prepare_workdir calm_git [''/'', ''q''] example_spec plain_project []",
      unfolded example_prepared]] show ?thesis by (auto split: if_splits)
qed

text \<open>What \<open>check=False\<close> hides: on a git whose \<open>checkout\<close> and \<open>push\<close> fail the artifacts are committed,
  on whatever branch is checked out, never leave the box, and the job is reported published.\<close>

definition refusing_git :: git_world where
  "refusing_git = calm_git\<lparr>gw_git := (\<lambda>_ st. case st of
     Git (c # args) _ \<Rightarrow> Some (if c \<in> {''checkout'', ''push''} then 1 else 0, ''abc123'') | _ \<Rightarrow> Some (0, ''abc123''))\<rparr>"

lemma failed_push_is_success:
  "fst (collect_artifacts refusing_git example_spec results_project example_tree []) = Inr ()
   \<and> Git [''push'', ''origin'', ''HEAD:main''] (Some [''/'', ''ws'', ''results''])
       \<in> set (snd (collect_artifacts refusing_git example_spec results_project example_tree []))"
  by code_simp

text \<open>\<open>contained\<close> does not keep an artifact out of the checkout's \<open>.git\<close>: a validated job can have a
  hook copied into it, and the branch, which no check sees, reaches the command line of
  \<open>git checkout\<close> as an option.\<close>

definition hook_spec :: jobspec where
  "hook_spec = example_spec\<lparr>js_artifacts := [''.git/hooks/pre-commit''], js_branch := ''--orphan=x''\<rparr>"

lemma hook_reaches_the_checkout:
  "validate hook_spec = Inr ()
   \<and> CopyFile (example_tree @ [''.git'', ''hooks'', ''pre-commit'']) [''/'', ''ws'', ''wgan'', ''.git'', ''hooks'', ''pre-commit'']
       \<in> set (snd (collect_artifacts calm_git hook_spec plain_project example_tree []))
   \<and> Git [''checkout'', ''-q'', ''--orphan=x''] (Some [''/'', ''ws'', ''wgan''])
       \<in> set (snd (collect_artifacts calm_git hook_spec plain_project example_tree []))"
  by code_simp

end
