(* ===== verification/ClaimCommand.thy ===== *)
theory ClaimCommand
  imports Preflight
begin

text \<open>
  \<open>src/gpuqueue/cli_claim.py\<close>: \<open>gpu-claim\<close>, which runs a command while it holds a share of the
  card.  Modelled are the decisions, their order, the exit codes, the command's environment
  and the claim files; of the messages on standard error only which one is printed.
  \<open>argparse\<close> and the command itself are arguments.
\<close>

definition EX_UNAVAILABLE :: int where
  "EX_UNAVAILABLE = 69"

definition EX_TEMPFAIL :: int where
  "EX_TEMPFAIL = 75"

record claim_options =
  cc_wait :: bool
  cc_no_preflight :: bool
  cc_owner :: "string option"
  cc_gpu_index :: nat
  cc_status :: bool
  cc_reap :: bool
  cc_vram_mb :: "int option"
  cc_scope_pid :: "int option"
  cc_cmd :: "string list"

text \<open>What the process finds: the system, the configuration file, \<open>$GPU_CLAIM_DIR\<close>, its
  environment, the claim files, the attempts of the wait loop, and what running a command in
  an environment returns (\<open>None\<close>: it cannot be started).\<close>

record claim_world =
  ck_os :: snapshot
  ck_config :: config_file
  ck_claim_env :: "string option"
  ck_resolve :: "path \<Rightarrow> path option"
  ck_deny :: "path \<Rightarrow> string option"
  ck_environ :: "(string \<times> string) list"
  ck_user :: string
  ck_files :: claims
  ck_attempts :: "attempt list"
  ck_run :: "(string \<times> string) list \<Rightarrow> string list \<Rightarrow> int option"

section \<open>The command's environment\<close>

definition child_env :: "snapshot \<Rightarrow> nat \<Rightarrow> (string \<times> string) list \<Rightarrow> (string \<times> string) list" where
  "child_env os index environ =
    (let value = cuda_visible_value os index;
         caller = (case map_of environ ''CUDA_VISIBLE_DEVICES'' of None \<Rightarrow> [] | Some s \<Rightarrow> s)
     in if strip caller \<noteq> [] then environ
        else (case value of Some v \<Rightarrow> AList.update ''CUDA_VISIBLE_DEVICES'' v environ
          | None \<Rightarrow> AList.delete ''CUDA_VISIBLE_DEVICES'' environ))"

text \<open>Whether the other card is warned of.\<close>

definition pins_another_card :: "snapshot \<Rightarrow> nat \<Rightarrow> (string \<times> string) list \<Rightarrow> bool" where
  "pins_another_card os index environ =
    (case map_of environ ''CUDA_VISIBLE_DEVICES'' of None \<Rightarrow> False
     | Some s \<Rightarrow> strip s \<noteq> [] \<and> (case cuda_visible_value os index of None \<Rightarrow> False | Some v \<Rightarrow> strip s \<noteq> v))"

section \<open>A claim the runner does not count\<close>

definition same_dir :: "(path \<Rightarrow> path option) \<Rightarrow> path \<Rightarrow> path \<Rightarrow> bool" where
  "same_dir resolve a b = (case (resolve a, resolve b) of (Some x, Some y) \<Rightarrow> x = y | _ \<Rightarrow> a = b)"

datatype divergence = Agree | NotCounted | NotCountedNorExempt

text \<open>\<open>None\<close> is the TypeError of \<open>claim_dir_setting\<close>.\<close>

definition runner_reads_elsewhere :: "claim_world \<Rightarrow> divergence option" where
  "runner_reads_elsewhere w = (case claim_dir_setting (ck_config w) of
      None \<Rightarrow> None
    | Some None \<Rightarrow> Some Agree
    | Some (Some theirs) \<Rightarrow>
        (let ours = claim_dir (ck_claim_env w) in
         Some (if same_dir (ck_resolve w) ours theirs then Agree
               else if same_dir (ck_resolve w) ours DEFAULT_CLAIM_DIR then NotCounted
               else NotCountedNorExempt)))"

section \<open>The scope a pid names\<close>

datatype scope_refused = NotAPid | NotRunning | CannotReadCgroup string | NoUnifiedPath | ScopeTooBroad refusal

definition resolve_scope :: "snapshot \<Rightarrow> int \<Rightarrow> scope_refused + string" where
  "resolve_scope os p =
    (if p \<le> 0 then Inl NotAPid
     else (case cgroup_of os p of
         None \<Rightarrow> if \<not> pid_alive os p then Inl NotRunning
           else (case read_error os p of Some why \<Rightarrow> Inl (CannotReadCgroup why) | None \<Rightarrow> Inl NoUnifiedPath)
       | Some scope \<Rightarrow> (case refuse_reason scope of
             Some reason \<Rightarrow> Inl (ScopeTooBroad reason) | None \<Rightarrow> Inr scope)))"

section \<open>The command\<close>

datatype claim_end = ExitCode int | Crashed | StillWaiting

text \<open>How it ends, what it ran (environment, command, the record held meanwhile), what
  \<open>--status\<close> and \<open>--reap\<close> print, and the claim files it leaves.\<close>

record claim_outcome =
  co_end :: claim_end
  co_ran :: "((string \<times> string) list \<times> string list \<times> ledger_record) option"
  co_listed :: "pydict list"
  co_released :: "ledger_record list"
  co_stuck :: "(ledger_record \<times> string) list"
  co_files :: claims

definition ends_with_code :: "claim_world \<Rightarrow> claim_end \<Rightarrow> claim_outcome" where
  "ends_with_code w e = \<lparr>co_end = e, co_ran = None, co_listed = [], co_released = [], co_stuck = [], co_files = ck_files w\<rparr>"

definition command_of :: "claim_options \<Rightarrow> string list" where
  "command_of a = (case cc_cmd a of c # cs \<Rightarrow> if c = ''--'' then cs else c # cs | [] \<Rightarrow> [])"

definition scope_of :: "claim_world \<Rightarrow> claim_options \<Rightarrow> scope_refused + string option" where
  "scope_of w a = (case cc_scope_pid a of None \<Rightarrow> Inr None
     | Some p \<Rightarrow> (case resolve_scope (ck_os w) p of Inl x \<Rightarrow> Inl x | Inr s \<Rightarrow> Inr (Some s)))"

definition command_claim :: "claim_world \<Rightarrow> claim_options \<Rightarrow> string option \<Rightarrow> string
    \<Rightarrow> (claim_error + ledger_record \<times> claims) option" where
  "command_claim w a scope key =
     gpu_claim (ck_os w) (ck_config w) key (of_int_opt (cc_vram_mb a)) (cc_wait a)
       \<lparr>ca_key = [], ca_owner = PStr (case cc_owner a of None \<Rightarrow> ck_user w | Some s \<Rightarrow> if s = [] then ck_user w else s),
        ca_cmd = map PStr (command_of a), ca_dir = claim_dir (ck_claim_env w), ca_share = None,
        ca_own_usage = True, ca_max_holders = None, ca_scope_pid = cc_scope_pid a, ca_scope_cgroup = of_str_opt scope\<rparr>
       (Some (default_usable_mb (ck_config w) (ck_os w) (cc_gpu_index a))) None (ck_attempts w)"

definition run_claimed :: "claim_world \<Rightarrow> claim_options \<Rightarrow> string option \<Rightarrow> string \<Rightarrow> claim_outcome" where
  "run_claimed w a scope key = (case command_claim w a scope key of
      None \<Rightarrow> ends_with_code w StillWaiting
    | Some (Inl (ClaimFailed CannotEverFit)) \<Rightarrow> ends_with_code w (ExitCode EX_UNAVAILABLE)
    | Some (Inl (ClaimFailed (OSRaised x))) \<Rightarrow> ends_with_code w Crashed
    | Some (Inl (ClaimFailed _)) \<Rightarrow> ends_with_code w (ExitCode EX_TEMPFAIL)
    | Some (Inl (NoCard x)) \<Rightarrow> ends_with_code w Crashed
    | Some (Inl (NotADeclaration v)) \<Rightarrow> ends_with_code w Crashed
    | Some (Inr (r, fs)) \<Rightarrow>
        (let env = child_env (ck_os w) (cc_gpu_index a) (ck_environ w) in
         (ends_with_code w (case ck_run w env (command_of a) of None \<Rightarrow> Crashed | Some rc \<Rightarrow> ExitCode rc))
           \<lparr>co_ran := Some (env, command_of a, r), co_files := remove_record r fs\<rparr>))"

definition reap_command :: "claim_world \<Rightarrow> claim_outcome" where
  "reap_command w = (case claim_dir_setting (ck_config w) of
      None \<Rightarrow> ends_with_code w Crashed
    | Some configured \<Rightarrow>
        (let (fs, released, stuck) = sweep_stale (ck_os w) (ck_deny w)
               (all_claim_dirs (ck_resolve w) (ck_claim_env w) configured) (ck_files w)
         in (ends_with_code w (ExitCode 0))\<lparr>co_released := released, co_stuck := stuck, co_files := fs\<rparr>))"

definition claim_main :: "claim_world \<Rightarrow> claim_options \<Rightarrow> claim_outcome" where
  "claim_main w a =
    (if runner_reads_elsewhere w = None then ends_with_code w Crashed
     else if cc_status a
       then (ends_with_code w (ExitCode 0))\<lparr>co_listed := map snd (list_claims (ck_claim_env w) None (ck_files w))\<rparr>
     else if cc_reap a then reap_command w
     else if command_of a = [] then ends_with_code w (ExitCode 2)
     else if (case cc_vram_mb a of None \<Rightarrow> False | Some v \<Rightarrow> v \<le> 0) then ends_with_code w (ExitCode 2)
     else (case scope_of w a of Inl x \<Rightarrow> ends_with_code w (ExitCode 2)
       | Inr scope \<Rightarrow> (case gpu_key (ck_os w) (cc_gpu_index a) of
             Inl e \<Rightarrow> ends_with_code w (ExitCode EX_UNAVAILABLE)
           | Inr key \<Rightarrow>
               if \<not> cc_no_preflight a
                  \<and> (case preflight (ck_os w) {} (ck_claim_env w) None scope (ck_files w) of Strangers _ \<Rightarrow> True | _ \<Rightarrow> False)
               then ends_with_code w (ExitCode EX_UNAVAILABLE)
               else run_claimed w a scope key)))"

section \<open>A granted claim\<close>

text \<open>The record a claim grants came from one of its attempts, at which the mutex was held and the
  card had room.\<close>

definition granted_at :: "mib option \<Rightarrow> claim_args \<Rightarrow> string \<Rightarrow> mib option \<Rightarrow> int option \<Rightarrow> ledger_record \<times> claims
    \<Rightarrow> attempt \<Rightarrow> bool" where
  "granted_at usable a key share mh rfs t \<longleftrightarrow> at_mutex t = Locked
     \<and> fits (live_records (at_os t) (records_for key (ca_dir a) (at_files t))) share usable mh
     \<and> lr_pid (fst rfs) = own_pid (at_os t) \<and> lr_vram_mb (fst rfs) = share \<and> lr_key (fst rfs) = PStr key
     \<and> lr_scope_cgroup (fst rfs) = ca_scope_cgroup a \<and> snd rfs = write_record (fst rfs) (at_files t)"

lemma acquire_granted:
  assumes "acquire os m token now key want owner cmd d usable up mh sp sc fs = (Inr r, fs')"
  shows "m = Locked" "fits (live_records os (records_for key d fs)) want usable mh" "lr_pid r = own_pid os"
    "lr_vram_mb r = want" "lr_key r = PStr key" "lr_scope_cgroup r = sc" "fs' = write_record r fs"
  using assms by (auto simp: acquire_def Let_def split: mutex_result.splits if_splits)

lemma claim_loop_granted:
  "\<not> ours \<Longrightarrow> claim_loop wait ours a usable ts = Some (Inr rfs) \<Longrightarrow>
     list_ex (granted_at usable a (ca_key a) (ca_share a) (ca_max_holders a) rfs) ts"
proof (induction wait ours a usable ts rule: claim_loop.induct)
  case (2 wait ours a usable t ts)
  obtain res fs where t: "try_acquire a usable t = (res, fs)" by fastforce
  show ?case
  proof (cases res)
    case (Inr r)
    with "2.prems"(2) t have rfs: "rfs = (r, fs)" by simp
    have "granted_at usable a (ca_key a) (ca_share a) (ca_max_holders a) rfs t"
      using acquire_granted [OF t [unfolded try_acquire_def Inr]] unfolding rfs granted_at_def by auto
    then show ?thesis by simp
  next
    case (Inl e)
    with 2 t show ?thesis
      by (auto simp: Let_def split: claim_refusal.splits if_splits)
  qed
qed simp

lemma gpu_claim_granted:
  assumes "gpu_claim os c key v wait a (Some u) None ts = Some (Inr rfs)" "key \<noteq> []"
  shows "\<exists>share. declared_share v = Some share \<and> \<not> exceeds_capacity (of_int_opt share) u
    \<and> list_ex (granted_at u a key share (Some (max_holders c)) rfs) ts"
proof -
  obtain share where share: "declared_share v = Some share"
    using assms(1) by (cases "declared_share v") (simp_all add: gpu_claim_def)
  have loop: "\<not> exceeds_capacity (of_int_opt share) u"
    "claim_loop wait False (a\<lparr>ca_key := key, ca_share := share, ca_max_holders := Some (max_holders c)\<rparr>) u ts = Some (Inr rfs)"
    using assms by (simp_all add: gpu_claim_def share Let_def split: if_splits)
  from claim_loop_granted [OF _ loop(2)] have "list_ex (granted_at u a key share (Some (max_holders c)) rfs) ts"
    by (simp add: granted_at_def [abs_def])
  with share loop(1) show ?thesis by blast
qed

section \<open>The command runs only under a claim\<close>

text \<open>What vetting the options comes to.\<close>

definition vetted :: "claim_world \<Rightarrow> claim_options \<Rightarrow> string option \<Rightarrow> bool" where
  "vetted w a scope \<longleftrightarrow> \<not> cc_status a \<and> \<not> cc_reap a \<and> command_of a \<noteq> []
     \<and> (case cc_vram_mb a of None \<Rightarrow> True | Some v \<Rightarrow> 0 < v)
     \<and> (case cc_scope_pid a of None \<Rightarrow> scope = None
        | Some p \<Rightarrow> (case scope of None \<Rightarrow> False
            | Some s \<Rightarrow> 0 < p \<and> cgroup_of (ck_os w) p = Some s \<and> refuse_reason s = None))
     \<and> (cc_no_preflight a \<or> preflight (ck_os w) {} (ck_claim_env w) None scope (ck_files w) \<in> {CannotSee, CardClear})"

lemma scope_of_vetted:
  "scope_of w a = Inr scope \<Longrightarrow> case cc_scope_pid a of None \<Rightarrow> scope = None
     | Some p \<Rightarrow> (case scope of None \<Rightarrow> False
         | Some s \<Rightarrow> 0 < p \<and> cgroup_of (ck_os w) p = Some s \<and> refuse_reason s = None)"
  by (auto simp: scope_of_def resolve_scope_def split: option.splits if_splits sum.splits)

lemma run_claimed_ran:
  assumes "co_ran (run_claimed w a scope key) = Some (env, cmd, r)"
  obtains fs where "command_claim w a scope key = Some (Inr (r, fs))" "cmd = command_of a"
    "env = child_env (ck_os w) (cc_gpu_index a) (ck_environ w)"
    "run_claimed w a scope key = (ends_with_code w (case ck_run w env cmd of None \<Rightarrow> Crashed | Some rc \<Rightarrow> ExitCode rc))
       \<lparr>co_ran := Some (env, cmd, r), co_files := remove_record r fs\<rparr>"
  using assms
  by (auto simp: run_claimed_def ends_with_code_def Let_def
      split: option.splits sum.splits claim_error.splits claim_refusal.splits)

lemma claim_main_ran:
  assumes "co_ran (claim_main w a) = Some x"
  obtains scope key where "vetted w a scope" "gpu_key (ck_os w) (cc_gpu_index a) = Inr key"
    "claim_main w a = run_claimed w a scope key"
proof -
  have no: "co_ran (ends_with_code w e) = None" for e by (simp add: ends_with_code_def)
  have reap: "co_ran (reap_command w) = None"
    by (simp add: reap_command_def ends_with_code_def split: option.split prod.split)
  obtain scope where scope: "scope_of w a = Inr scope"
    using assms no reap by (cases "scope_of w a") (auto simp: claim_main_def split: if_splits)
  obtain key where key: "gpu_key (ck_os w) (cc_gpu_index a) = Inr key"
    using assms no reap scope by (cases "gpu_key (ck_os w) (cc_gpu_index a)") (auto simp: claim_main_def split: if_splits)
  have "vetted w a scope \<and> claim_main w a = run_claimed w a scope key"
    using assms no reap scope_of_vetted [OF scope]
    by (auto simp: claim_main_def scope key vetted_def not_le split: if_splits option.splits preflight_result.splits)
  with key show thesis using that by blast
qed

lemma first_source_not_Nil: "first_source raws = Inr key \<Longrightarrow> key \<noteq> []"
  by (induction raws rule: first_source.induct)
     (auto simp: normalize_gpu_uuid_def Let_def split: if_splits)

lemma gpu_key_not_Nil: "gpu_key os i = Inr key \<Longrightarrow> key \<noteq> []"
  unfolding gpu_key_def by (rule first_source_not_Nil)

text \<open>C15: the command runs only under a claim.  If \<open>gpu-claim\<close> runs something, it is the command
  after \<open>--\<close>, in the pinned environment; the options were vetted (a positive share or the whole
  card, a scope that is a cgroup a claim may name, a card without strangers unless that check was
  waived); a record for this card was written at a moment when the mutex was held and the declared
  share fitted among the card's live holders, in the memory the claimed card has by the
  configuration and its own report and within the configured number of holders; and when the command ends, however it
  ends, the record is gone and the exit code is the command's own.\<close>

theorem claim_guards_the_command:
  assumes "co_ran (claim_main w a) = Some (env, cmd, r)"
  shows "\<exists>scope key share. vetted w a scope \<and> cmd = command_of a
    \<and> env = child_env (ck_os w) (cc_gpu_index a) (ck_environ w)
    \<and> gpu_key (ck_os w) (cc_gpu_index a) = Inr key \<and> share = cc_vram_mb a
    \<and> list_ex (\<lambda>t. at_mutex t = Locked
        \<and> fits (live_records (at_os t) (records_for key (claim_dir (ck_claim_env w)) (at_files t))) share
              (default_usable_mb (ck_config w) (ck_os w) (cc_gpu_index a)) (Some (max_holders (ck_config w)))
        \<and> lr_pid r = own_pid (at_os t) \<and> lr_vram_mb r = share \<and> lr_key r = PStr key
        \<and> lr_scope_cgroup r = of_str_opt scope
        \<and> co_files (claim_main w a) = remove_record r (write_record r (at_files t))) (ck_attempts w)
    \<and> co_end (claim_main w a) = (case ck_run w env cmd of None \<Rightarrow> Crashed | Some rc \<Rightarrow> ExitCode rc)"
proof -
  let ?u = "default_usable_mb (ck_config w) (ck_os w) (cc_gpu_index a)"
  obtain scope key where v: "vetted w a scope" "gpu_key (ck_os w) (cc_gpu_index a) = Inr key"
    and main: "claim_main w a = run_claimed w a scope key"
    using assms by (rule claim_main_ran)
  obtain fs where c: "command_claim w a scope key = Some (Inr (r, fs))" "cmd = command_of a"
    "env = child_env (ck_os w) (cc_gpu_index a) (ck_environ w)"
    and out: "run_claimed w a scope key = (ends_with_code w (case ck_run w env cmd of None \<Rightarrow> Crashed | Some rc \<Rightarrow> ExitCode rc))
       \<lparr>co_ran := Some (env, cmd, r), co_files := remove_record r fs\<rparr>"
    using assms unfolding main by (rule run_claimed_ran)
  obtain share where share: "declared_share (of_int_opt (cc_vram_mb a)) = Some share"
    and gr: "list_ex (granted_at ?u \<lparr>ca_key = [], ca_owner = PStr (case cc_owner a of None \<Rightarrow> ck_user w | Some s \<Rightarrow> if s = [] then ck_user w else s),
        ca_cmd = map PStr (command_of a), ca_dir = claim_dir (ck_claim_env w), ca_share = None,
        ca_own_usage = True, ca_max_holders = None, ca_scope_pid = cc_scope_pid a, ca_scope_cgroup = of_str_opt scope\<rparr>
        key share (Some (max_holders (ck_config w))) (r, fs)) (ck_attempts w)"
    using gpu_claim_granted [OF c(1) [unfolded command_claim_def] gpu_key_not_Nil [OF v(2)]] by blast
  have "share = cc_vram_mb a"
    using share by (cases "cc_vram_mb a") (auto split: if_splits)
  moreover have "list_ex (\<lambda>t. at_mutex t = Locked
        \<and> fits (live_records (at_os t) (records_for key (claim_dir (ck_claim_env w)) (at_files t))) share
              (default_usable_mb (ck_config w) (ck_os w) (cc_gpu_index a)) (Some (max_holders (ck_config w)))
        \<and> lr_pid r = own_pid (at_os t) \<and> lr_vram_mb r = share \<and> lr_key r = PStr key
        \<and> lr_scope_cgroup r = of_str_opt scope
        \<and> co_files (claim_main w a) = remove_record r (write_record r (at_files t))) (ck_attempts w)"
    using gr unfolding main out by (auto simp: granted_at_def list_ex_iff)
  moreover have "co_end (claim_main w a) = (case ck_run w env cmd of None \<Rightarrow> Crashed | Some rc \<Rightarrow> ExitCode rc)"
    unfolding main out by (simp add: ends_with_code_def)
  ultimately show ?thesis using v c(2,3) by blast
qed

definition example_shell :: claim_world where
  "example_shell = \<lparr>ck_os = quiet_box\<lparr>smi_uuid := Some ''GPU-aa''\<rparr>, ck_config = NoFile, ck_claim_env = Some ''/locks'',
     ck_resolve = Some, ck_deny = (\<lambda>_. None), ck_environ = [(''CUDA_VISIBLE_DEVICES'', [])], ck_user = ''bob'',
     ck_files = [], ck_attempts = [calm TimedOut, calm Locked],
     ck_run = (\<lambda>env cmd. if map_of env ''CUDA_VISIBLE_DEVICES'' = Some ''GPU-aa'' then Some 7 else Some 1)\<rparr>"

definition example_options :: claim_options where
  "example_options = \<lparr>cc_wait = True, cc_no_preflight = False, cc_owner = None, cc_gpu_index = 0, cc_status = False,
     cc_reap = False, cc_vram_mb = None, cc_scope_pid = None, cc_cmd = [''--'', ''python'', ''t.py'']\<rparr>"

lemma example_shell_runs:
  "map_option (fst \<circ> snd) (co_ran (claim_main example_shell example_options)) = Some [''python'', ''t.py'']
     \<and> co_end (claim_main example_shell example_options) = ExitCode 7"
  by code_simp

lemma claim_guards_the_command_witness:
  "\<exists>scope. vetted example_shell example_options scope"
proof -
  obtain env cmd r where "co_ran (claim_main example_shell example_options) = Some (env, cmd, r)"
    using example_shell_runs by (cases "co_ran (claim_main example_shell example_options)") auto
  from claim_guards_the_command [OF this] show ?thesis by blast
qed

section \<open>The pin\<close>

lemma strip_Nil: "strip s = [] \<longleftrightarrow> list_all is_space s"
proof -
  have "list_all is_space (dropWhile is_space s) \<longleftrightarrow> list_all is_space s"
    by (induction s) auto
  then show ?thesis by (simp add: strip_def list_all_iff)
qed

lemma strip_strip_Nil: "strip (strip s) = [] \<longleftrightarrow> strip s = []"
proof
  assume "strip (strip s) = []"
  then have blank: "list_all is_space (strip s)" by (simp add: strip_Nil)
  show "strip s = []"
  proof (rule ccontr)
    let ?d = "dropWhile is_space (rev (dropWhile is_space s))"
    assume "strip s \<noteq> []"
    then have "?d \<noteq> []" by (simp only: strip_def rev_is_Nil_conv) simp
    then have "\<not> is_space (hd ?d)" "hd ?d \<in> set ?d" by (rule hd_dropWhile, rule hd_in_set)
    moreover have "set (strip s) = set ?d" unfolding strip_def by (rule set_rev)
    ultimately show False using blank unfolding list_all_iff by blast
  qed
next
  have "strip [] = []" by (simp add: strip_def)
  then show "strip s = [] \<Longrightarrow> strip (strip s) = []" by metis
qed

lemma pin_not_blank: "cuda_visible_value os index = Some v \<Longrightarrow> strip v \<noteq> []"
  by (auto simp: cuda_visible_value_def strip_strip_Nil split: option.splits if_splits)

text \<open>A command that holds a card is never left without one by accident.  The command's
  environment is the caller's except for \<open>CUDA_VISIBLE_DEVICES\<close>; that one is the caller's when the
  caller's has anything in it but blanks, the claimed card's identifier when not, and absent when
  the card has none: it is never present and blank.\<close>

lemma child_env_pins:
  "map_of (AList.delete ''CUDA_VISIBLE_DEVICES'' (child_env os index environ))
      = map_of (AList.delete ''CUDA_VISIBLE_DEVICES'' environ)
   \<and> map_of (child_env os index environ) ''CUDA_VISIBLE_DEVICES''
      = (case map_of environ ''CUDA_VISIBLE_DEVICES'' of
           Some s \<Rightarrow> if strip s \<noteq> [] then Some s else cuda_visible_value os index
         | None \<Rightarrow> cuda_visible_value os index)
   \<and> (case map_of (child_env os index environ) ''CUDA_VISIBLE_DEVICES'' of None \<Rightarrow> True | Some v \<Rightarrow> strip v \<noteq> [])"
  using pin_not_blank [of os index]
  by (auto simp: child_env_def Let_def update_conv' delete_conv' fun_eq_iff strip_Nil split: option.splits)

end
