(* ===== verification/QueueCommand.thy ===== *)
theory QueueCommand
  imports Bugfiler Killlog Claim
begin

text \<open>
  \<open>src/gpuqueue/cli_gpuq.py\<close>: \<open>gpuq\<close>, the command line of the queue.  Modelled are what each
  subcommand does to the queue, what it prints on standard output and its exit code; the
  messages on standard error are not.  \<open>argparse\<close> is the standard library's: the parsed options
  are arguments, as are the random suffix of an identifier and \<open>str\<close> of a JSON value.
\<close>

datatype command_end = Code int | Traceback | Waiting

datatype printed = Line string | Json pyval

section \<open>Waiting for a job\<close>

definition WAIT_TIMED_OUT :: int where
  "WAIT_TIMED_OUT = 124"

text \<open>Each round of the loop sees what \<open>find\<close> returns and, with a deadline, the clock.\<close>

record round =
  rd_found :: "(qstate \<times> jobspec) option"
  rd_clock :: time

datatype wait_end = JobDone | JobFailed "string option" | NoSuchJob | StillIn "qstate option"

definition past_deadline :: "pyfloat option \<Rightarrow> time \<Rightarrow> bool" where
  "past_deadline deadline clock = (case deadline of None \<Rightarrow> False | Some x \<Rightarrow> time_ge clock x)"

text \<open>\<open>None\<close>: still waiting after the rounds listed.\<close>

fun wait_loop :: "pyfloat option \<Rightarrow> bool \<Rightarrow> round list \<Rightarrow> wait_end option" where
  "wait_loop deadline seen [] = None"
| "wait_loop deadline seen (r # rs) = (case rd_found r of
      None \<Rightarrow> if \<not> seen then Some NoSuchJob
        else if past_deadline deadline (rd_clock r) then Some (StillIn None)
        else wait_loop deadline seen rs
    | Some (st, s) \<Rightarrow> if st = Done then Some JobDone
        else if st = Failed then Some (JobFailed (js_error s))
        else if past_deadline deadline (rd_clock r) then Some (StillIn (Some st))
        else wait_loop deadline True rs)"

definition wait_for :: "time \<Rightarrow> pyfloat option \<Rightarrow> round list \<Rightarrow> wait_end option" where
  "wait_for start timeout rs = wait_loop (map_option (add_float (Finite start)) timeout) False rs"

definition wait_code :: "wait_end \<Rightarrow> int" where
  "wait_code e = (case e of JobDone \<Rightarrow> 0 | JobFailed _ \<Rightarrow> 1 | NoSuchJob \<Rightarrow> 2 | StillIn _ \<Rightarrow> WAIT_TIMED_OUT)"

definition wait_printed :: "string \<Rightarrow> wait_end \<Rightarrow> printed list" where
  "wait_printed i e = (case e of JobDone \<Rightarrow> [Line (''done '' @ i)] | _ \<Rightarrow> [])"

section \<open>Submitting\<close>

record submit_options =
  so_id :: "string option"
  so_lane :: string
  so_project :: string
  so_commit :: string
  so_branch :: string
  so_cmd :: "string list"
  so_artifacts :: "string list"
  so_timeout_s :: int
  so_dedupe_key :: "string option"
  so_vram_mb :: "int option"
  so_wait :: bool
  so_timeout :: "pyfloat option"

definition compact_stamp :: "datetime \<Rightarrow> string" where
  "compact_stamp d = show_nat (dt_year d) @ two_digits (dt_month d) @ two_digits (dt_day d) @ ''T''
     @ two_digits (dt_hour d) @ two_digits (dt_minute d) @ two_digits (dt_second d) @ ''Z''"

definition generate_id :: "string \<Rightarrow> datetime \<Rightarrow> string \<Rightarrow> string" where
  "generate_id prefix now token = prefix @ ''-'' @ compact_stamp now @ ''-'' @ token"

definition queue_root :: "string option \<Rightarrow> string option \<Rightarrow> path" where
  "queue_root arg env = path_parts (case arg of
      Some (c # s) \<Rightarrow> c # s
    | _ \<Rightarrow> (case env of Some (c # s) \<Rightarrow> c # s | _ \<Rightarrow> ''/workspace/queue''))"

definition spec_of :: "submit_options \<Rightarrow> datetime \<Rightarrow> string \<Rightarrow> jobspec" where
  "spec_of o1 now token =
     \<lparr>js_id = (case so_id o1 of Some (c # s) \<Rightarrow> c # s | _ \<Rightarrow> generate_id (so_project o1) now token),
      js_lane = so_lane o1, js_project = so_project o1, js_commit = so_commit o1, js_branch = so_branch o1,
      js_cmd = map PStr (so_cmd o1), js_artifacts = so_artifacts o1, js_timeout_s = PInt (so_timeout_s o1),
      js_vram_mb = of_int_opt (so_vram_mb o1), js_attempts = 0, js_dedupe_key = so_dedupe_key o1,
      js_submitted_at = stamp_text now, js_pid = None, js_runner_pid = None, js_exit_code = None, js_error = None\<rparr>"

record command_outcome =
  cm_end :: command_end
  cm_out :: "printed list"
  cm_jobs :: jobs

definition waited :: "string \<Rightarrow> wait_end option \<Rightarrow> printed list \<Rightarrow> jobs \<Rightarrow> command_outcome" where
  "waited i e before fs = (case e of
      None \<Rightarrow> \<lparr>cm_end = Waiting, cm_out = before, cm_jobs = fs\<rparr>
    | Some x \<Rightarrow> \<lparr>cm_end = Code (wait_code x), cm_out = before @ wait_printed i x, cm_jobs = fs\<rparr>)"

definition cmd_submit :: "path \<Rightarrow> submit_options \<Rightarrow> datetime \<Rightarrow> string \<Rightarrow> time \<Rightarrow> round list \<Rightarrow> jobs \<Rightarrow> command_outcome" where
  "cmd_submit qroot o1 now token start rs fs =
    (case submit qroot (spec_of o1 now token) fs of
       (Inl _, fs') \<Rightarrow> \<lparr>cm_end = Code 2, cm_out = [], cm_jobs = fs'\<rparr>
     | (Inr i, fs') \<Rightarrow> if so_wait o1 then waited i (wait_for start (so_timeout o1) rs) [Line i] fs'
         else \<lparr>cm_end = Code 0, cm_out = [Line i], cm_jobs = fs'\<rparr>)"

text \<open>\<open>main\<close>: a leading \<open>--\<close> of the command is dropped, and a command there must be.\<close>

definition main_submit :: "path \<Rightarrow> submit_options \<Rightarrow> datetime \<Rightarrow> string \<Rightarrow> time \<Rightarrow> round list \<Rightarrow> jobs \<Rightarrow> command_outcome" where
  "main_submit qroot o1 now token start rs fs =
    (let cmd = (case so_cmd o1 of c # cs \<Rightarrow> if c = ''--'' then cs else c # cs | [] \<Rightarrow> [])
     in if cmd = [] then \<lparr>cm_end = Code 2, cm_out = [], cm_jobs = fs\<rparr>
        else cmd_submit qroot (o1\<lparr>so_cmd := cmd\<rparr>) now token start rs fs)"

definition cmd_wait :: "string \<Rightarrow> pyfloat option \<Rightarrow> time \<Rightarrow> round list \<Rightarrow> jobs \<Rightarrow> command_outcome" where
  "cmd_wait i timeout start rs fs = waited i (wait_for start timeout rs) [] fs"

section \<open>Looking\<close>

definition orphaned :: "snapshot \<Rightarrow> qstate \<Rightarrow> jobspec \<Rightarrow> bool" where
  "orphaned os st s = (st = Running \<and> job_orphaned os (js_pid s) (js_runner_pid s))"

definition list_row :: "snapshot \<Rightarrow> qstate \<Rightarrow> jobspec \<Rightarrow> pydict" where
  "list_row os st s = [(''state'', PStr (state_dir st)), (''orphaned'', PBool (orphaned os st s))] @ to_dict s"

definition ljust :: "nat \<Rightarrow> string \<Rightarrow> string" where
  "ljust n s = s @ replicate (n - length s) CHR '' ''"

definition row_line :: "snapshot \<Rightarrow> qstate \<Rightarrow> jobspec \<Rightarrow> string" where
  "row_line os st s = ljust 8 (state_dir st) @ '' '' @ ljust 3 (js_lane s) @ '' '' @ ljust 40 (js_id s) @ '' ''
     @ js_project s @ (if orphaned os st s then ''  ORPHANED (runner gone; nothing is supervising it)'' else [])"

definition listed :: "path \<Rightarrow> qstate option \<Rightarrow> jobs \<Rightarrow> (qstate \<times> jobspec) list" where
  "listed qroot only fs = concat (map (\<lambda>st. map (\<lambda>s. (st, s)) (list_state qroot st fs))
     (case only of None \<Rightarrow> STATES | Some st \<Rightarrow> [st]))"

definition cmd_list :: "path \<Rightarrow> snapshot \<Rightarrow> qstate option \<Rightarrow> bool \<Rightarrow> jobs \<Rightarrow> command_outcome" where
  "cmd_list qroot os only json fs =
     \<lparr>cm_end = Code 0,
      cm_out = (if json then [Json (PList (map (\<lambda>(st, s). PDict (list_row os st s)) (listed qroot only fs)))]
        else map (\<lambda>(st, s). Line (row_line os st s)) (listed qroot only fs)),
      cm_jobs = fs\<rparr>"

definition cmd_show :: "path \<Rightarrow> snapshot \<Rightarrow> string \<Rightarrow> jobs \<Rightarrow> command_outcome" where
  "cmd_show qroot os i fs = (case find_job qroot i fs of
      None \<Rightarrow> \<lparr>cm_end = Code 1, cm_out = [], cm_jobs = fs\<rparr>
    | Some (st, s) \<Rightarrow> \<lparr>cm_end = Code 0,
        cm_out = [Json (PDict (list_row os st s @ [(''stdout_log'', PStr (path_text (fst (log_paths qroot i)))),
          (''stderr_log'', PStr (path_text (snd (log_paths qroot i))))]))],
        cm_jobs = fs\<rparr>)"

definition cmd_cancel :: "path \<Rightarrow> string \<Rightarrow> jobs \<Rightarrow> command_outcome" where
  "cmd_cancel qroot i fs = (case cancel qroot i fs of
      (Inl _, fs') \<Rightarrow> \<lparr>cm_end = Traceback, cm_out = [], cm_jobs = fs'\<rparr>
    | (Inr True, fs') \<Rightarrow> \<lparr>cm_end = Code 0, cm_out = [Line (''cancelled '' @ i)], cm_jobs = fs'\<rparr>
    | (Inr False, fs') \<Rightarrow> \<lparr>cm_end = Code 1, cm_out = [], cm_jobs = fs'\<rparr>)"

section \<open>Reporting a bug\<close>

definition cmd_bug :: "github \<Rightarrow> config_file \<Rightarrow> string \<Rightarrow> string option \<Rightarrow> string \<Rightarrow> filer
    \<Rightarrow> command_end \<times> printed list \<times> filer" where
  "cmd_bug G c title body stdin f = (case load_config c of
      Inl OtherException \<Rightarrow> (Traceback, [], f)
    | Inl e \<Rightarrow> (Code 2, [], f)
    | Inr cfg \<Rightarrow>
        (let af = rc_autofix cfg; text1 = (case body of None \<Rightarrow> stdin | Some b \<Rightarrow> b) in
         if \<not> ac_enabled af \<or> \<not> truthy (ac_repo af) then (Code 2, [], f)
         else if strip text1 = [] then (Code 2, [], f)
         else (case file_agent_report G af title text1 f of
             (Inl (GhError e), f') \<Rightarrow> (Code 1, [], f')
           | (Inl OtherRaise, f') \<Rightarrow> (Traceback, [], f')
           | (Inr n, f') \<Rightarrow> (Code 0, [Line (case n of None \<Rightarrow> ''filed''
               | Some k \<Rightarrow> if k = 0 then ''filed'' else ''filed #'' @ show_int k)], f'))))"

section \<open>The log of kills\<close>

text \<open>\<open>', '.join(v)\<close>; \<open>None\<close> is the TypeError.\<close>

fun strings_in :: "pyval list \<Rightarrow> string list option" where
  "strings_in [] = Some []"
| "strings_in (PStr s # vs) = map_option (\<lambda>ss. s # ss) (strings_in vs)"
| "strings_in (_ # vs) = None"

definition comma_join :: "pyval \<Rightarrow> string option" where
  "comma_join v = (case v of
      PList vs \<Rightarrow> map_option (join '', '') (strings_in vs)
    | PStr s \<Rightarrow> Some (join '', '' (map (\<lambda>c. [c]) s))
    | PDict d \<Rightarrow> Some (join '', '' (map fst d))
    | _ \<Rightarrow> None)"

definition value_or :: "pyval \<Rightarrow> pyval \<Rightarrow> pyval" where
  "value_or v dflt = (if truthy v then v else dflt)"

text \<open>The lines printed of an entry, and whether nothing raised: \<open>e.get\<close> on something else than a
  dictionary does before the first line, the join after the third.\<close>

definition kill_lines :: "(pyval \<Rightarrow> string) \<Rightarrow> pyval \<Rightarrow> bool \<times> printed list" where
  "kill_lines str_of v = (case v of
       PDict e \<Rightarrow>
         (let first = [Line (str_of (dict_get_or ''ts'' (PStr ''?'') e) @ ''  pid '' @ str_of (dict_get ''pid'' e) @ ''  ''
                @ (if dict_get ''used_mb'' e = PNone then ''?'' else str_of (dict_get ''used_mb'' e)) @ '' MiB  ''
                @ str_of (value_or (dict_get ''name'' e) (PStr ''?''))),
              Line (''    cgroup:  '' @ str_of (value_or (dict_get ''cgroup'' e) (PStr ''(none read)''))),
              Line (''    reason:  '' @ str_of (dict_get ''reason'' e))]
          in case comma_join (value_or (dict_get ''ledgers_consulted'' e) (PList [PStr ''(none)''])) of
               None \<Rightarrow> (False, first)
             | Some ledgers \<Rightarrow> (True, first @ [Line (''    ledgers: '' @ ledgers)]))
     | _ \<Rightarrow> (False, []))"

fun all_kill_lines :: "(pyval \<Rightarrow> string) \<Rightarrow> pyval list \<Rightarrow> bool \<times> printed list" where
  "all_kill_lines str_of [] = (True, [])"
| "all_kill_lines str_of (e # es) =
     (let (ok, ls) = kill_lines str_of e; (fine, rest) = (if ok then all_kill_lines str_of es else (False, []))
      in (fine, ls @ rest))"

definition none_shown :: "int \<Rightarrow> nat \<Rightarrow> string" where
  "none_shown limit n = ''no kills shown: --limit '' @ show_int limit @ '' selects none of the '' @ show_nat n
     @ '' recorded -- pass a positive --limit''"

definition some_shown :: "nat \<Rightarrow> nat \<Rightarrow> string" where
  "some_shown k n = ''showing the most recent '' @ show_nat k @ '' of '' @ show_nat n
     @ '' -- pass --limit '' @ show_nat n @ '' for all''"

definition cmd_kills :: "(pyval \<Rightarrow> string) \<Rightarrow> int \<Rightarrow> kill_line list option \<Rightarrow> command_end \<times> printed list" where
  "cmd_kills str_of limit file =
    (let (entries, n) = read_with_total file (Some limit) in
     if entries = [] then (Code 0, [Line (if n \<noteq> 0 then none_shown limit n else ''no kills recorded'')])
     else (let (ok, ls) = all_kill_lines str_of entries;
               notice = (if n > length entries then [Line (some_shown (length entries) n)] else [])
           in (if ok then Code 0 else Traceback, notice @ ls)))"

section \<open>What a wait comes to\<close>

definition settled :: "round \<Rightarrow> wait_end option" where
  "settled r = (case rd_found r of
      Some (Done, _) \<Rightarrow> Some JobDone | Some (Failed, s) \<Rightarrow> Some (JobFailed (js_error s)) | _ \<Rightarrow> None)"

definition undecided :: "pyfloat option \<Rightarrow> round \<Rightarrow> bool" where
  "undecided deadline r = (settled r = None \<and> \<not> past_deadline deadline (rd_clock r))"

text \<open>The first round that is not undecided has the property.\<close>

definition first_at :: "pyfloat option \<Rightarrow> round list \<Rightarrow> (round \<Rightarrow> bool) \<Rightarrow> bool" where
  "first_at deadline rs P \<longleftrightarrow> (\<exists>pre r post. rs = pre @ r # post \<and> list_all (undecided deadline) pre \<and> P r)"

definition verdict_of :: "pyfloat option \<Rightarrow> round list \<Rightarrow> wait_end option \<Rightarrow> bool" where
  "verdict_of deadline rs e = (case e of
      None \<Rightarrow> list_all (undecided deadline) rs
    | Some NoSuchJob \<Rightarrow> (\<exists>r rest. rs = r # rest \<and> rd_found r = None)
    | Some (StillIn st) \<Rightarrow> first_at deadline rs (\<lambda>r. settled r = None
        \<and> past_deadline deadline (rd_clock r) \<and> map_option fst (rd_found r) = st)
    | Some x \<Rightarrow> first_at deadline rs (\<lambda>r. settled r = Some x))"

lemma first_at_here: "P r \<Longrightarrow> first_at deadline (r # rs) P"
  unfolding first_at_def by (intro exI [of _ "[]"] exI [of _ r] exI [of _ rs]) simp

lemma first_at_later:
  assumes "undecided deadline r" "first_at deadline rs P"
  shows "first_at deadline (r # rs) P"
proof -
  obtain pre q post where "rs = pre @ q # post" "list_all (undecided deadline) pre" "P q"
    using assms(2) by (auto simp: first_at_def)
  with assms(1) have "r # rs = (r # pre) @ q # post \<and> list_all (undecided deadline) (r # pre) \<and> P q" by simp
  then show ?thesis unfolding first_at_def by blast
qed

lemma verdict_Cons:
  assumes "undecided deadline r" "verdict_of deadline rs e" "e \<noteq> Some NoSuchJob"
  shows "verdict_of deadline (r # rs) e"
  using assms by (auto simp: verdict_of_def first_at_later split: option.splits wait_end.splits)

lemma wait_loop_seen: "verdict_of deadline rs (wait_loop deadline True rs) \<and> wait_loop deadline True rs \<noteq> Some NoSuchJob"
proof (induction rs)
  case Nil
  show ?case by (simp add: verdict_of_def)
next
  case (Cons r rs)
  show ?case
  proof (cases "undecided deadline r")
    case True
    then have "wait_loop deadline True (r # rs) = wait_loop deadline True rs"
      by (auto simp: undecided_def settled_def split: option.splits prod.splits qstate.splits)
    with Cons verdict_Cons [OF True] show ?thesis by simp
  next
    case False
    then show ?thesis
      by (cases "rd_found r"; cases "fst (the (rd_found r))")
         (auto simp: undecided_def settled_def verdict_of_def intro!: first_at_here)
  qed
qed

lemma wait_loop_first:
  assumes "rd_found r \<noteq> None"
  shows "wait_loop deadline False (r # rs) = wait_loop deadline True (r # rs)"
  using assms by auto

text \<open>C17: a wait says what the queue said.  Whatever the queue and the clock show round after round:
  it ends as done or failed exactly at the first round that finds the job there, with 124 at the
  first round past the deadline before that, with "no such job" only when the first look found
  nothing (a job seen once and missing later is moving, not missing), and it goes on only while
  no round is final or past the deadline.  The exit codes of the four ends differ.\<close>

theorem wait_verdict:
  "verdict_of (map_option (add_float (Finite start)) timeout) rs (wait_for start timeout rs)
   \<and> distinct (map wait_code [JobDone, JobFailed why, NoSuchJob, StillIn st])
   \<and> wait_code JobDone = 0"
proof -
  let ?d = "map_option (add_float (Finite start)) timeout"
  have "verdict_of ?d rs (wait_loop ?d False rs)"
  proof (cases rs)
    case (Cons r rest)
    show ?thesis
    proof (cases "rd_found r")
      case None
      then show ?thesis by (simp add: Cons verdict_of_def)
    next
      case (Some x)
      then show ?thesis using wait_loop_first [of r ?d rest] wait_loop_seen [of ?d rs] by (simp add: Cons)
    qed
  qed (simp add: verdict_of_def)
  then show ?thesis by (simp add: wait_for_def wait_code_def WAIT_TIMED_OUT_def)
qed

section \<open>A job between two looks\<close>

text \<open>\<open>find\<close> is not one step: it probes the directories one after the other, and reads a file after
  it saw it.  One look per access, with the queue as it is at that access.\<close>

fun find_racing :: "path \<Rightarrow> string \<Rightarrow> (jobs \<times> jobs) list \<Rightarrow> qstate list \<Rightarrow> (qstate \<times> jobspec) option" where
  "find_racing qroot i looks [] = None"
| "find_racing qroot i [] (st # sts) = None"
| "find_racing qroot i ((probe, reads) # looks) (st # sts) =
     (if exists_file probe (path_for qroot st i)
      then (case read_spec (path_for qroot st i) reads of Inr s \<Rightarrow> Some (st, s) | Inl _ \<Rightarrow> None)
      else find_racing qroot i looks sts)"

lemma find_racing_still: "length sts \<le> n \<Longrightarrow> find_racing qroot i (replicate n (fs, fs)) sts = find_in qroot i fs sts"
proof (induction sts arbitrary: n)
  case (Cons st sts)
  then show ?case by (cases n) (auto split: sum.splits)
qed simp

definition pending_queue :: jobs where
  "pending_queue = snd (submit [''q''] example_spec [])"

definition claimed_queue :: jobs where
  "claimed_queue = snd (claim [''q''] ''wgan-1'' pending_queue)"

text \<open>The runner claims the job between the probe of \<open>pending\<close> and its read: the job is in the queue
  before and after, and the first look of \<open>gpuq wait\<close> exits with 2, "no such job".\<close>

lemma wait_misses_a_claimed_job:
  "map_option fst (find_job [''q''] ''wgan-1'' pending_queue) = Some Pending
   \<and> map_option fst (find_job [''q''] ''wgan-1'' claimed_queue) = Some Running
   \<and> find_racing [''q''] ''wgan-1'' ((pending_queue, claimed_queue) # replicate 3 (claimed_queue, claimed_queue)) STATES = None
   \<and> wait_for 0 None [\<lparr>rd_found = None, rd_clock = 0\<rparr>, \<lparr>rd_found = Some (Running, example_spec), rd_clock = 2\<rparr>] = Some NoSuchJob
   \<and> wait_code NoSuchJob = 2"
  by code_simp

section \<open>The kills a caller looks for\<close>

lemma notices_tell:
  "contains (show_nat n) (none_shown limit n)" "contains (show_nat n) (some_shown k n)"
proof -
  show "contains (show_nat n) (none_shown limit n)"
    using contains_middle [of "show_nat n" "''no kills shown: --limit '' @ show_int limit @ '' selects none of the ''"
        "'' recorded -- pass a positive --limit''"]
    by (simp only: none_shown_def append_assoc)
  show "contains (show_nat n) (some_shown k n)"
    using contains_middle [of "show_nat n" "''showing the most recent '' @ show_nat k @ '' of ''"
        "'' -- pass --limit '' @ show_nat n @ '' for all''"]
    by (simp only: some_shown_def append_assoc)
qed

lemma none_shown_differs: "none_shown limit n \<noteq> ''no kills recorded''"
  by (simp add: none_shown_def)

text \<open>The first line printed when fewer kills are shown than there are.\<close>

definition announces :: "nat \<Rightarrow> printed list \<Rightarrow> bool" where
  "announces n out = (case out of Line l # _ \<Rightarrow> contains (show_nat n) l | _ \<Rightarrow> False)"

text \<open>\<open>gpuq kills\<close> does not hide kills.  If it prints nothing but "no kills recorded" the log has
  none, and unless it shows every kill of the log its first line has the number there are.\<close>

lemma kills_not_hidden:
  "(if read_all file = [] then cmd_kills str_of limit file = (Code 0, [Line ''no kills recorded''])
    else (case snd (cmd_kills str_of limit file) of [] \<Rightarrow> True | l # _ \<Rightarrow> l \<noteq> Line ''no kills recorded''))
   \<and> (if length (fst (read_with_total file (Some limit))) < length (read_all file)
      then announces (length (read_all file)) (snd (cmd_kills str_of limit file)) else True)"
proof -
  have pid: "contains ''  pid '' (a @ ''  pid '' @ b)" "\<not> contains ''  pid '' ''no kills recorded''" for a b
    by (rule contains_middle) code_simp
  have lines: "case snd (all_kill_lines str_of es) of [] \<Rightarrow> True | l # _ \<Rightarrow> l \<noteq> Line ''no kills recorded''" for es
  proof (cases es)
    case (Cons e rest)
    obtain ok ls where e: "kill_lines str_of e = (ok, ls)" by fastforce
    have "ls = [] \<and> \<not> ok \<or> (\<exists>a b tl. ls = Line (a @ ''  pid '' @ b) # tl)"
      using e unfolding kill_lines_def by (cases e; clarsimp simp: Let_def split: option.splits) blast+
    then show ?thesis
    proof
      assume "ls = [] \<and> \<not> ok"
      then show ?thesis by (simp add: Cons e)
    next
      assume "\<exists>a b tl. ls = Line (a @ ''  pid '' @ b) # tl"
      then obtain a b tl where ls: "ls = Line (a @ ''  pid '' @ b) # tl" by blast
      have "a @ ''  pid '' @ b \<noteq> ''no kills recorded''" using pid(1) [of a b] pid(2) by metis
      moreover have "\<exists>tl'. snd (all_kill_lines str_of es) = Line (a @ ''  pid '' @ b) # tl'"
        unfolding Cons all_kill_lines.simps e ls by (simp add: Let_def split_beta)
      ultimately show ?thesis by (elim exE) (simp only: list.case printed.inject not_False_eq_True)
    qed
  qed simp
  show ?thesis
  proof (cases "fst (read_with_total file (Some limit)) = []")
    case True
    moreover have "apply_limit [] (Some limit) = ([] :: pyval list)"
      by (simp add: apply_limit_def last_n_def)
    ultimately show ?thesis
      by (simp add: cmd_kills_def read_with_total_def Let_def announces_def notices_tell none_shown_differs)
  next
    case False
    then have some: "read_all file \<noteq> []" by (auto simp: read_with_total_def apply_limit_def last_n_def split: if_splits)
    have differs: "some_shown k n \<noteq> ''no kills recorded''" for k n
      by (simp add: some_shown_def)
    show ?thesis
      using False some lines [of "apply_limit (read_all file) (Some limit)"] differs
      by (cases "all_kill_lines str_of (apply_limit (read_all file) (Some limit))")
         (simp add: cmd_kills_def read_with_total_def Let_def announces_def notices_tell)
  qed
qed

end
