(* ===== verification/RunnerCommand.thy ===== *)
theory RunnerCommand
  imports Supervision
begin

text \<open>
  \<open>src/gpuqueue/cli_runner.py\<close> and \<open>Runner.run_forever\<close>: \<open>gpuq-runner\<close>, its warnings, and the
  loop of ticks that a signal ends.  \<open>argparse\<close>, the log and the length of a sleep are not
  modelled; what each tick meets, the signals and what others do between two ticks are
  arguments.
\<close>

section \<open>The loop\<close>

datatype outside = Submits jobspec | Cancels string | ClaimsChange "claims \<Rightarrow> claims"

definition outside_step :: "runner_config \<Rightarrow> outside \<Rightarrow> daemon \<Rightarrow> daemon" where
  "outside_step cfg x d = (case x of
      Submits s \<Rightarrow> with_jobs (\<lambda>fs. snd (submit (rc_queue_root cfg) s fs)) d
    | Cancels i \<Rightarrow> with_jobs (\<lambda>fs. snd (cancel (rc_queue_root cfg) i fs)) d
    | ClaimsChange f \<Rightarrow> with_claims f d)"

text \<open>One turn: what others did before it, whether a signal came before the loop's test, what the
  tick meets, and whether a signal came by the end of the sleep after it.  A signal that comes
  while the tick is still reaping or collecting, which would also make its \<open>admit\<close> a no-op, is
  not told apart from one that comes after.\<close>

record turn =
  tn_outside :: "outside list"
  tn_before :: bool
  tn_reap :: reap_env
  tn_collect :: collect_env
  tn_admit :: pass_env
  tn_after :: bool

definition signalled_if :: "bool \<Rightarrow> daemon \<Rightarrow> daemon" where
  "signalled_if b d = (if b then stop d else d)"

text \<open>The \<open>while\<close> loop up to its exit.  \<open>None\<close>: still running after the turns listed, or in a
  kill whose observations do not end it.\<close>

fun run_loop :: "runner_config \<Rightarrow> turn list \<Rightarrow> daemon \<Rightarrow> daemon outcome option" where
  "run_loop cfg [] d = None"
| "run_loop cfg (t # ts) d =
     (let d1 = signalled_if (tn_before t) (fold (outside_step cfg) (tn_outside t) d) in
      if dm_stopping d1 then Some (Fine d1)
      else (case tick cfg (tn_reap t) (tn_collect t) (tn_admit t) d1 of
          None \<Rightarrow> None
        | Some (Raised d2) \<Rightarrow> Some (Raised d2)
        | Some (Fine (finished, started, d2)) \<Rightarrow>
            (let d3 = signalled_if (tn_after t) d2 in
             if dm_stopping d3 then Some (Fine d3) else run_loop cfg ts d3)))"

definition run_forever :: "runner_config \<Rightarrow> turn list \<Rightarrow> daemon \<Rightarrow> daemon outcome option" where
  "run_forever cfg ts d = map_option (\<lambda>r. case r of
      Raised d1 \<Rightarrow> Raised d1 | Fine d1 \<Rightarrow> Fine (shutdown cfg d1)) (run_loop cfg ts d)"

section \<open>The command\<close>

text \<open>The two ways the daemon and \<open>gpu-claim\<close> read different settings: the configuration file and
  the claim directory.  \<open>Path.resolve\<close> does not raise on a missing file.\<close>

definition reads_another_config :: "(path \<Rightarrow> path) \<Rightarrow> path \<Rightarrow> path \<Rightarrow> bool" where
  "reads_another_config realpath config default_config = (realpath config \<noteq> realpath default_config)"

definition keeps_another_ledger :: "(path \<Rightarrow> path) \<Rightarrow> string option \<Rightarrow> runner_config \<Rightarrow> bool" where
  "keeps_another_ledger realpath env cfg = (case rc_claim_dir cfg of None \<Rightarrow> False
     | Some d \<Rightarrow> realpath d \<noteq> realpath (claim_dir env))"

definition default_config_path :: "string option \<Rightarrow> path" where
  "default_config_path env = path_parts (case env of None \<Rightarrow> ''/workspace/gpuq.toml'' | Some s \<Rightarrow> s)"

datatype runner_end = RunnerExit int | RunnerDied | RunnerOn

record runner_outcome =
  ro_end :: runner_end
  ro_warned :: "bool \<times> bool"
  ro_daemon :: daemon

definition fresh_runner :: "world \<Rightarrow> daemon" where
  "fresh_runner w = \<lparr>dm_world = w\<lparr>w_strikes := Some []\<rparr>, dm_active = [], dm_stopping = False, dm_last_cuda_sweep = None,
     dm_usable_cache = None, dm_usable_asked = False, dm_card_key = None, dm_convicted = [],
     dm_last_conviction = None, dm_stuck_claims = {}, dm_void_scopes = {}, dm_gpuid_strikes = 0,
     dm_preflight_at = None, dm_preflight_result = None, dm_effects = []\<rparr>"

text \<open>\<open>main\<close>: \<open>files\<close> is what reading a path as TOML gives.\<close>

definition runner_main :: "(path \<Rightarrow> config_file) \<Rightarrow> (path \<Rightarrow> path) \<Rightarrow> string option \<Rightarrow> string option
    \<Rightarrow> string option \<Rightarrow> bool \<Rightarrow> turn list \<Rightarrow> world \<Rightarrow> runner_outcome" where
  "runner_main files realpath config_arg config_env claim_env once turns w =
    (let path = (case config_arg of Some (c # s) \<Rightarrow> path_parts (c # s) | _ \<Rightarrow> default_config_path config_env);
         d = fresh_runner w
     in case load_config (files path) of
          Inl OtherException \<Rightarrow> \<lparr>ro_end = RunnerDied, ro_warned = (False, False), ro_daemon = d\<rparr>
        | Inl e \<Rightarrow> \<lparr>ro_end = RunnerExit 2, ro_warned = (False, False), ro_daemon = d\<rparr>
        | Inr cfg \<Rightarrow>
            (let warned = (reads_another_config realpath path (default_config_path config_env),
                           keeps_another_ledger realpath claim_env cfg)
             in if once
                then (case turns of [] \<Rightarrow> \<lparr>ro_end = RunnerOn, ro_warned = warned, ro_daemon = d\<rparr>
                  | t # _ \<Rightarrow> (case tick cfg (tn_reap t) (tn_collect t) (tn_admit t) d of
                        None \<Rightarrow> \<lparr>ro_end = RunnerOn, ro_warned = warned, ro_daemon = d\<rparr>
                      | Some (Raised d1) \<Rightarrow> \<lparr>ro_end = RunnerDied, ro_warned = warned, ro_daemon = d1\<rparr>
                      | Some (Fine (finished, started, d1)) \<Rightarrow> \<lparr>ro_end = RunnerExit 0, ro_warned = warned, ro_daemon = d1\<rparr>))
                else (case run_forever cfg turns d of
                    None \<Rightarrow> \<lparr>ro_end = RunnerOn, ro_warned = warned, ro_daemon = d\<rparr>
                  | Some (Raised d1) \<Rightarrow> \<lparr>ro_end = RunnerDied, ro_warned = warned, ro_daemon = d1\<rparr>
                  | Some (Fine d1) \<Rightarrow> \<lparr>ro_end = RunnerExit 0, ro_warned = warned, ro_daemon = d1\<rparr>)))"

section \<open>A clean stop\<close>

lemma outside_life: "life cfg d \<Longrightarrow> life cfg (fold (outside_step cfg) xs d)"
proof (induction xs arbitrary: d)
  case (Cons x xs)
  have "life cfg (outside_step cfg x d)"
    using Cons.prems by (cases x) (auto simp: outside_step_def intro: life.submitted life.cancelled life.claims_change)
  then show ?case using Cons.IH by simp
qed simp

lemma signalled_life: "life cfg d \<Longrightarrow> life cfg (signalled_if b d)"
  by (simp add: signalled_if_def life.signalled)

lemma run_loop_life:
  assumes "life cfg d" "run_loop cfg turns d = Some (Fine d')"
  shows "life cfg d' \<and> dm_stopping d'"
  using assms
proof (induction turns arbitrary: d)
  case (Cons t ts)
  let ?d1 = "signalled_if (tn_before t) (fold (outside_step cfg) (tn_outside t) d)"
  have l1: "life cfg ?d1" using Cons.prems(1) by (intro signalled_life outside_life)
  show ?case
  proof (cases "dm_stopping ?d1")
    case True
    with Cons.prems(2) l1 show ?thesis by auto
  next
    case False
    with Cons.prems(2) obtain finished started d2 where
      tick: "tick cfg (tn_reap t) (tn_collect t) (tn_admit t) ?d1 = Some (Fine (finished, started, d2))"
      and rest: "(let d3 = signalled_if (tn_after t) d2 in
        if dm_stopping d3 then Some (Fine d3) else run_loop cfg ts d3) = Some (Fine d')"
      by (auto simp: Let_def split: option.splits outcome.splits prod.splits)
    have l3: "life cfg (signalled_if (tn_after t) d2)"
      by (rule signalled_life) (rule life.ticked [OF l1 tick])
    with rest Cons.IH show ?thesis by (auto simp: Let_def split: if_splits)
  qed
qed simp

text \<open>The process groups the shutdown kills and the trees it removes, in order.\<close>

definition torn_down :: "(string \<times> active) list \<Rightarrow> effect list" where
  "torn_down acts = concat (map (\<lambda>(i, a). [JobKilled (rj_pid (av_running a)), TreeRemoved (av_workdir a)]) acts)"

lemma fold_shutdown_effects:
  "dm_effects (fold (shutdown_one cfg) acts d) = dm_effects d @ torn_down acts"
  by (induction acts arbitrary: d)
    (auto simp: torn_down_def shutdown_one_def did_def with_jobs_def with_claims_def exit_claim_def split: option.splits)

text \<open>C16: a stopped runner holds nothing.  A runner started with a configuration that loads, on a
  queue where every job is in one state: whatever its ticks meet and whatever others submit,
  cancel or claim meanwhile, its loop is left only because it was told to stop, and then
  \<open>run_forever\<close> returns with nothing supervised any more: each job it was running had its process
  group killed and its work tree removed, the record of every claim it held is gone, and the job is
  where it was with no pid, for the next runner to settle.\<close>

theorem stopped_runner_holds_nothing:
  assumes "well_configured cfg" "board_ok (rc_queue_root cfg) (w_jobs w)"
    and "run_loop cfg turns (fresh_runner w) = Some (Fine d)"
  shows "dm_stopping d \<and> (\<exists>d'. run_forever cfg turns (fresh_runner w) = Some (Fine d')
    \<and> dm_active d' = []
    \<and> list_all (\<lambda>q. load q (claims_of d') = None) (held_paths (dm_active d))
    \<and> list_all (\<lambda>(i, a). job_at (rc_queue_root cfg) (jobs_of d') Running i
          = Some (JobDoc ((rj_spec (av_running a))\<lparr>js_pid := None\<rparr>))) (dm_active d)
    \<and> dm_effects d' = dm_effects d @ torn_down (dm_active d))"
proof -
  have "life cfg (fresh_runner w)"
    using assms(2) by (intro life.born) (simp_all add: fresh_runner_def)
  then have d: "life cfg d" "dm_stopping d" using run_loop_life assms(3) by blast+
  have t: "tracked (rc_queue_root cfg) (jobs_of d) (dm_active d)"
    using life_supervised [OF assms(1) d(1)] by (rule supervised_tracked)
  have m: "map_of (dm_active d) i = Some a" if "(i, a) \<in> set (dm_active d)" for i a
    using t that by (simp add: tracked_def)
  let ?d = "shutdown cfg d"
  have "list_all (\<lambda>(i, a). job_at (rc_queue_root cfg) (jobs_of ?d) Running i
      = Some (JobDoc ((rj_spec (av_running a))\<lparr>js_pid := None\<rparr>))) (dm_active d)"
    by (auto simp: list_all_iff shutdown_jobs [OF t] interrupted_def m)
  moreover have "list_all (\<lambda>q. load q (claims_of ?d) = None) (held_paths (dm_active d))"
    by (simp add: list_all_iff shutdown_def fold_shutdown_claims)
  moreover have "run_forever cfg turns (fresh_runner w) = Some (Fine ?d)"
    using assms(3) by (simp add: run_forever_def)
  moreover have "dm_effects ?d = dm_effects d @ torn_down (dm_active d)"
    by (simp add: shutdown_def fold_shutdown_effects)
  ultimately show ?thesis using d(2) shutdown_active by blast
qed

definition example_turn :: turn where
  "example_turn = \<lparr>tn_outside = [Submits example_spec], tn_before = False, tn_reap = calm_reap,
     tn_collect = calm_collect, tn_admit = calm_pass, tn_after = True\<rparr>"

definition empty_world :: world where
  "empty_world = \<lparr>w_jobs = [], w_claims = [], w_work = [], w_kills = None, w_strikes = None\<rparr>"

lemma example_run_returns:
  "(case run_loop example_cfg [example_turn] (fresh_runner empty_world) of
      Some (Fine d) \<Rightarrow> dm_active d \<noteq> [] | _ \<Rightarrow> False)"
  by code_simp

lemma stopped_runner_holds_nothing_witness:
  "\<exists>d d'. run_loop example_cfg [example_turn] (fresh_runner empty_world) = Some (Fine d) \<and> dm_active d \<noteq> []
    \<and> run_forever example_cfg [example_turn] (fresh_runner empty_world) = Some (Fine d') \<and> dm_active d' = []"
proof -
  obtain d where d: "run_loop example_cfg [example_turn] (fresh_runner empty_world) = Some (Fine d)"
    "dm_active d \<noteq> []"
    using example_run_returns by (auto split: option.splits outcome.splits)
  have "board_ok (rc_queue_root example_cfg) (w_jobs empty_world)"
    unfolding board_ok_def by (intro conjI filed_underI apartI) (simp_all add: empty_world_def job_at_def read_file_def)
  from stopped_runner_holds_nothing [OF example_cfg_well this d(1)] d show ?thesis by blast
qed

section \<open>A signal ends the loop\<close>

text \<open>The daemon once the turns listed are over, none of them stopped, stuck or broken.\<close>

fun still_going :: "runner_config \<Rightarrow> turn list \<Rightarrow> daemon \<Rightarrow> daemon option" where
  "still_going cfg [] d = Some d"
| "still_going cfg (t # ts) d =
     (let d1 = signalled_if (tn_before t) (fold (outside_step cfg) (tn_outside t) d) in
      if dm_stopping d1 then None
      else (case tick cfg (tn_reap t) (tn_collect t) (tn_admit t) d1 of
          Some (Fine (finished, started, d2)) \<Rightarrow>
            (let d3 = signalled_if (tn_after t) d2 in
             if dm_stopping d3 then None else still_going cfg ts d3)
        | _ \<Rightarrow> None))"

lemma run_loop_goes_on:
  "still_going cfg ts d = Some d1 \<Longrightarrow> run_loop cfg (ts @ rest) d = run_loop cfg rest d1"
  by (induction ts arbitrary: d)
    (auto simp: Let_def split: option.splits outcome.splits prod.splits if_splits)

lemma signal_stops_the_loop:
  assumes "still_going cfg ts d = Some d1" "tn_before t"
  shows "run_forever cfg (ts @ t # rest) d
    = Some (Fine (shutdown cfg (stop (fold (outside_step cfg) (tn_outside t) d1))))"
  using assms by (simp add: run_forever_def run_loop_goes_on signalled_if_def stop_def)

end
