(* ===== verification/Spec2Isabelle.thy ===== *)
theory Spec2Isabelle
  imports Admission QueueBoard QueueRaces FilingOutcome GitOutcome ClaimCommand QueueCommand RunnerCommand
begin

text \<open>
  A model of gpuq, the job queue of a machine with one GPU: the files it keeps, the ledger of
  claims on the card, the daemon that admits, supervises and settles jobs, and the commands a
  user types, with the theorems that make them correct.

  \<^bold>\<open>The program.\<close>  Jobs are JSON files in five directories (\<open>pending\<close>, \<open>running\<close>, \<open>done\<close>, \<open>failed\<close>,
  and the logs beside them); moving a file is how a job changes state.  A share of the card is a
  file in a ledger directory under a mutex; a process may hold one through the daemon or by hand,
  with \<open>gpu-claim\<close>.  The daemon \<open>gpuq-runner\<close> repeats one tick: \<open>reap\<close> (requeue what a dead runner
  left, sweep dead claims, kill processes on the card that nobody accounts for, convict jobs that
  use more memory than they declared), \<open>collect\<close> (poll the running jobs, settle those that ended) and
  \<open>admit\<close> (claim the card for pending jobs and launch them).  An exception of the daemon's own code
  is filed as an issue on GitHub.

  \<^bold>\<open>The theories,\<close> with the files under \<open>src/gpuqueue/\<close> they translate.

  \<^item> \<open>Prelude\<close>, \<open>Texts\<close>, \<open>Store\<close>: Python values and dictionaries, strings and numbers as Python reads
    and prints them, a store of files with atomic replacement.  The contract of the store is the locale
    \<open>file_store\<close>.
  \<^item> \<open>JobSpec\<close> (\<open>spec.py\<close>): the record of a job, \<open>validate\<close>, \<open>to_dict\<close>, \<open>from_dict\<close>.
  \<^item> \<open>Queue\<close>, \<open>QueueBoard\<close>, \<open>QueueRaces\<close> (\<open>queue.py\<close>): every operation of \<open>QueueRoot\<close>; the abstract board
    of jobs (locale \<open>job_board\<close>) and what each call, \<open>cancel\<close> split into its three file operations, answers
    and does to it; the steps inside \<open>submit\<close> and \<open>cancel\<close> interleaved with other operations.
  \<^item> \<open>Procs\<close>, \<open>Cgroups\<close>, \<open>Gpuid\<close> (\<open>procs.py\<close>, \<open>cgroups.py\<close>, \<open>gpuid.py\<close>): process trees, cgroup scopes and
    the identity of the card, over a snapshot of what the system answers.
  \<^item> \<open>Ledger\<close>, \<open>LedgerShares\<close>, \<open>CardCapacity\<close>, \<open>Attribution\<close> (\<open>ledger.py\<close>): records, admission, \<open>acquire\<close>
    and the mutex wait; the accounting of shares (locale \<open>share_ledger\<close>) and its invariant over all
    interleavings; who is charged for a process.
  \<^item> \<open>Config\<close> (\<open>config.py\<close>), \<open>Claim\<close> (\<open>claim.py\<close>), \<open>Preflight\<close> (\<open>preflight.py\<close>), \<open>Killlog\<close> (\<open>killlog.py\<close>).
  \<^item> \<open>Reaper\<close>, \<open>SweepSafety\<close>, \<open>Watchdog\<close>, \<open>Recovery\<close> (\<open>reaper.py\<close>): the operations, and what is proved of
    the orphan sweep, of the memory watchdog and of a whole reap.
  \<^item> \<open>Executor\<close> (\<open>executor.py\<close>): starting, polling and killing a process group.
  \<^item> \<open>Runner\<close>, \<open>Supervisor\<close>, \<open>Settlement\<close>, \<open>Supervision\<close>, \<open>Admission\<close> (\<open>runner.py\<close>): the daemon's record;
    admission and launching; collection, settling, the reap phase, shutdown, one tick; what settling
    comes to; the invariant of a daemon's life; what admission comes to.
  \<^item> \<open>Bugreport\<close>, \<open>Issues\<close> (\<open>bugreport.py\<close>): whose fault an exception is, its signature, the issue.
  \<^item> \<open>Actions\<close>, \<open>Bugfiler\<close>, \<open>Filing\<close>, \<open>FilingOutcome\<close> (\<open>bugfiler.py\<close>, \<open>Runner._report_bug\<close>): filing over
    any behaviour of \<open>gh\<close>; the budget; what becomes of a report.
  \<^item> \<open>GitOps\<close>, \<open>GitOutcome\<close> (\<open>git_ops.py\<close>, the git work of \<open>runner.py\<close>): the git commands and copies, over
    any behaviour of git and the disk.
  \<^item> \<open>ClaimCommand\<close> (\<open>cli_claim.py\<close>), \<open>QueueCommand\<close> (\<open>cli_gpuq.py\<close>), \<open>RunnerCommand\<close> (\<open>cli_runner.py\<close>,
    \<open>Runner.run_forever\<close>): the three commands.

  \<^bold>\<open>How the code is read.\<close>  A definition has the name of the function it translates (underscores and
  class prefixes dropped).  State is passed explicitly: a store of job files, a store of claim files,
  the record \<open>world\<close> a reap works on, the record \<open>daemon\<close> of a \<open>Runner\<close>.  A Python exception is a
  constructor of a sum or of \<open>outcome\<close>; what the code does not catch is \<open>Raised\<close> or a traceback.  What
  the system answers (nvidia-smi, \<open>ps\<close>, \<open>/proc\<close>, \<open>flock\<close>, \<open>Popen\<close>, signals, git, gh, the clock) is an
  argument, in the components that run several commands a function of all steps before it, so that
  a theorem holds for every behaviour.  Integers are Python's, unbounded; times are rationals, and a
  float of a configuration may be infinite or not a number.  What the daemon does to processes and
  work trees (made, started, killed, removed) is kept, in order, in \<open>dm_effects\<close> of its record.

  \<^bold>\<open>Where a definition is stricter or coarser than the code.\<close>  \<open>from_dict\<close> rejects a field of the wrong
  type, which \<open>cls(**d)\<close> stores unseen; the one such field that matters to what is proved,
  \<open>timeout_s\<close>, keeps any value.  In the step relations \<open>qstep\<close> and \<open>life\<close>, and in the turns of
  \<open>RunnerCommand\<close>, a cancel is one step; its read, write and rename are apart in \<open>QueueBoard\<close> and
  \<open>QueueRaces\<close>, where the race they allow is shown.  Every other queue operation is one step
  everywhere but in \<open>QueueRaces\<close>.  The guarded steps of a shutdown are taken not to raise; a
  participant other than the daemon acts between ticks, not inside one.  The participants of
  \<open>CardCapacity\<close> may differ in the usable memory they assume and in their job limit as long as
  none exceeds the one the theorem is about; the kernel may give out any pid that no live process
  has, also one that a dead record on disk names.

  \<^bold>\<open>What is shown.\<close>  The live declarations never exceed the card under any interleaving
  (\<open>CardCapacity\<close>); every call on the queue does to the board exactly what its specification says, and a
  job is in one state unless a cancel lost its race (\<open>QueueBoard\<close>); a daemon
  supervises exactly what it launched, within its limits, through crashes and restarts, and a stop
  leaves every job retried once (\<open>Supervision\<close>, \<open>RunnerCommand\<close>); a settled job leaves \<open>running\<close> for
  the state its exit calls for and its share is freed (\<open>Settlement\<close>); the sweep kills no process that
  a claim accounts for and the watchdog convicts exactly after two sweeps (\<open>SweepSafety\<close>, \<open>Watchdog\<close>);
  launching ends supervised, failed and freed or in an exception whose leavings are named, and a
  card in trouble defers (\<open>Admission\<close>); the dispatch budget holds and evidence is
  not lost (\<open>Filing\<close>, \<open>FilingOutcome\<close>); a job runs on its commit and its artifacts go where they may
  (\<open>GitOutcome\<close>); the commands exit as documented.  Lemmas named as findings of the manifest evaluate
  the code's own definitions on an input where they do something else than the code means.

  \<^bold>\<open>Bounds.\<close>  Loops over what is observed are recursions over the list of observations, and \<open>None\<close>
  is "still waiting after these"; that a loop ends is proved from observations that run past its
  deadline (\<open>SweepSafety.ladder_ends_and_answers\<close>, \<open>Executor.deadline_enforced\<close>,
  \<open>Claim.waiting_claim_granted\<close>, \<open>QueueCommand.wait_verdict\<close>).  The mutex wait is bounded by its own
  constants (\<open>CardCapacity.mutex_wait_bounded\<close>: 201 tries).  The only fuel is one the
  program has itself: the frames of stack \<open>descendants\<close> may use; \<open>Procs.descendants_complete\<close> shows
  that it finds the whole tree when the tree is no deeper.

  \<^bold>\<open>Not modelled.\<close>  The log, messages on standard error and the text of refusals and deferrals;
  \<open>argparse\<close>; sleeping; rounding of floats; characters beyond one byte and the decoding of logs; SHA-256,
  \<open>json\<close> as a printer of text, and the reader of gh's JSON (arguments); the lock of \<open>submit\<close> other than
  as its atomicity; a signal in the middle of a tick (taken at its end); which of two nested phases
  reports an exception (the tag of \<open>Runner._phase\<close>); \<open>claim.read_claim\<close>, which nothing uses; the shell
  scripts and units that install the program.
\<close>

end
